(* ===== verification/Prelude.thy ===== *)
theory Prelude
  imports Complex_Main "HOL-Library.Multiset"
begin

text \<open>
  Shared vocabulary of the development: the fact collections, loops over a slice that may
  panic (\<open>foldM\<close>), Go's fixed-width integer conversions and its truncating conversion from
  a floating-point number to an integer, and the generic lemmas on lists the components use.

  Conventions.  A Go slice is a HOL list and an index into it a \<open>nat\<close> (an \<open>int\<close> where the
  code's index can be negative).  Where the code's guards do not already bound an index, an
  out-of-range access is the outcome \<open>Panic\<close>.  A \<open>float64\<close> is a \<open>real\<close> and
  its arithmetic is exact; the narrowing conversion \<open>float32(x)\<close> is modelled with its rounding
  in the theory \<open>Float32\<close>.
\<close>

named_theorems wf_facts \<open>consequences of well-formedness predicates\<close>
named_theorems nonneg_facts \<open>sign facts about costs, lengths and penalties\<close>
named_theorems length_facts \<open>lengths kept by the in-place array operations\<close>

section \<open>Results\<close>

text \<open>
  What a Go function that returns \<open>(T, error)\<close> does: it returns a value, returns an error, or
  panics (an index out of range, an explicit \<open>panic\<close>).
\<close>

datatype ('e, 'a) outcome = Ok (ok_val: 'a) | Err 'e | Panic

fun obind :: "('e, 'a) outcome \<Rightarrow> ('a \<Rightarrow> ('e, 'b) outcome) \<Rightarrow> ('e, 'b) outcome" where
  "obind (Ok a) f = f a"
| "obind (Err e) f = Err e"
| "obind Panic f = Panic"

lemma obind_Ok_iff: "obind r f = Ok b \<longleftrightarrow> (\<exists>a. r = Ok a \<and> f a = Ok b)"
  by (cases r) auto

lemma obind_Err_iff: "obind r f = Err e \<longleftrightarrow> r = Err e \<or> (\<exists>a. r = Ok a \<and> f a = Err e)"
  by (cases r) auto

section \<open>Loops whose body may fail\<close>

fun foldM :: "('a \<Rightarrow> 's \<Rightarrow> ('e, 's) outcome) \<Rightarrow> 'a list \<Rightarrow> 's \<Rightarrow> ('e, 's) outcome" where
  "foldM f [] s = Ok s"
| "foldM f (x # xs) s = obind (f x s) (foldM f xs)"

lemma foldM_append: "foldM f (xs @ ys) s = obind (foldM f xs s) (foldM f ys)"
proof (induction xs arbitrary: s)
  case (Cons x xs)
  then show ?case by (cases "f x s") auto
qed simp

text \<open>The loop rule: an invariant on the processed prefix, kept by a body that does not fail.\<close>

lemma foldM_prefix_rule:
  assumes "P [] s"
    and "\<And>ys x zs s. xs = ys @ x # zs \<Longrightarrow> P ys s \<Longrightarrow> \<exists>s'. f x s = Ok s' \<and> P (ys @ [x]) s'"
  shows "\<exists>s'. foldM f xs s = Ok s' \<and> P xs s'"
  using assms
proof (induction xs arbitrary: s rule: rev_induct)
  case Nil
  then show ?case by simp
next
  case (snoc x xs)
  have "\<exists>s'. foldM f xs s = Ok s' \<and> P xs s'"
    by (rule snoc.IH [OF snoc.prems(1)]) (use snoc.prems(2) in force)
  then obtain s1 where s1: "foldM f xs s = Ok s1" "P xs s1" by blast
  moreover obtain s2 where "f x s1 = Ok s2" "P (xs @ [x]) s2"
    using snoc.prems(2) [of xs x "[]" s1] s1 by auto
  ultimately show ?case by (simp add: foldM_append)
qed

lemma foldM_rule:
  assumes "P s" and "\<And>x s. x \<in> set xs \<Longrightarrow> P s \<Longrightarrow> \<exists>s'. f x s = Ok s' \<and> P s'"
  shows "\<exists>s'. foldM f xs s = Ok s' \<and> P s'"
proof -
  have "\<exists>s'. foldM f xs s = Ok s' \<and> (\<lambda>_. P) xs s'"
    by (rule foldM_prefix_rule [where P = "\<lambda>_. P"]) (use assms in auto)
  then show ?thesis by simp
qed

text \<open>What every returning body keeps, the loop keeps if it returns.\<close>

lemma foldM_prefix_inv:
  assumes "foldM f xs s = Ok s'" and "P [] s"
    and "\<And>ys x zs s s'. xs = ys @ x # zs \<Longrightarrow> P ys s \<Longrightarrow> f x s = Ok s' \<Longrightarrow> P (ys @ [x]) s'"
  shows "P xs s'"
  using assms
proof (induction xs arbitrary: s' rule: rev_induct)
  case (snoc x xs)
  then obtain s1 where s1: "foldM f xs s = Ok s1" "f x s1 = Ok s'"
    by (auto simp: foldM_append obind_Ok_iff)
  have "P xs s1" by (rule snoc.IH [OF s1(1) snoc.prems(2)]) (use snoc.prems(3) in force)
  then show ?case using snoc.prems(3) [of xs x "[]" s1 s'] s1(2) by simp
qed simp

lemma foldM_invariant:
  assumes "foldM f xs s = Ok s'" and "P s"
    and "\<And>x s s'. x \<in> set xs \<Longrightarrow> P s \<Longrightarrow> f x s = Ok s' \<Longrightarrow> P s'"
  shows "P s'"
proof -
  have "(\<lambda>_. P) xs s'"
    by (rule foldM_prefix_inv [OF assms(1), where P = "\<lambda>_. P"]) (use assms(2,3) in auto)
  then show ?thesis by simp
qed

lemma foldM_preserves:
  assumes "foldM f xs s = Ok s'"
    and "\<And>x s s'. x \<in> set xs \<Longrightarrow> f x s = Ok s' \<Longrightarrow> g s' = g s"
  shows "g s' = g s"
  by (rule foldM_invariant [OF assms(1), where P = "\<lambda>t. g t = g s"]) (use assms(2) in auto)

lemma fold_inv:
  assumes "P s" and "\<And>x s. x \<in> set xs \<Longrightarrow> P s \<Longrightarrow> P (f x s)"
  shows "P (fold f xs s)"
  using assms by (induction xs arbitrary: s) auto

section \<open>Fixed-width integers\<close>

text \<open>
  \<open>wrap_s w x\<close> is Go's conversion of an integer to a signed type of \<open>w\<close> bits, and
  \<open>wrap_u w x\<close> to an unsigned one: the low \<open>w\<close> bits, read in two's complement or as they are.
\<close>

definition wrap_s :: "nat \<Rightarrow> int \<Rightarrow> int" where
  "wrap_s w x = (x + 2 ^ (w - 1)) mod 2 ^ w - 2 ^ (w - 1)"

definition wrap_u :: "nat \<Rightarrow> int \<Rightarrow> int" where
  "wrap_u w x = x mod 2 ^ w"

abbreviation int8 :: "int \<Rightarrow> int" where "int8 \<equiv> wrap_s 8"
abbreviation int16 :: "int \<Rightarrow> int" where "int16 \<equiv> wrap_s 16"
abbreviation int32 :: "int \<Rightarrow> int" where "int32 \<equiv> wrap_s 32"
abbreviation uint8 :: "int \<Rightarrow> int" where "uint8 \<equiv> wrap_u 8"

lemma wrap_s_id: "0 < w \<Longrightarrow> - (2 ^ (w - 1)) \<le> x \<Longrightarrow> x < 2 ^ (w - 1) \<Longrightarrow> wrap_s w x = x"
  by (cases w) (auto simp: wrap_s_def)

lemma wrap_u_id: "0 \<le> x \<Longrightarrow> x < 2 ^ w \<Longrightarrow> wrap_u w x = x"
  by (simp add: wrap_u_def)

lemma int32_id: "- 2147483648 \<le> x \<Longrightarrow> x < 2147483648 \<Longrightarrow> int32 x = x"
  by (rule wrap_s_id) auto

lemma wrap_s_bounds: "0 < w \<Longrightarrow> - (2 ^ (w - 1)) \<le> wrap_s w x \<and> wrap_s w x < 2 ^ (w - 1)"
proof -
  assume w: "0 < w"
  have "(2::int) ^ w = 2 * 2 ^ (w - 1)" using w by (cases w) auto
  moreover have "0 \<le> (x + 2 ^ (w - 1)) mod 2 ^ w" "(x + 2 ^ (w - 1)) mod 2 ^ w < 2 ^ w"
    by simp_all
  ultimately show ?thesis by (simp add: wrap_s_def)
qed

text \<open>Go's conversion of a float to an integer drops the fraction, towards zero.\<close>

definition trunc :: "real \<Rightarrow> int" where
  "trunc x = (if 0 \<le> x then \<lfloor>x\<rfloor> else \<lceil>x\<rceil>)"

lemma trunc_nonneg [simp]: "0 \<le> x \<Longrightarrow> trunc x = \<lfloor>x\<rfloor>"
  by (simp add: trunc_def)

lemma trunc_mono: "x \<le> y \<Longrightarrow> trunc x \<le> trunc y"
proof (cases "0 \<le> x")
  case True
  assume "x \<le> y"
  with True show ?thesis by (simp add: trunc_def floor_mono)
next
  case False
  assume xy: "x \<le> y"
  have "\<lceil>x\<rceil> \<le> 0" using False by (simp add: ceiling_le_iff)
  with False xy show ?thesis
    by (auto simp: trunc_def ceiling_mono intro: order_trans [of _ 0])
qed

text \<open>\<open>math.Round\<close>: to the nearest integer, halves away from zero.\<close>

definition math_Round :: "real \<Rightarrow> int" where
  "math_Round x = (if 0 \<le> x then \<lfloor>x + 1 / 2\<rfloor> else - \<lfloor>1 / 2 - x\<rfloor>)"

lemma math_Round_of_int [simp]: "math_Round (of_int k) = k"
proof (cases "0 \<le> k")
  case True
  then have "\<lfloor>of_int k + 1 / 2 :: real\<rfloor> = k" by (simp add: floor_eq_iff)
  with True show ?thesis by (simp add: math_Round_def)
next
  case False
  then have "\<lfloor>1 / 2 - of_int k :: real\<rfloor> = - k" by (simp add: floor_eq_iff)
  with False show ?thesis by (simp add: math_Round_def)
qed

lemma math_Round_nonneg: "0 \<le> x \<Longrightarrow> 0 \<le> math_Round x"
  by (simp add: math_Round_def)

lemma math_Round_error: "\<bar>of_int (math_Round x) - x\<bar> \<le> 1 / 2"
proof (cases "0 \<le> x")
  case True
  then have "math_Round x = \<lfloor>x + 1 / 2\<rfloor>" by (simp only: math_Round_def if_True)
  then show ?thesis by linarith
next
  case False
  then have "math_Round x = - \<lfloor>1 / 2 - x\<rfloor>" by (simp only: math_Round_def if_False)
  then show ?thesis by linarith
qed

lemma math_Round_mono: "x \<le> y \<Longrightarrow> math_Round x \<le> math_Round y"
proof (cases "0 \<le> x")
  case True
  assume "x \<le> y"
  with True show ?thesis by (auto simp: math_Round_def intro!: floor_mono)
next
  case False
  assume xy: "x \<le> y"
  have "0 \<le> \<lfloor>1 / 2 - x\<rfloor>" using False by simp
  moreover have "0 \<le> y \<Longrightarrow> 0 \<le> \<lfloor>y + 1 / 2\<rfloor>" by simp
  ultimately have "0 \<le> y \<Longrightarrow> - \<lfloor>1 / 2 - x\<rfloor> \<le> \<lfloor>y + 1 / 2\<rfloor>" by linarith
  moreover have "\<lfloor>1 / 2 - y\<rfloor> \<le> \<lfloor>1 / 2 - x\<rfloor>" using xy by (intro floor_mono) simp
  ultimately show ?thesis using False by (auto simp: math_Round_def)
qed

text \<open>
  The conversion \<open>int64(v)\<close> (and \<open>int(v)\<close>, 64 bits wide) of a float drops the fraction; what does
  not fit becomes the least integer, as on amd64.
\<close>

definition to_int64 :: "real \<Rightarrow> int" where
  "to_int64 v = (let t = trunc v in if - (2 ^ 63) \<le> t \<and> t < 2 ^ 63 then t else - (2 ^ 63))"

lemma to_int64_small: "0 \<le> v \<Longrightarrow> v < 2 ^ 63 \<Longrightarrow> to_int64 v = \<lfloor>v\<rfloor>"
  by (simp add: to_int64_def Let_def floor_less_iff le_floor_iff)

lemma to_int64_of_int: "- (2 ^ 63) \<le> n \<Longrightarrow> n < 2 ^ 63 \<Longrightarrow> to_int64 (of_int n) = n"
  by (simp add: to_int64_def Let_def trunc_def)

section \<open>Lists\<close>

lemma nth_update_eq_if: "xs[i := v] ! j = (if i = j \<and> j < length xs then v else xs ! j)"
  by (cases "i < length xs") (auto simp: nth_list_update list_update_beyond)

lemma sum_list_nonneg_real: "(\<And>x. x \<in> set xs \<Longrightarrow> (0::real) \<le> x) \<Longrightarrow> 0 \<le> sum_list xs"
  by (rule sum_list_nonneg)

lemma fold_add_sum_list:
  fixes f :: "'a \<Rightarrow> real"
  shows "fold (\<lambda>x s. s + f x) xs a = a + sum_list (map f xs)"
  by (induction xs arbitrary: a) auto

end
