(* ===== verification/Float32.thy ===== *)
theory Float32
  imports Prelude
begin

text \<open>
  The conversion \<open>float32(x)\<close>.  The code keeps lengths, heuristic values and budget spent as
  \<open>float32\<close> and computes in \<open>float64\<close>; the narrowing is a rounding the model keeps, because
  the stress budget and the cached heuristic are only as exact as it is.

  \<open>f32 x\<close> is \<open>x\<close> rounded to a 24-bit significand, to nearest with ties to even, with the
  smallest exponent of IEEE single precision (gradual underflow at \<open>2^-149\<close>).  Overflow to
  infinity (beyond \<open>3.4e38\<close>; the code's values are metres, degrees and scores) is not modelled.

  The facts the components use: \<open>f32\<close> is monotone, is the identity on the numbers it can
  represent (so idempotent), and errs by at most one part in \<open>2^24\<close>.
\<close>

section \<open>Rounding to the nearest integer, ties to even\<close>

definition round_even :: "real \<Rightarrow> int" where
  "round_even x = (let n = \<lfloor>x\<rfloor>; d = x - of_int n in
     if d < 1 / 2 then n else if d > 1 / 2 then n + 1 else if even n then n else n + 1)"

lemma round_even_of_int [simp]: "round_even (of_int k) = k"
  by (simp add: round_even_def)

lemma round_even_cases: "round_even x = \<lfloor>x\<rfloor> \<or> round_even x = \<lfloor>x\<rfloor> + 1"
  by (simp add: round_even_def Let_def)

lemma round_even_error: "\<bar>of_int (round_even x) - x\<bar> \<le> 1 / 2"
proof -
  define d where "d = x - of_int \<lfloor>x\<rfloor>"
  have "0 \<le> d" "d < 1" unfolding d_def by linarith+
  moreover have "x = of_int \<lfloor>x\<rfloor> + d" by (simp add: d_def)
  moreover have "round_even x = (if d < 1 / 2 then \<lfloor>x\<rfloor> else if d > 1 / 2 then \<lfloor>x\<rfloor> + 1
      else if even \<lfloor>x\<rfloor> then \<lfloor>x\<rfloor> else \<lfloor>x\<rfloor> + 1)"
    by (simp add: round_even_def d_def Let_def)
  ultimately show ?thesis unfolding abs_le_iff by (auto split: if_splits)
qed

lemma round_even_mono: "x \<le> y \<Longrightarrow> round_even x \<le> round_even y"
proof -
  assume xy: "x \<le> y"
  then have fl: "\<lfloor>x\<rfloor> \<le> \<lfloor>y\<rfloor>" by (rule floor_mono)
  show ?thesis
  proof (cases "\<lfloor>x\<rfloor> = \<lfloor>y\<rfloor>")
    case True
    with xy show ?thesis by (auto simp: round_even_def Let_def)
  next
    case False
    with fl have "\<lfloor>x\<rfloor> + 1 \<le> \<lfloor>y\<rfloor>" by simp
    with round_even_cases [of x] round_even_cases [of y] show ?thesis by linarith
  qed
qed

section \<open>The conversion\<close>

definition f32_exp :: "real \<Rightarrow> int" where
  "f32_exp x = max (\<lfloor>log 2 \<bar>x\<bar>\<rfloor> - 23) (- 149)"

definition f32 :: "real \<Rightarrow> real" where
  "f32 x = (if x = 0 then 0
            else if 0 < x
            then of_int (round_even (x / 2 powr f32_exp x)) * 2 powr f32_exp x
            else - (of_int (round_even (- x / 2 powr f32_exp x)) * 2 powr f32_exp x))"

lemma f32_zero [simp]: "f32 0 = 0"
  by (simp add: f32_def)

lemma f32_exp_minus [simp]: "f32_exp (- x) = f32_exp x"
  by (simp add: f32_exp_def)

lemma f32_minus: "f32 (- x) = - f32 x"
  by (auto simp: f32_def)

lemma f32_exp_pos: "0 < x \<Longrightarrow> f32_exp x = max (\<lfloor>log 2 x\<rfloor> - 23) (- 149)"
  by (simp add: f32_exp_def)

lemma f32_pos: "0 < x \<Longrightarrow> f32 x = of_int (round_even (x / 2 powr f32_exp x)) * 2 powr f32_exp x"
  by (simp add: f32_def)

lemma f32_nonneg [simp]: "0 \<le> x \<Longrightarrow> 0 \<le> f32 x"
proof (cases "x = 0")
  case False
  assume "0 \<le> x"
  with False have "0 < x" by simp
  then have "0 \<le> round_even (x / 2 powr f32_exp x)"
    using round_even_mono [of 0 "x / 2 powr f32_exp x"] round_even_of_int [of 0] by simp
  with \<open>0 < x\<close> show ?thesis by (simp add: f32_pos)
qed simp

lemma f32_exp_le_iff:
  assumes "0 < x"
  shows "\<lfloor>log 2 x\<rfloor> = k \<longleftrightarrow> 2 powr k \<le> x \<and> x < 2 powr (k + 1)"
  using assms by (simp add: floor_log_eq_powr_iff)

lemma log_floor_mono: "0 < x \<Longrightarrow> x \<le> y \<Longrightarrow> \<lfloor>log 2 x\<rfloor> \<le> \<lfloor>log 2 (y::real)\<rfloor>"
  by (intro floor_mono) simp

lemma powr_int_ge0: "0 \<le> k \<Longrightarrow> (2::real) powr (of_int k) = of_int (2 ^ nat k)"
  by (simp add: powr_real_of_int)

lemma f32_mono_pos:
  assumes "0 < x" and "x \<le> y"
  shows "f32 x \<le> f32 y"
proof (cases "f32_exp x = f32_exp y")
  case True
  have "round_even (x / 2 powr f32_exp x) \<le> round_even (y / 2 powr f32_exp y)"
    using True assms by (intro round_even_mono) (simp add: divide_right_mono)
  with True assms show ?thesis by (simp add: f32_pos mult_right_mono)
next
  case False
  let ?k = "\<lfloor>log 2 y\<rfloor>"
  have y: "0 < y" using assms by simp
  have "\<lfloor>log 2 x\<rfloor> \<le> ?k" using assms by (rule log_floor_mono)
  with False assms y have k: "f32_exp y = ?k - 23" "\<lfloor>log 2 x\<rfloor> < ?k" "f32_exp x < f32_exp y"
    by (auto simp: f32_exp_def max_def split: if_splits)
  have yk: "2 powr ?k \<le> y" using y f32_exp_le_iff [of y ?k] by simp
  have "x < 2 powr (\<lfloor>log 2 x\<rfloor> + 1)" using assms(1) f32_exp_le_iff [of x "\<lfloor>log 2 x\<rfloor>"] by simp
  also have "\<dots> \<le> 2 powr ?k" using k(2) by simp
  finally have xk: "x \<le> 2 powr ?k" by simp
  have "(2::real) powr ?k = of_int (2 ^ 23) * 2 powr f32_exp y"
    using powr_add [of "2::real" 23 "of_int (f32_exp y)"] by (simp add: k(1))
  also have "\<dots> \<le> f32 y"
  proof -
    have "of_int (2 ^ 23) \<le> y / 2 powr f32_exp y"
      using yk calculation by (simp add: pos_le_divide_eq)
    then have "2 ^ 23 \<le> round_even (y / 2 powr f32_exp y)"
      using round_even_mono [of "of_int (2 ^ 23)"] by (metis round_even_of_int)
    then have "(of_int (2 ^ 23) :: real) \<le> of_int (round_even (y / 2 powr f32_exp y))"
      by (simp only: of_int_le_iff)
    then show ?thesis using y by (simp only: f32_pos) (simp add: mult_right_mono)
  qed
  finally have *: "2 powr ?k \<le> f32 y" .
  define j where "j = nat (?k - f32_exp x)"
  have j: "?k = int j + f32_exp x" using k by (simp add: j_def)
  have pk: "(2::real) powr ?k = of_int (2 ^ j) * 2 powr f32_exp x"
    by (simp add: j powr_add powr_realpow)
  have "x / 2 powr f32_exp x \<le> of_int (2 ^ j)"
    using xk pk by (simp add: pos_divide_le_eq)
  then have "round_even (x / 2 powr f32_exp x) \<le> 2 ^ j"
    using round_even_mono [of _ "of_int (2 ^ j)"] by (metis round_even_of_int)
  then have "(of_int (round_even (x / 2 powr f32_exp x)) :: real) \<le> of_int (2 ^ j)"
    by (simp only: of_int_le_iff)
  then have "f32 x \<le> 2 powr ?k"
    using assms(1) pk by (simp only: f32_pos) (simp add: mult_right_mono)
  with * show ?thesis by simp
qed

lemma f32_nonpos [simp]: "x \<le> 0 \<Longrightarrow> f32 x \<le> 0"
  using f32_nonneg [of "- x"] by (simp add: f32_minus)

lemma f32_mono: "x \<le> y \<Longrightarrow> f32 x \<le> f32 y"
proof -
  assume xy: "x \<le> y"
  consider "0 < x" | "x \<le> 0" "0 \<le> y" | "y < 0" by linarith
  then show ?thesis
  proof cases
    case 1
    with xy show ?thesis by (simp add: f32_mono_pos)
  next
    case 2
    then show ?thesis using f32_nonpos [of x] f32_nonneg [of y] by linarith
  next
    case 3
    then show ?thesis using f32_mono_pos [of "- y" "- x"] xy by (simp add: f32_minus)
  qed
qed

section \<open>Representable numbers\<close>

lemma f32_exact_pos:
  assumes x: "x = of_int m * 2 powr (of_int e)" and m: "0 < m" "m \<le> 2 ^ 24" and e: "- 149 \<le> e"
  shows "f32 x = x"
proof -
  have pos: "0 < x" using x m by simp
  have le: "f32_exp x \<le> e \<or> (m = 2 ^ 24 \<and> f32_exp x \<le> e + 1)"
  proof (cases "m = 2 ^ 24")
    case True
    have "x = 2 powr (of_int (e + 24))"
      unfolding x True using powr_add [of "2::real" "of_int e" 24] by simp
    then have "\<lfloor>log 2 x\<rfloor> = e + 24" by simp
    with True e pos show ?thesis by (simp add: f32_exp_def)
  next
    case False
    with m have "m < 2 ^ 24" by simp
    then have "real_of_int m < of_int (2 ^ 24)" by (simp only: of_int_less_iff)
    then have "x < 2 ^ 24 * 2 powr (of_int e)" using x by simp
    also have "\<dots> = 2 powr (of_int e + 24)" using powr_add [of "2::real" "of_int e" 24] by simp
    finally have "log 2 x < of_int e + 24" using pos by (simp add: log_less_iff)
    then have "\<lfloor>log 2 x\<rfloor> \<le> e + 23" by linarith
    with e pos show ?thesis by (simp add: f32_exp_def)
  qed
  define P where "P = 2 powr (real_of_int (f32_exp x))"
  have P_pos: "0 < P" by (simp add: P_def)
  from le obtain n :: int where n: "x / 2 powr (of_int (f32_exp x)) = of_int n"
  proof
    assume le: "f32_exp x \<le> e"
    define j where "j = nat (e - f32_exp x)"
    have "e = int j + f32_exp x" using le by (simp add: j_def)
    then have "(2::real) powr (of_int e) = of_int (2 ^ j) * P"
      by (simp add: P_def powr_add powr_realpow)
    then have "x / P = of_int (m * 2 ^ j)" using P_pos by (simp add: x)
    then show ?thesis unfolding P_def by (rule that)
  next
    assume as: "m = 2 ^ 24 \<and> f32_exp x \<le> e + 1"
    define j where "j = nat (e + 1 - f32_exp x)"
    have ej: "e = int j + f32_exp x - 1" using as by (simp add: j_def)
    have h: "(2::real) powr (of_int e) = of_int (2 ^ j) * P / 2"
      unfolding ej P_def by (simp add: powr_add powr_diff powr_realpow)
    from x have "x = of_int m * (of_int (2 ^ j) * P / 2)" by (simp only: h)
    with as have "x = of_int (2 ^ 23 * 2 ^ j) * P" by simp
    with P_pos have "x / P = of_int (2 ^ 23 * 2 ^ j)" by simp
    then show ?thesis unfolding P_def by (rule that)
  qed
  have "f32 x = of_int n * 2 powr (of_int (f32_exp x))" using pos n by (simp add: f32_pos)
  also have "\<dots> = x" using n by (simp add: field_simps)
  finally show ?thesis .
qed

lemma f32_exact:
  assumes x: "x = of_int m * 2 powr (of_int e)" and m: "\<bar>m\<bar> \<le> 2 ^ 24" and e: "- 149 \<le> e"
  shows "f32 x = x"
proof -
  consider "m = 0" | "0 < m" | "m < 0" by linarith
  then show ?thesis
  proof cases
    case 1
    then show ?thesis by (simp add: x)
  next
    case 2
    then show ?thesis using f32_exact_pos [OF x _ _ e] m by simp
  next
    case 3
    have "f32 (- x) = - x"
      by (rule f32_exact_pos [of _ "- m" e]) (use x m e 3 in auto)
    then show ?thesis by (simp add: f32_minus)
  qed
qed

lemma f32_of_int: "\<bar>m\<bar> \<le> 2 ^ 24 \<Longrightarrow> f32 (of_int m) = of_int m"
  by (rule f32_exact [of _ m 0]) auto

lemma f32_numeral [simp]: "(numeral k :: int) \<le> 16777216 \<Longrightarrow> f32 (numeral k) = numeral k"
  using f32_of_int [of "numeral k"] by simp

lemma f32_one [simp]: "f32 1 = 1"
  using f32_of_int [of 1] by simp

text \<open>The result of the conversion is representable, so converting twice changes nothing.\<close>

lemma f32_representable:
  "\<exists>m e. f32 x = of_int m * 2 powr (of_int e) \<and> \<bar>m\<bar> \<le> 2 ^ 24 \<and> - 149 \<le> e"
proof (cases "x = 0")
  case True
  then show ?thesis by (intro exI [of _ 0]) auto
next
  case False
  define y where "y = \<bar>x\<bar>"
  have y: "0 < y" using False by (simp add: y_def)
  let ?e = "f32_exp y"
  let ?m = "round_even (y / 2 powr ?e)"
  have "y < 2 powr (\<lfloor>log 2 y\<rfloor> + 1)" using y f32_exp_le_iff [of y "\<lfloor>log 2 y\<rfloor>"] by simp
  also have "\<dots> \<le> 2 powr (of_int ?e + 24)"
  proof -
    have "\<lfloor>log 2 y\<rfloor> + 1 \<le> ?e + 24" using y by (simp add: f32_exp_pos)
    then show ?thesis by simp
  qed
  also have "\<dots> = of_int (2 ^ 24) * 2 powr ?e" using powr_add [of "2::real" "of_int ?e" 24] by simp
  finally have "y / 2 powr ?e \<le> of_int (2 ^ 24)" by (simp add: pos_divide_le_eq)
  then have "?m \<le> 2 ^ 24" using round_even_mono [of _ "of_int (2 ^ 24)"] by (metis round_even_of_int)
  moreover have "0 \<le> ?m"
    using round_even_mono [of 0 "y / 2 powr ?e"] round_even_of_int [of 0] y by simp
  moreover have "- 149 \<le> ?e" by (simp add: f32_exp_def)
  moreover have "f32 y = of_int ?m * 2 powr ?e" using y by (simp add: f32_pos)
  moreover have "f32 x = f32 y \<or> f32 x = - f32 y" by (auto simp: y_def f32_minus abs_if)
  ultimately show ?thesis
    by (metis abs_minus_cancel abs_of_nonneg mult_minus_left of_int_minus)
qed

lemma f32_idem [simp]: "f32 (f32 x) = f32 x"
  using f32_representable [of x] f32_exact by metis

section \<open>Error\<close>

lemma f32_error_ulp: "0 < y \<Longrightarrow> \<bar>f32 y - y\<bar> \<le> 1 / 2 * 2 powr (of_int (f32_exp y))"
proof -
  assume y: "0 < y"
  define u where "u = 2 powr (real_of_int (f32_exp y))"
  have u: "0 < u" by (simp add: u_def)
  have "f32 y - y = (of_int (round_even (y / u)) - y / u) * u"
    using y u by (simp add: f32_pos u_def [symmetric] left_diff_distrib)
  then have "\<bar>f32 y - y\<bar> = \<bar>of_int (round_even (y / u)) - y / u\<bar> * u"
    using u by (simp add: abs_mult)
  also have "\<dots> \<le> 1 / 2 * u" using u by (intro mult_right_mono round_even_error) simp
  finally show ?thesis by (simp add: u_def)
qed

lemma f32_error:
  assumes "2 powr (- 126) \<le> \<bar>x\<bar>"
  shows "\<bar>f32 x - x\<bar> \<le> \<bar>x\<bar> / 2 ^ 24"
proof -
  define y where "y = \<bar>x\<bar>"
  have y: "0 < y" "2 powr (- 126) \<le> y" using assms less_le_trans [of 0 "2 powr (- 126)" y]
    by (auto simp: y_def)
  then have "- 126 \<le> log 2 y" by (simp add: le_log_iff)
  then have "- 126 \<le> \<lfloor>log 2 y\<rfloor>" by (simp add: le_floor_iff)
  then have e: "f32_exp y = \<lfloor>log 2 y\<rfloor> - 23" unfolding f32_exp_pos [OF y(1)] by linarith
  have "2 powr \<lfloor>log 2 y\<rfloor> \<le> y" using y f32_exp_le_iff [of y "\<lfloor>log 2 y\<rfloor>"] by simp
  then have ulp: "2 powr f32_exp y \<le> y / 2 ^ 23"
    using powr_diff [of "2::real" "\<lfloor>log 2 y\<rfloor>" 23] by (simp add: e divide_right_mono)
  have "\<bar>f32 y - y\<bar> \<le> 1 / 2 * 2 powr f32_exp y" by (rule f32_error_ulp [OF y(1)])
  also have "\<dots> \<le> y / 2 ^ 24" using ulp by simp
  finally have "\<bar>f32 y - y\<bar> \<le> y / 2 ^ 24" .
  moreover have "\<bar>f32 x - x\<bar> = \<bar>f32 y - y\<bar>" by (auto simp: y_def f32_minus abs_if)
  ultimately show ?thesis by (simp add: y_def)
qed

text \<open>For any argument, the absolute error at the scale \<open>D\<close> is bounded by \<open>D / 2^24\<close>.\<close>

lemma f32_error_at_scale:
  assumes "\<bar>x\<bar> \<le> D" and "2 powr (- 126) \<le> D"
  shows "\<bar>f32 x - x\<bar> \<le> D / 2 ^ 24"
proof (cases "2 powr (- 126) \<le> \<bar>x\<bar>")
  case True
  have "\<bar>f32 x - x\<bar> \<le> \<bar>x\<bar> / 2 ^ 24" by (rule f32_error [OF True])
  also have "\<dots> \<le> D / 2 ^ 24" using assms(1) by simp
  finally show ?thesis .
next
  case False
  show ?thesis
  proof (cases "x = 0")
    case True
    then show ?thesis using assms by simp
  next
    case nz: False
    define y where "y = \<bar>x\<bar>"
    have y: "0 < y" "y < 2 powr (- 126)" using nz False by (auto simp: y_def)
    then have "log 2 y < - 126" by (simp add: log_less_iff)
    then have "\<lfloor>log 2 y\<rfloor> < - 126" by (simp add: floor_less_iff)
    then have e: "f32_exp y = - 149" unfolding f32_exp_pos [OF y(1)] by linarith
    have "\<bar>f32 y - y\<bar> \<le> 1 / 2 * 2 powr f32_exp y" by (rule f32_error_ulp [OF y(1)])
    also have "\<dots> = 2 powr (- 150)"
      using powr_diff [of "2::real" "- 149" 1] by (simp add: e)
    also have "\<dots> = 2 powr (- 126) / 2 ^ 24"
      using powr_diff [of "2::real" "- 126" 24] by simp
    also have "\<dots> \<le> D / 2 ^ 24" using assms(2) by simp
    finally have "\<bar>f32 y - y\<bar> \<le> D / 2 ^ 24" .
    moreover have "\<bar>f32 x - x\<bar> = \<bar>f32 y - y\<bar>" by (auto simp: y_def f32_minus abs_if)
    ultimately show ?thesis by simp
  qed
qed

end
