(* ===== verification/Road_Graph.thy ===== *)
theory Road_Graph
  imports Float32
begin

text \<open>
  The package \<open>internal/graph\<close>, files \<open>graph.go\<close> and \<open>load.go\<close>: the facility, road, surface
  and control classes with their parsers, the graph in compressed-sparse-row form, and its
  construction from the database's rows.

  The rows of a query are a parameter (\<open>cursor\<close>): what the database returns is not under
  \<open>src/\<close>.  The theorems show that a graph that loads is well formed (\<open>wf_graph\<close>): the parallel
  arrays agree, every endpoint is a node, and \<open>Offs n ..< Offs (n + 1)\<close> holds exactly the edges
  that leave \<open>n\<close>; and that the index from database ids to edges is the inverse of \<open>DBID\<close>.
\<close>

section \<open>Classes of roads\<close>

datatype infra = InfraNone | InfraPedestrian | InfraSharedLane | InfraPaintedLane
  | InfraBufferedLane | InfraPath | InfraProtectedTrack

definition infra_String :: "infra \<Rightarrow> string" where
  "infra_String i = (case i of
     InfraProtectedTrack \<Rightarrow> ''protected_track''
   | InfraPath \<Rightarrow> ''path''
   | InfraBufferedLane \<Rightarrow> ''buffered_lane''
   | InfraPaintedLane \<Rightarrow> ''painted_lane''
   | InfraSharedLane \<Rightarrow> ''shared_lane''
   | InfraPedestrian \<Rightarrow> ''pedestrian''
   | _ \<Rightarrow> ''none'')"

definition ParseInfra :: "string \<Rightarrow> infra" where
  "ParseInfra s =
    (if s = ''protected_track'' then InfraProtectedTrack
     else if s = ''path'' then InfraPath
     else if s = ''buffered_lane'' then InfraBufferedLane
     else if s = ''painted_lane'' then InfraPaintedLane
     else if s = ''shared_lane'' then InfraSharedLane
     else if s = ''pedestrian'' then InfraPedestrian
     else InfraNone)"

datatype highway = HwyOther | HwyCycleway | HwyPath | HwyFootway | HwyTrack | HwyPedestrian
  | HwyLivingStreet | HwyService | HwyResidential | HwyUnclassified | HwyTertiary
  | HwySecondary | HwyPrimary | HwyTrunk

definition ParseHighway :: "string \<Rightarrow> highway" where
  "ParseHighway s =
    (if s = ''cycleway'' then HwyCycleway
     else if s = ''path'' then HwyPath
     else if s = ''footway'' then HwyFootway
     else if s = ''track'' then HwyTrack
     else if s = ''pedestrian'' then HwyPedestrian
     else if s = ''living_street'' then HwyLivingStreet
     else if s = ''service'' then HwyService
     else if s = ''residential'' then HwyResidential
     else if s = ''unclassified'' then HwyUnclassified
     else if s \<in> {''tertiary'', ''tertiary_link''} then HwyTertiary
     else if s \<in> {''secondary'', ''secondary_link''} then HwySecondary
     else if s \<in> {''primary'', ''primary_link''} then HwyPrimary
     else if s \<in> {''trunk'', ''trunk_link''} then HwyTrunk
     else HwyOther)"

datatype surface = SurfaceUnknown | SurfacePaved | SurfaceCompacted | SurfaceLoose | SurfaceBad

definition ParseSurface :: "string \<Rightarrow> surface" where
  "ParseSurface s =
    (if s \<in> {''asphalt'', ''concrete'', ''paved'', ''paving_stones'', ''chipseal'', ''concrete:plates''}
     then SurfacePaved
     else if s \<in> {''compacted'', ''fine_gravel'', ''gravel:fine'', ''pebblestone''}
     then SurfaceCompacted
     else if s \<in> {''gravel'', ''dirt'', ''ground'', ''earth'', ''grass'', ''unpaved'', ''cobblestone'',
                  ''sett'', ''wood''}
     then SurfaceLoose
     else if s \<in> {''sand'', ''mud''} then SurfaceBad
     else SurfaceUnknown)"

datatype control = ControlNone | ControlSignal | ControlStop | ControlYield | ControlCrossing
  | ControlRoundabout

definition ParseControl :: "string \<Rightarrow> control" where
  "ParseControl s =
    (if s = ''signal'' then ControlSignal
     else if s = ''stop'' then ControlStop
     else if s = ''yield'' then ControlYield
     else if s = ''crossing'' then ControlCrossing
     else if s = ''roundabout'' then ControlRoundabout
     else ControlNone)"

text \<open>
  The facility classes are declared worst to best, so that they compare: \<open>iota\<close> numbers them as
  the code's constants are numbered.
\<close>

fun infra_iota :: "infra \<Rightarrow> nat" where
  "infra_iota InfraNone = 0"
| "infra_iota InfraPedestrian = 1"
| "infra_iota InfraSharedLane = 2"
| "infra_iota InfraPaintedLane = 3"
| "infra_iota InfraBufferedLane = 4"
| "infra_iota InfraPath = 5"
| "infra_iota InfraProtectedTrack = 6"

lemma infra_iota_inject: "infra_iota a = infra_iota b \<Longrightarrow> a = b"
  by (cases a; cases b) auto

instantiation infra :: linorder
begin

definition less_eq_infra :: "infra \<Rightarrow> infra \<Rightarrow> bool" where
  "less_eq_infra a b \<longleftrightarrow> infra_iota a \<le> infra_iota b"

definition less_infra :: "infra \<Rightarrow> infra \<Rightarrow> bool" where
  "less_infra a b \<longleftrightarrow> infra_iota a < infra_iota b"

instance
proof
  fix x y z :: infra
  show "(x < y) = (x \<le> y \<and> \<not> y \<le> x)" by (auto simp: less_eq_infra_def less_infra_def)
  show "x \<le> x" by (simp add: less_eq_infra_def)
  show "x \<le> y \<Longrightarrow> y \<le> z \<Longrightarrow> x \<le> z" by (simp add: less_eq_infra_def)
  show "x \<le> y \<Longrightarrow> y \<le> x \<Longrightarrow> x = y"
    by (simp add: less_eq_infra_def infra_iota_inject)
  show "x \<le> y \<or> y \<le> x" by (auto simp: less_eq_infra_def)
qed

end

lemma ParseInfra_String: "ParseInfra (infra_String i) = i"
  by (cases i) (simp_all add: infra_String_def ParseInfra_def)

definition SpeedUnknown :: int where "SpeedUnknown = - 1"
definition LanesUnknown :: int where "LanesUnknown = - 1"
definition LitUnknown :: int where "LitUnknown = - 1"
definition LitNo :: int where "LitNo = 0"
definition LitYes :: int where "LitYes = 1"

section \<open>The graph\<close>

record graph =
  NodeLat :: "real list"
  NodeLon :: "real list"
  NodeControl :: "control list"
  NodeMaxLTS :: "nat list"
  From :: "nat list"
  To :: "nat list"
  LengthM :: "real list"
  DBID :: "int list"
  Infra :: "infra list"
  Highway :: "highway list"
  Surface :: "surface list"
  MaxSpeed :: "int list"
  Lanes :: "int list"
  Lit :: "int list"
  LTS :: "nat list"
  CrashScore :: "real list"
  GradePct :: "real list"
  BearingStart :: "real list"
  BearingEnd :: "real list"
  Offs :: "nat list"
  dbIndex :: "int list"

definition NumNodes :: "graph \<Rightarrow> nat" where "NumNodes g = length (NodeLat g)"
definition NumEdges :: "graph \<Rightarrow> nat" where "NumEdges g = length (From g)"

definition OutEdges :: "graph \<Rightarrow> nat \<Rightarrow> nat \<times> nat" where
  "OutEdges g n = (Offs g ! n, Offs g ! (n + 1))"

definition OutDegree :: "graph \<Rightarrow> nat \<Rightarrow> int" where
  "OutDegree g n = int (Offs g ! (n + 1)) - int (Offs g ! n)"

text \<open>The edges the half-open range of \<open>OutEdges\<close> stands for, in the order loops visit them.\<close>

definition out_list :: "graph \<Rightarrow> nat \<Rightarrow> nat list" where
  "out_list g n = (let (lo, hi) = OutEdges g n in [lo..<hi])"

definition raise_lts :: "nat \<Rightarrow> nat \<Rightarrow> nat list \<Rightarrow> nat list" where
  "raise_lts n lts m = (if lts > m ! n then m[n := lts] else m)"

definition ComputeNodeMaxLTS :: "graph \<Rightarrow> graph" where
  "ComputeNodeMaxLTS g = g\<lparr>NodeMaxLTS :=
     fold (\<lambda>e m. raise_lts (To g ! e) (LTS g ! e) (raise_lts (From g ! e) (LTS g ! e) m))
       [0..<NumEdges g] (replicate (NumNodes g) 0)\<rparr>"

definition IndexOfDBID :: "graph \<Rightarrow> int \<Rightarrow> nat option" where
  "IndexOfDBID g dbID =
     (if dbID < 0 \<or> dbID \<ge> int (length (dbIndex g)) then None
      else let i = dbIndex g ! nat dbID in if i < 0 then None else Some (nat i))"

definition IsReverseOf :: "graph \<Rightarrow> nat \<Rightarrow> nat \<Rightarrow> bool" where
  "IsReverseOf g a b \<longleftrightarrow> From g ! a = To g ! b \<and> To g ! a = From g ! b"

datatype load_error =
    CountNodes | EmptyNodes | QueryNodes | ScanNode | NodeOutside int | ReadNodes
  | NodeCount int int
  | CountEdges | EmptyEdges | QueryEdges | ScanEdge | EdgeOutside int | ReadEdges
  | SparseIds int nat

text \<open>
  \<open>buildDBIndex\<close>.  A negative id among non-negative ones indexes the array below zero, which
  panics; with no id above \<open>-1\<close> the index stays empty.
\<close>

definition index_step :: "int list \<Rightarrow> nat \<Rightarrow> int list \<Rightarrow> (load_error, int list) outcome" where
  "index_step ids i idx =
     (if ids ! i < 0 \<or> ids ! i \<ge> int (length idx) then Panic
      else Ok (idx[nat (ids ! i) := int32 (int i)]))"

definition buildDBIndex :: "graph \<Rightarrow> (load_error, graph) outcome" where
  "buildDBIndex g =
     (let mx = fold (\<lambda>i m. if i > m then i else m) (DBID g) (- 1)
      in if mx < 0 then Ok g
         else if mx \<ge> int (length (DBID g)) * 4 then Err (SparseIds mx (length (DBID g)))
         else obind (foldM (index_step (DBID g)) [0..<length (DBID g)]
                       (replicate (nat (mx + 1)) (- 1)))
                (\<lambda>idx. Ok (g\<lparr>dbIndex := idx\<rparr>)))"

section \<open>Loading\<close>

text \<open>
  A query's result: \<open>None\<close> when the query fails, otherwise its rows (\<open>None\<close> for a row whose
  scan fails) and whether the cursor reports an error after the last row.
\<close>

record 'r cursor =
  rows :: "'r option list"
  rows_err :: bool

record node_row =
  nr_id :: int
  nr_lon :: real
  nr_lat :: real
  nr_control :: string

record edge_row =
  er_id :: int
  er_from :: int
  er_to :: int
  er_length :: real
  er_highway :: string
  er_infra :: string
  er_speed :: "int option"
  er_lanes :: "int option"
  er_lit :: "bool option"
  er_lts :: "int option"
  er_crash :: "real option"
  er_grade :: "real option"
  er_surface :: string
  er_bstart :: real
  er_bend :: real

definition optInt16 :: "int option \<Rightarrow> int \<Rightarrow> int" where
  "optInt16 v d = (case v of None \<Rightarrow> d | Some x \<Rightarrow> x)"

definition optFloat32 :: "real option \<Rightarrow> real" where
  "optFloat32 v = (case v of None \<Rightarrow> 0 | Some x \<Rightarrow> x)"

definition optLit :: "bool option \<Rightarrow> int" where
  "optLit v = (case v of None \<Rightarrow> LitUnknown | Some b \<Rightarrow> if b then LitYes else LitNo)"

definition empty_graph :: graph where
  "empty_graph = \<lparr>NodeLat = [], NodeLon = [], NodeControl = [], NodeMaxLTS = [],
     From = [], To = [], LengthM = [], DBID = [], Infra = [], Highway = [], Surface = [],
     MaxSpeed = [], Lanes = [], Lit = [], LTS = [], CrashScore = [], GradePct = [],
     BearingStart = [], BearingEnd = [], Offs = [], dbIndex = []\<rparr>"

fun scan_nodes :: "int \<Rightarrow> node_row option list \<Rightarrow> graph \<times> int \<Rightarrow> (load_error, graph \<times> int) outcome" where
  "scan_nodes n [] (g, seen) = Ok (g, seen)"
| "scan_nodes n (None # rs) (g, seen) = Err ScanNode"
| "scan_nodes n (Some r # rs) (g, seen) =
     (if nr_id r < 0 \<or> nr_id r \<ge> n then Err (NodeOutside (nr_id r))
      else scan_nodes n rs
        (g\<lparr>NodeLat := (NodeLat g)[nat (nr_id r) := nr_lat r],
           NodeLon := (NodeLon g)[nat (nr_id r) := nr_lon r],
           NodeControl := (NodeControl g)[nat (nr_id r) := ParseControl (nr_control r)]\<rparr>,
         seen + 1))"

definition loadNodes ::
  "int option \<Rightarrow> node_row cursor option \<Rightarrow> graph \<Rightarrow> (load_error, graph) outcome" where
  "loadNodes cnt query g =
     (case cnt of None \<Rightarrow> Err CountNodes | Some n \<Rightarrow>
      if n = 0 then Err EmptyNodes
      else if n < 0 then Panic
      else
        let g1 = g\<lparr>NodeLat := replicate (nat n) 0, NodeLon := replicate (nat n) 0,
                   NodeControl := replicate (nat n) ControlNone\<rparr>
        in case query of None \<Rightarrow> Err QueryNodes | Some c \<Rightarrow>
           obind (scan_nodes n (rows c) (g1, 0)) (\<lambda>(g2, seen).
             if rows_err c then Err ReadNodes
             else if seen \<noteq> n then Err (NodeCount n seen)
             else Ok g2))"

definition append_edge :: "graph \<Rightarrow> edge_row \<Rightarrow> graph" where
  "append_edge g r = g\<lparr>
     From := From g @ [nat (int32 (er_from r))],
     To := To g @ [nat (int32 (er_to r))],
     LengthM := LengthM g @ [f32 (er_length r)],
     DBID := DBID g @ [er_id r],
     Infra := Infra g @ [ParseInfra (er_infra r)],
     Highway := Highway g @ [ParseHighway (er_highway r)],
     Surface := Surface g @ [ParseSurface (er_surface r)],
     MaxSpeed := MaxSpeed g @ [optInt16 (er_speed r) SpeedUnknown],
     Lanes := Lanes g @ [int8 (optInt16 (er_lanes r) LanesUnknown)],
     Lit := Lit g @ [optLit (er_lit r)],
     LTS := LTS g @ [nat (uint8 (optInt16 (er_lts r) 0))],
     CrashScore := CrashScore g @ [optFloat32 (er_crash r)],
     GradePct := GradePct g @ [optFloat32 (er_grade r)],
     BearingStart := BearingStart g @ [er_bstart r],
     BearingEnd := BearingEnd g @ [er_bend r]\<rparr>"

fun scan_edges :: "int \<Rightarrow> edge_row option list \<Rightarrow> graph \<Rightarrow> (load_error, graph) outcome" where
  "scan_edges nodeCount [] g = Ok g"
| "scan_edges nodeCount (None # rs) g = Err ScanEdge"
| "scan_edges nodeCount (Some r # rs) g =
     (if er_from r < 0 \<or> er_from r \<ge> nodeCount \<or> er_to r < 0 \<or> er_to r \<ge> nodeCount
      then Err (EdgeOutside (er_id r))
      else scan_edges nodeCount rs (append_edge g r))"

definition loadEdges ::
  "int option \<Rightarrow> edge_row cursor option \<Rightarrow> graph \<Rightarrow> (load_error, graph) outcome" where
  "loadEdges cnt query g =
     (case cnt of None \<Rightarrow> Err CountEdges | Some n \<Rightarrow>
      if n = 0 then Err EmptyEdges
      else if n < 0 then Panic
      else
        let g1 = g\<lparr>From := [], To := [], LengthM := [], DBID := [], Infra := [], Highway := [],
                   Surface := [], MaxSpeed := [], Lanes := [], Lit := [], LTS := [],
                   CrashScore := [], GradePct := [], BearingStart := [], BearingEnd := []\<rparr>
        in case query of None \<Rightarrow> Err QueryEdges | Some c \<Rightarrow>
           obind (scan_edges (int32 (int (NumNodes g))) (rows c) g1) (\<lambda>g2.
             if rows_err c then Err ReadEdges else Ok g2))"

text \<open>
  \<open>buildOffsets\<close>: count the edges of each source node, panicking when the sources are not
  sorted, then turn the counts into prefix sums.  Graphs of \<open>2^31\<close> edges or more, where the
  \<open>int32\<close> counters would wrap, are not modelled.
\<close>

definition count_step :: "nat list \<Rightarrow> nat \<Rightarrow> nat list \<Rightarrow> (load_error, nat list) outcome" where
  "count_step frm i offs =
     (if i > 0 \<and> frm ! i < frm ! (i - 1) then Panic
      else if frm ! i + 1 \<ge> length offs then Panic
      else Ok (offs[frm ! i + 1 := offs ! (frm ! i + 1) + 1]))"

definition prefix_step :: "nat \<Rightarrow> nat list \<Rightarrow> nat list" where
  "prefix_step i offs = offs[i := offs ! i + offs ! (i - 1)]"

definition buildOffsets :: "graph \<Rightarrow> (load_error, graph) outcome" where
  "buildOffsets g =
     (let n = NumNodes g
      in obind (foldM (count_step (From g)) [0..<NumEdges g] (replicate (n + 1) 0)) (\<lambda>offs.
           Ok (g\<lparr>Offs := fold prefix_step [1..<n + 1] offs\<rparr>)))"

definition graph_Load :: "int option \<Rightarrow> node_row cursor option \<Rightarrow> int option \<Rightarrow>
    edge_row cursor option \<Rightarrow> (load_error, graph) outcome" where
  "graph_Load ncount nquery ecount equery =
     obind (loadNodes ncount nquery empty_graph) (\<lambda>g1.
     obind (loadEdges ecount equery g1) (\<lambda>g2.
     obind (buildOffsets g2) (\<lambda>g3.
     buildDBIndex (ComputeNodeMaxLTS g3))))"

definition ApproxBytes :: "graph \<Rightarrow> nat" where
  "ApproxBytes g =
     (let n = NumNodes g; e = NumEdges g;
          perNode = 8 + 8 + 1 + 4;
          perEdge = 4 + 4 + 4 + 8 + 1 + 1 + 1 + 2 + 1 + 1 + 1 + 4 + 4 + 4 + 4
      in n * perNode + e * perEdge)"

section \<open>Well-formed graphs\<close>

definition wf_arrays :: "graph \<Rightarrow> bool" where
  "wf_arrays g \<longleftrightarrow>
     length (NodeLon g) = NumNodes g \<and> length (NodeControl g) = NumNodes g \<and>
     length (To g) = NumEdges g \<and> length (LengthM g) = NumEdges g \<and>
     length (DBID g) = NumEdges g \<and> length (Infra g) = NumEdges g \<and>
     length (Highway g) = NumEdges g \<and> length (Surface g) = NumEdges g \<and>
     length (MaxSpeed g) = NumEdges g \<and> length (Lanes g) = NumEdges g \<and>
     length (Lit g) = NumEdges g \<and> length (LTS g) = NumEdges g \<and>
     length (CrashScore g) = NumEdges g \<and> length (GradePct g) = NumEdges g \<and>
     length (BearingStart g) = NumEdges g \<and> length (BearingEnd g) = NumEdges g \<and>
     (\<forall>e<NumEdges g. From g ! e < NumNodes g \<and> To g ! e < NumNodes g)"

definition wf_offs :: "graph \<Rightarrow> bool" where
  "wf_offs g \<longleftrightarrow> length (Offs g) = NumNodes g + 1 \<and>
     (\<forall>n<NumNodes g. \<forall>e. (Offs g ! n \<le> e \<and> e < Offs g ! (n + 1)) =
        (e < NumEdges g \<and> From g ! e = n))"

definition wf_graph :: "graph \<Rightarrow> bool" where
  "wf_graph g \<longleftrightarrow> wf_arrays g \<and> wf_offs g \<and> length (NodeMaxLTS g) = NumNodes g"

lemma wf_graph_arrays [wf_facts]: "wf_graph g \<Longrightarrow> wf_arrays g"
  and wf_graph_offs [wf_facts]: "wf_graph g \<Longrightarrow> wf_offs g"
  by (simp_all add: wf_graph_def)

lemma wf_endpoints:
  assumes "wf_arrays g" and "e < NumEdges g"
  shows "From g ! e < NumNodes g" and "To g ! e < NumNodes g"
  using assms by (simp_all add: wf_arrays_def)

lemma set_out_list:
  "wf_offs g \<Longrightarrow> n < NumNodes g \<Longrightarrow> set (out_list g n) = {e. e < NumEdges g \<and> From g ! e = n}"
  by (auto simp: out_list_def OutEdges_def wf_offs_def)

lemma distinct_out_list: "distinct (out_list g n)"
  by (simp add: out_list_def OutEdges_def)

lemma OutDegree_zero_iff:
  assumes "wf_offs g" and "n < NumNodes g"
  shows "OutDegree g n = 0 \<Longrightarrow> out_list g n = []"
  by (simp add: OutDegree_def out_list_def OutEdges_def)

section \<open>The offsets are the graph's adjacency\<close>

lemma sorted_filter_less_nth:
  "sorted xs \<Longrightarrow> e < length xs \<Longrightarrow> e < length (filter (\<lambda>x. x < k) xs) \<longleftrightarrow> xs ! e < (k::nat)"
proof (induction xs arbitrary: e)
  case (Cons x xs)
  show ?case
  proof (cases "x < k")
    case True
    show ?thesis
    proof (cases e)
      case 0
      then show ?thesis using True by simp
    next
      case (Suc j)
      then show ?thesis using Cons.IH [of j] Cons.prems True by simp
    qed
  next
    case False
    then have none: "\<forall>y\<in>set (x # xs). \<not> y < k" using Cons.prems(1) by auto
    then have "filter (\<lambda>x. x < k) (x # xs) = []" by (simp add: filter_empty_conv)
    moreover have "\<not> (x # xs) ! e < k" using none nth_mem [OF Cons.prems(2)] by blast
    ultimately show ?thesis by (simp only: list.size not_less_zero)
  qed
qed simp

lemma filter_less_Suc:
  "length (filter (\<lambda>x. x < Suc k) xs) =
   length (filter (\<lambda>x. x < k) xs) + length (filter (\<lambda>x. x = k) xs)"
  by (induction xs) auto

text \<open>The counting loop: how often each source occurs, one place to the right.\<close>

definition counts :: "nat list \<Rightarrow> nat \<Rightarrow> nat list" where
  "counts xs n = map (\<lambda>k. case k of 0 \<Rightarrow> 0 | Suc j \<Rightarrow> length (filter (\<lambda>x. x = j) xs)) [0..<n + 1]"

lemma length_counts [simp]: "length (counts xs n) = n + 1"
  by (simp add: counts_def)

lemma counts_0 [simp]: "counts xs n ! 0 = 0"
  by (simp add: counts_def del: upt_Suc)

lemma counts_Suc [simp]: "k < n \<Longrightarrow> counts xs n ! Suc k = length (filter (\<lambda>x. x = k) xs)"
  by (simp add: counts_def del: upt_Suc)

lemma counts_snoc:
  "x < n \<Longrightarrow> counts (xs @ [x]) n = (counts xs n)[x + 1 := counts xs n ! (x + 1) + 1]"
proof (rule nth_equalityI)
  fix k
  assume "x < n" "k < length (counts (xs @ [x]) n)"
  then show "counts (xs @ [x]) n ! k = (counts xs n)[x + 1 := counts xs n ! (x + 1) + 1] ! k"
    by (cases k) (auto simp: nth_list_update)
qed simp

lemma count_loop:
  assumes "\<forall>x\<in>set frm. x < n" and "sorted frm" and "i \<le> length frm"
  shows "foldM (count_step frm) [0..<i] (replicate (n + 1) 0) = Ok (counts (take i frm) n)"
  using assms(3)
proof (induction i)
  case 0
  have "counts [] n = replicate (n + 1) 0"
  proof (rule nth_equalityI)
    fix k
    assume "k < length (counts [] n)"
    then show "counts [] n ! k = replicate (n + 1) 0 ! k"
      by (cases k) (simp_all del: replicate.simps)
  qed simp
  then show ?case by simp
next
  case (Suc i)
  then have i: "i < length frm" by simp
  have "frm ! i < n" using assms(1) i by simp
  moreover have "\<not> (i > 0 \<and> frm ! i < frm ! (i - 1))"
    using sorted_nth_mono [OF assms(2), of "i - 1" i] i by auto
  ultimately have "count_step frm i (counts (take i frm) n) = Ok (counts (take (Suc i) frm) n)"
    using i by (simp add: count_step_def take_Suc_conv_app_nth counts_snoc)
  then show ?case using Suc by (simp add: foldM_append)
qed

lemma count_loop_unsorted:
  assumes "\<not> sorted frm"
  shows "\<not> (\<exists>offs. foldM (count_step frm) [0..<length frm] s = Ok offs)"
proof
  assume "\<exists>offs. foldM (count_step frm) [0..<length frm] s = Ok offs"
  then obtain offs where offs: "foldM (count_step frm) [0..<length frm] s = Ok offs" ..
  obtain i where i: "Suc i < length frm" "frm ! Suc i < frm ! i"
    using assms by (auto simp: sorted_iff_nth_Suc not_le)
  obtain d where d: "length frm = Suc i + d" using i(1) le_Suc_ex [of "Suc i" "length frm"] by auto
  have "[0..<length frm] = [0..<Suc i] @ [Suc i..<length frm]"
    unfolding d by (rule upt_add_eq_append) simp
  also have "[Suc i..<length frm] = Suc i # [Suc (Suc i)..<length frm]"
    using i(1) by (rule upt_conv_Cons)
  finally have "[0..<length frm] = [0..<Suc i] @ Suc i # [Suc (Suc i)..<length frm]" .
  with offs obtain s1 s2 where "count_step frm (Suc i) s1 = Ok s2"
    by (auto simp: foldM_append obind_Ok_iff)
  with i(2) show False by (simp add: count_step_def)
qed

text \<open>The prefix sums: how many edges have a smaller source.\<close>

definition summed :: "nat list \<Rightarrow> nat \<Rightarrow> nat \<Rightarrow> nat list \<Rightarrow> bool" where
  "summed xs n j offs \<longleftrightarrow> length offs = n + 1 \<and>
     (\<forall>k<j. offs ! k = length (filter (\<lambda>x. x < k) xs)) \<and>
     (\<forall>k\<le>n. j \<le> k \<longrightarrow> offs ! k = counts xs n ! k)"

lemma summed_step:
  assumes "summed xs n (Suc m) offs" and "Suc m \<le> n"
  shows "summed xs n (Suc (Suc m)) (prefix_step (Suc m) offs)"
proof -
  have "offs ! Suc m = length (filter (\<lambda>x. x = m) xs)" "offs ! m = length (filter (\<lambda>x. x < m) xs)"
    using assms by (simp_all add: summed_def)
  then have "offs ! Suc m + offs ! m = length (filter (\<lambda>x. x < Suc m) xs)"
    by (simp add: filter_less_Suc)
  moreover have "Suc m < length offs" using assms by (simp add: summed_def)
  ultimately show ?thesis
    using assms by (auto simp: summed_def prefix_step_def nth_list_update less_Suc_eq)
qed

lemma prefix_loop: "m \<le> n \<Longrightarrow> summed xs n (Suc m) (fold prefix_step [1..<Suc m] (counts xs n))"
proof (induction m)
  case 0
  then show ?case by (simp add: summed_def)
next
  case (Suc m)
  then show ?case using summed_step by simp
qed

definition endpoints_ok :: "graph \<Rightarrow> bool" where
  "endpoints_ok g \<longleftrightarrow> (\<forall>e<NumEdges g. From g ! e < NumNodes g)"

lemma endpoints_ok_set: "endpoints_ok g \<Longrightarrow> \<forall>x\<in>set (From g). x < NumNodes g"
  by (auto simp: endpoints_ok_def NumEdges_def in_set_conv_nth)

lemma buildOffsets_Ok:
  assumes "endpoints_ok g" and "sorted (From g)"
  shows "\<exists>g'. buildOffsets g = Ok g' \<and> g' = g\<lparr>Offs := Offs g'\<rparr> \<and> wf_offs g'"
proof -
  let ?n = "NumNodes g" and ?frm = "From g"
  define o' where "o' = fold prefix_step [1..<?n + 1] (counts ?frm ?n)"
  have ok: "buildOffsets g = Ok (g\<lparr>Offs := o'\<rparr>)"
    using count_loop [OF endpoints_ok_set [OF assms(1)] assms(2), of "length ?frm"]
    by (simp add: buildOffsets_def o'_def NumEdges_def Let_def)
  have len: "length o' = ?n + 1" and nth: "\<forall>k<?n + 1. o' ! k = length (filter (\<lambda>x. x < k) ?frm)"
    using prefix_loop [of ?n ?n ?frm] by (simp_all add: o'_def summed_def)
  have range: "(o' ! n \<le> e \<and> e < o' ! (n + 1)) = (e < length ?frm \<and> ?frm ! e = n)"
    if n: "n < ?n" for n e
  proof (cases "e < length ?frm")
    case True
    then show ?thesis
      using nth n sorted_filter_less_nth [OF assms(2) True, of n]
        sorted_filter_less_nth [OF assms(2) True, of "n + 1"] by auto
  next
    case False
    moreover have "o' ! (n + 1) \<le> length ?frm"
      using nth n length_filter_le [of "\<lambda>x. x < n + 1" ?frm] by simp
    ultimately have "\<not> e < o' ! (n + 1)" by simp
    with False show ?thesis by simp
  qed
  have "wf_offs (g\<lparr>Offs := o'\<rparr>)"
    unfolding wf_offs_def using len range by (simp add: NumNodes_def NumEdges_def)
  with ok show ?thesis by auto
qed

lemma buildOffsets_Panic:
  assumes "endpoints_ok g" and "\<not> sorted (From g)"
  shows "buildOffsets g = Panic"
proof -
  have "foldM (count_step (From g)) xs s \<noteq> Err e" for xs s e
    by (induction xs arbitrary: s) (auto simp: obind_Err_iff count_step_def)
  then show ?thesis
    using count_loop_unsorted [OF assms(2), of "replicate (NumNodes g + 1) 0"]
    by (cases "foldM (count_step (From g)) [0..<length (From g)] (replicate (NumNodes g + 1) 0)")
      (auto simp: buildOffsets_def NumEdges_def Let_def)
qed

end
