(* ===== verification/Graph_Facts.thy ===== *)
theory Graph_Facts
  imports Road_Graph
begin

text \<open>
  What loading gives: a graph that loads is well formed, the junction stress of a node is the
  worst of the edges that meet there, and the database index is the inverse of \<open>DBID\<close>.
\<close>

section \<open>Loaded graphs are well formed\<close>

definition node_arrays :: "graph \<Rightarrow> nat \<Rightarrow> bool" where
  "node_arrays g n \<longleftrightarrow> length (NodeLat g) = n \<and> length (NodeLon g) = n \<and> length (NodeControl g) = n"

lemma scan_nodes_arrays:
  "scan_nodes n rs (g, seen) = Ok (g', seen') \<Longrightarrow> node_arrays g k \<Longrightarrow> node_arrays g' k"
proof (induction n rs "(g, seen)" arbitrary: g seen rule: scan_nodes.induct)
  case (3 n r rs g seen)
  then show ?case by (simp add: node_arrays_def split: if_splits)
qed auto

lemma loadNodes_arrays:
  "loadNodes cnt q g = Ok g' \<Longrightarrow> \<exists>n. node_arrays g' n \<and> 0 < n"
proof -
  assume ok: "loadNodes cnt q g = Ok g'"
  then obtain n seen and c :: "node_row cursor" where n: "n \<noteq> 0" "\<not> n < 0"
    and sc: "scan_nodes n (rows c) (g\<lparr>NodeLat := replicate (nat n) 0, NodeLon := replicate (nat n) 0,
      NodeControl := replicate (nat n) ControlNone\<rparr>, 0) = Ok (g', seen)"
    by (auto simp: loadNodes_def obind_Ok_iff Let_def split: option.splits if_splits)
  then have "node_arrays g' (nat n)" by (rule_tac scan_nodes_arrays [OF sc]) (simp add: node_arrays_def)
  moreover have "0 < nat n" using n by simp
  ultimately show ?thesis by blast
qed

lemma int32_upper: "0 \<le> x \<Longrightarrow> int32 x \<le> x \<and> int32 x < 2147483648"
proof -
  assume x: "0 \<le> x"
  have "int32 x < 2147483648" using wrap_s_bounds [of 32 x] by simp
  moreover have "int32 x \<le> x"
  proof (cases "x < 2147483648")
    case True
    with x show ?thesis by (simp add: int32_id)
  next
    case False
    with calculation show ?thesis by linarith
  qed
  ultimately show ?thesis by simp
qed

lemma nth_snoc: "xs \<noteq> [] \<or> e \<le> length xs \<Longrightarrow> e < length xs + 1 \<Longrightarrow>
    (xs @ [x]) ! e = (if e = length xs then x else xs ! e)"
  by (auto simp: nth_append)

lemma append_edge_wf:
  assumes wf: "wf_arrays g" and r: "0 \<le> er_from r" "er_from r < int (NumNodes g)"
    "0 \<le> er_to r" "er_to r < int (NumNodes g)" "er_from r < 2147483648" "er_to r < 2147483648"
  shows "wf_arrays (append_edge g r)"
proof -
  have "nat (int32 (er_from r)) < NumNodes g" "nat (int32 (er_to r)) < NumNodes g"
    using r by (simp_all add: int32_id)
  then show ?thesis
    using wf by (auto simp: wf_arrays_def append_edge_def NumNodes_def NumEdges_def nth_append
        less_Suc_eq)
qed

lemma append_edge_nodes [simp]:
  "NodeLat (append_edge g r) = NodeLat g" "NumNodes (append_edge g r) = NumNodes g"
  by (simp_all add: append_edge_def NumNodes_def)

lemma scan_edges_wf:
  "scan_edges nc rs g = Ok g' \<Longrightarrow> wf_arrays g \<Longrightarrow> nc \<le> int (NumNodes g) \<Longrightarrow> nc < 2147483648 \<Longrightarrow>
   wf_arrays g' \<and> NumNodes g' = NumNodes g"
proof (induction nc rs g rule: scan_edges.induct)
  case (3 nc r rs g)
  from "3.prems"(1) have r: "0 \<le> er_from r" "er_from r < nc" "0 \<le> er_to r" "er_to r < nc"
    and ok: "scan_edges nc rs (append_edge g r) = Ok g'"
    by (auto split: if_splits)
  have "wf_arrays (append_edge g r)" by (rule append_edge_wf) (use "3.prems" r in auto)
  then show ?case using "3.IH" [OF _ ok] r "3.prems"(3,4) by auto
qed auto

lemma loadEdges_wf:
  assumes ok: "loadEdges cnt q g = Ok g'" and nodes: "node_arrays g n"
  shows "wf_arrays g' \<and> NumNodes g' = n"
proof -
  let ?g1 = "g\<lparr>From := [], To := [], LengthM := [], DBID := [], Infra := [], Highway := [],
      Surface := [], MaxSpeed := [], Lanes := [], Lit := [], LTS := [], CrashScore := [],
      GradePct := [], BearingStart := [], BearingEnd := []\<rparr>"
  from ok obtain c :: "edge_row cursor" where sc: "scan_edges (int32 (int (NumNodes g))) (rows c) ?g1 = Ok g'"
    by (auto simp: loadEdges_def obind_Ok_iff Let_def split: option.splits if_splits)
  have "wf_arrays ?g1" "NumNodes ?g1 = n" "NumNodes g = n"
    using nodes by (auto simp: wf_arrays_def NumNodes_def NumEdges_def node_arrays_def)
  then show ?thesis
    using scan_edges_wf [OF sc] int32_upper [of "int (NumNodes g)"] by simp
qed

lemma wf_arrays_Offs: "wf_arrays (g\<lparr>Offs := x\<rparr>) = wf_arrays g"
  and wf_arrays_NodeMaxLTS: "wf_arrays (g\<lparr>NodeMaxLTS := y\<rparr>) = wf_arrays g"
  and wf_arrays_dbIndex: "wf_arrays (g\<lparr>dbIndex := z\<rparr>) = wf_arrays g"
  and wf_offs_NodeMaxLTS: "wf_offs (g\<lparr>NodeMaxLTS := y\<rparr>) = wf_offs g"
  and wf_offs_dbIndex: "wf_offs (g\<lparr>dbIndex := z\<rparr>) = wf_offs g"
  by (simp_all add: wf_arrays_def wf_offs_def NumNodes_def NumEdges_def)

lemmas wf_update_simps = wf_arrays_Offs wf_arrays_NodeMaxLTS wf_arrays_dbIndex
  wf_offs_NodeMaxLTS wf_offs_dbIndex

lemma length_raise_lts [length_facts, simp]: "length (raise_lts n l m) = length m"
  by (simp add: raise_lts_def)

lemma ComputeNodeMaxLTS_wf:
  assumes "wf_arrays g" and "wf_offs g"
  shows "wf_graph (ComputeNodeMaxLTS g)"
proof -
  have "length (fold (\<lambda>e m. raise_lts (To g ! e) (LTS g ! e) (raise_lts (From g ! e) (LTS g ! e) m))
       [0..<NumEdges g] (replicate (NumNodes g) 0)) = NumNodes g"
    by (rule fold_inv [where P = "\<lambda>m. length m = NumNodes g"]) auto
  then show ?thesis using assms
    by (simp add: wf_graph_def ComputeNodeMaxLTS_def wf_update_simps) (simp add: NumNodes_def)
qed

lemma buildDBIndex_frame: "buildDBIndex g = Ok g' \<Longrightarrow> g' = g\<lparr>dbIndex := dbIndex g'\<rparr>"
  by (auto simp: buildDBIndex_def obind_Ok_iff Let_def split: if_splits)

lemma buildDBIndex_wf: "buildDBIndex g = Ok g' \<Longrightarrow> wf_graph g \<Longrightarrow> wf_graph g'"
  by (drule buildDBIndex_frame, erule ssubst)
    (simp add: wf_graph_def wf_update_simps, simp add: NumNodes_def)

lemma endpoints_ok_of_wf: "wf_arrays g \<Longrightarrow> endpoints_ok g"
  by (simp add: endpoints_ok_def wf_arrays_def)

lemma buildOffsets_wf:
  assumes "buildOffsets g = Ok g'" and "wf_arrays g"
  shows "wf_arrays g' \<and> wf_offs g' \<and> sorted (From g)"
proof -
  have s: "sorted (From g)" using assms buildOffsets_Panic endpoints_ok_of_wf by fastforce
  obtain g'' where g'': "buildOffsets g = Ok g''" "g'' = g\<lparr>Offs := Offs g''\<rparr>" "wf_offs g''"
    using buildOffsets_Ok [OF endpoints_ok_of_wf [OF assms(2)] s] by blast
  then have "g' = g''" using assms(1) by simp
  with g'' s assms(2) show ?thesis using wf_arrays_Offs by metis
qed

lemma graph_Load_steps:
  assumes "graph_Load nc nq ec eq = Ok g"
  obtains g1 g2 g3 where "loadNodes nc nq empty_graph = Ok g1" "loadEdges ec eq g1 = Ok g2"
    "buildOffsets g2 = Ok g3" "buildDBIndex (ComputeNodeMaxLTS g3) = Ok g"
  using assms by (auto simp: graph_Load_def obind_Ok_iff)

lemma graph_Load_wf:
  assumes "graph_Load nc nq ec eq = Ok g"
  shows "wf_graph g"
proof -
  from assms obtain g1 g2 g3 where st: "loadNodes nc nq empty_graph = Ok g1"
    "loadEdges ec eq g1 = Ok g2" "buildOffsets g2 = Ok g3" "buildDBIndex (ComputeNodeMaxLTS g3) = Ok g"
    by (rule graph_Load_steps)
  obtain n where n: "node_arrays g1 n" using loadNodes_arrays [OF st(1)] by blast
  have "wf_arrays g2" using loadEdges_wf [OF st(2) n] by simp
  then have "wf_arrays g3 \<and> wf_offs g3" using buildOffsets_wf [OF st(3)] by simp
  then have "wf_graph (ComputeNodeMaxLTS g3)" using ComputeNodeMaxLTS_wf by blast
  then show ?thesis by (rule buildDBIndex_wf [OF st(4)])
qed

section \<open>Junction stress\<close>

text \<open>\<open>node_worst m n k\<close>: \<open>m n\<close> is the worst stress among the first \<open>k\<close> edges that touch \<open>n\<close>.\<close>

definition touches :: "graph \<Rightarrow> nat \<Rightarrow> nat \<Rightarrow> bool" where
  "touches g n e \<longleftrightarrow> From g ! e = n \<or> To g ! e = n"

definition node_worst :: "graph \<Rightarrow> nat \<Rightarrow> nat list \<Rightarrow> bool" where
  "node_worst g k m \<longleftrightarrow> length m = NumNodes g \<and>
     (\<forall>n<NumNodes g. (\<forall>e<k. touches g n e \<longrightarrow> LTS g ! e \<le> m ! n) \<and>
        (m ! n = 0 \<or> (\<exists>e<k. touches g n e \<and> LTS g ! e = m ! n)))"

lemma raise_lts_nth: "n < length m \<Longrightarrow> raise_lts k l m ! n = (if n = k then max l (m ! n) else m ! n)"
  by (auto simp: raise_lts_def nth_list_update max_def)

lemma node_worst_loop:
  assumes wf: "wf_arrays g" and k: "k \<le> NumEdges g"
  shows "node_worst g k (fold (\<lambda>e m. raise_lts (To g ! e) (LTS g ! e)
      (raise_lts (From g ! e) (LTS g ! e) m)) [0..<k] (replicate (NumNodes g) 0))"
  using k
proof (induction k)
  case 0
  then show ?case by (simp add: node_worst_def)
next
  case (Suc k)
  let ?m = "fold (\<lambda>e m. raise_lts (To g ! e) (LTS g ! e) (raise_lts (From g ! e) (LTS g ! e) m))
    [0..<k] (replicate (NumNodes g) 0)"
  let ?l = "LTS g ! k"
  let ?m' = "raise_lts (To g ! k) ?l (raise_lts (From g ! k) ?l ?m)"
  from Suc have IH: "node_worst g k ?m" by simp
  then have len: "length ?m = NumNodes g" by (simp add: node_worst_def)
  have nth: "?m' ! n = (if touches g n k then max ?l (?m ! n) else ?m ! n)" if "n < NumNodes g" for n
    using that len by (auto simp: raise_lts_nth touches_def)
  have "node_worst g (Suc k) ?m'"
    unfolding node_worst_def
  proof (intro conjI allI impI)
    show "length ?m' = NumNodes g" using len by simp
  next
    fix n e
    assume n: "n < NumNodes g" and e: "e < Suc k" "touches g n e"
    have "e < k \<Longrightarrow> LTS g ! e \<le> ?m ! n" using IH n e(2) by (auto simp: node_worst_def)
    then show "LTS g ! e \<le> ?m' ! n" using e unfolding nth [OF n] by (auto simp: less_Suc_eq)
  next
    fix n
    assume n: "n < NumNodes g"
    have "?m ! n = 0 \<or> (\<exists>e<k. touches g n e \<and> LTS g ! e = ?m ! n)"
      using IH n by (auto simp: node_worst_def)
    then show "?m' ! n = 0 \<or> (\<exists>e<Suc k. touches g n e \<and> LTS g ! e = ?m' ! n)"
      unfolding nth [OF n] by (auto simp: less_Suc_eq max_def)
  qed
  then show ?case by simp
qed

section \<open>Database ids\<close>

definition index_inv :: "int list \<Rightarrow> nat \<Rightarrow> int list \<Rightarrow> bool" where
  "index_inv ids i idx \<longleftrightarrow> (\<forall>k<length idx.
     (idx ! k = - 1 \<and> (\<forall>j<i. ids ! j \<noteq> int k)) \<or>
     (\<exists>j<i. idx ! k = int j \<and> ids ! j = int k \<and> (\<forall>j'. j < j' \<and> j' < i \<longrightarrow> ids ! j' \<noteq> int k)))"

lemma index_step_inv:
  assumes inv: "index_inv ids i idx" and ok: "index_step ids i idx = Ok idx'"
    and i: "i < 2147483648"
  shows "index_inv ids (Suc i) idx' \<and> length idx' = length idx \<and> 0 \<le> ids ! i \<and> ids ! i < int (length idx)"
proof -
  from ok have r: "0 \<le> ids ! i" "ids ! i < int (length idx)" "idx' = idx[nat (ids ! i) := int i]"
    using i by (auto simp: index_step_def int32_id split: if_splits)
  have "index_inv ids (Suc i) idx'"
    unfolding index_inv_def
  proof (intro allI impI)
    fix k
    assume k: "k < length idx'"
    show "(idx' ! k = - 1 \<and> (\<forall>j<Suc i. ids ! j \<noteq> int k)) \<or>
      (\<exists>j<Suc i. idx' ! k = int j \<and> ids ! j = int k \<and> (\<forall>j'. j < j' \<and> j' < Suc i \<longrightarrow> ids ! j' \<noteq> int k))"
    proof (cases "nat (ids ! i) = k")
      case True
      then have "idx' ! k = int i \<and> ids ! i = int k" using r k by auto
      then show ?thesis by (intro disjI2 exI [of _ i]) auto
    next
      case False
      then have "idx' ! k = idx ! k" "ids ! i \<noteq> int k" using r by auto
      moreover have "(idx ! k = - 1 \<and> (\<forall>j<i. ids ! j \<noteq> int k)) \<or>
          (\<exists>j<i. idx ! k = int j \<and> ids ! j = int k \<and> (\<forall>j'. j < j' \<and> j' < i \<longrightarrow> ids ! j' \<noteq> int k))"
        using inv k r(3) by (simp add: index_inv_def)
      ultimately show ?thesis by (metis less_Suc_eq)
    qed
  qed
  with r show ?thesis by simp
qed

lemma fold_max_ge: "(m::int) \<le> fold (\<lambda>i m. if i > m then i else m) xs m"
  by (induction xs arbitrary: m) (auto intro: order_trans [OF less_imp_le])

lemma fold_max_mem: "x \<in> set xs \<Longrightarrow> x \<le> fold (\<lambda>i m. if i > m then i else m) xs (m::int)"
proof (induction xs arbitrary: m)
  case (Cons y ys)
  show ?case
  proof (cases "x = y")
    case True
    then show ?thesis using fold_max_ge [of "if y > m then y else m" ys] by (auto split: if_splits)
  next
    case False
    then show ?thesis using Cons by simp
  qed
qed simp

lemma buildDBIndex_inv:
  assumes ok: "buildDBIndex g = Ok g'" and e: "e < length (DBID g)" "0 \<le> DBID g ! e"
    and len: "length (DBID g) \<le> 2147483648"
  shows "index_inv (DBID g) (length (DBID g)) (dbIndex g') \<and> DBID g ! e < int (length (dbIndex g'))"
proof -
  let ?ids = "DBID g"
  let ?mx = "fold (\<lambda>i m. if i > m then i else m) ?ids (- 1)"
  have mx: "?ids ! e \<le> ?mx" by (rule fold_max_mem) (use e in auto)
  with e have "\<not> ?mx < 0" by simp
  with ok obtain idx where
    f: "foldM (index_step ?ids) [0..<length ?ids] (replicate (nat (?mx + 1)) (- 1)) = Ok idx"
    and g': "g' = g\<lparr>dbIndex := idx\<rparr>"
    by (auto simp: buildDBIndex_def obind_Ok_iff Let_def split: if_splits)
  have "index_inv ?ids (length [0..<length ?ids]) idx \<and> length idx = nat (?mx + 1)"
  proof (rule foldM_prefix_inv [OF f, where P = "\<lambda>ys idx. index_inv ?ids (length ys) idx \<and>
      length idx = nat (?mx + 1)"])
    show "index_inv ?ids (length []) (replicate (nat (?mx + 1)) (- 1)) \<and>
        length (replicate (nat (?mx + 1)) (- 1)) = nat (?mx + 1)"
      by (simp add: index_inv_def)
  next
    fix ys x zs s s'
    assume split: "[0..<length ?ids] = ys @ x # zs"
      and P: "index_inv ?ids (length ys) s \<and> length s = nat (?mx + 1)"
      and st: "index_step ?ids x s = Ok s'"
    have "length ys < length [0..<length ?ids]" unfolding split by simp
    moreover have "x = [0..<length ?ids] ! length ys" unfolding split by simp
    ultimately have x: "x = length ys" "x < length ?ids" by auto
    show "index_inv ?ids (length (ys @ [x])) s' \<and> length s' = nat (?mx + 1)"
      using index_step_inv [of ?ids x s s'] P st x len by auto
  qed
  with mx e g' show ?thesis by simp
qed

lemma IndexOfDBID_inverse:
  assumes ok: "buildDBIndex g = Ok g'" and d: "distinct (DBID g)" and e: "e < length (DBID g)"
    "0 \<le> DBID g ! e" and len: "length (DBID g) \<le> 2147483648"
  shows "IndexOfDBID g' (DBID g ! e) = Some e"
proof -
  let ?k = "nat (DBID g ! e)"
  have inv: "index_inv (DBID g) (length (DBID g)) (dbIndex g')" and k: "?k < length (dbIndex g')"
    using buildDBIndex_inv [OF ok e len] e(2) by auto
  have ek: "DBID g ! e = int ?k" using e(2) by simp
  from inv k obtain j where j: "j < length (DBID g)" "dbIndex g' ! ?k = int j" "DBID g ! j = int ?k"
    unfolding index_inv_def using e(1) ek by metis
  then have "j = e" using d e(1) ek by (metis nth_eq_iff_index_eq)
  with j(2) have "dbIndex g' ! ?k = int e" by simp
  moreover have "DBID g ! e < int (length (dbIndex g'))" using k e(2) by linarith
  ultimately show ?thesis using e(2) by (simp add: IndexOfDBID_def)
qed

lemma IndexOfDBID_sound:
  assumes ok: "buildDBIndex g = Ok g'" and fresh: "dbIndex g = []"
    and some: "IndexOfDBID g' i = Some e" and len: "length (DBID g) \<le> 2147483648"
  shows "e < length (DBID g) \<and> DBID g ! e = i"
proof -
  let ?mx = "fold (\<lambda>i m. if i > m then i else m) (DBID g) (- 1)"
  from some have i: "0 \<le> i" "nat i < length (dbIndex g')" "dbIndex g' ! nat i = int e"
    by (auto simp: IndexOfDBID_def Let_def split: if_splits)
  have "\<exists>e<length (DBID g). 0 \<le> DBID g ! e"
  proof (rule ccontr)
    assume neg: "\<not> ?thesis"
    have "fold (\<lambda>i m. if i > m then i else m) xs (- 1) < 0" if "\<forall>x\<in>set xs. x < (0::int)" for xs
      using that by (induction xs rule: rev_induct) auto
    moreover have "\<forall>x\<in>set (DBID g). x < 0" using neg by (metis in_set_conv_nth not_le)
    ultimately have "?mx < 0" by blast
    with ok fresh i(2) show False by (simp add: buildDBIndex_def)
  qed
  then obtain e0 where "e0 < length (DBID g)" "0 \<le> DBID g ! e0" by blast
  then have "index_inv (DBID g) (length (DBID g)) (dbIndex g')"
    using buildDBIndex_inv [OF ok _ _ len] by blast
  then have "dbIndex g' ! nat i = - 1 \<or>
      (\<exists>j<length (DBID g). dbIndex g' ! nat i = int j \<and> DBID g ! j = int (nat i))"
    using i(2) unfolding index_inv_def by blast
  then obtain j where "j < length (DBID g)" "int e = int j" "DBID g ! j = int (nat i)"
    using i(3) by auto
  with i(1) show ?thesis by simp
qed

section \<open>A loaded graph\<close>

lemma scan_nodes_dbIndex: "scan_nodes n rs (g, seen) = Ok (g', seen') \<Longrightarrow> dbIndex g' = dbIndex g"
  by (induction n rs "(g, seen)" arbitrary: g seen rule: scan_nodes.induct) (auto split: if_splits)

lemma scan_edges_dbIndex: "scan_edges nc rs g = Ok g' \<Longrightarrow> dbIndex g' = dbIndex g"
proof (induction nc rs g rule: scan_edges.induct)
  case (3 nc r rs g)
  then have "dbIndex g' = dbIndex (append_edge g r)" by (auto split: if_splits)
  then show ?case by (simp add: append_edge_def)
qed auto

lemma load_dbIndex:
  "loadNodes cnt q g = Ok g' \<Longrightarrow> dbIndex g' = dbIndex g"
  "loadEdges cnt' q' g = Ok g' \<Longrightarrow> dbIndex g' = dbIndex g"
  by (auto simp: loadNodes_def loadEdges_def obind_Ok_iff Let_def split: option.splits if_splits
      dest!: scan_nodes_dbIndex scan_edges_dbIndex)

lemma buildOffsets_frame: "buildOffsets g = Ok g' \<Longrightarrow> g' = g\<lparr>Offs := Offs g'\<rparr>"
  by (auto simp: buildOffsets_def obind_Ok_iff Let_def)

lemma graph_Load_index:
  assumes "graph_Load nc nq ec eq = Ok g"
  shows "\<exists>h. buildDBIndex h = Ok g \<and> dbIndex h = [] \<and> DBID h = DBID g"
proof -
  from assms obtain g1 g2 g3 where st: "loadNodes nc nq empty_graph = Ok g1" "loadEdges ec eq g1 = Ok g2"
    "buildOffsets g2 = Ok g3" "buildDBIndex (ComputeNodeMaxLTS g3) = Ok g" by (rule graph_Load_steps)
  have "dbIndex g1 = []" using load_dbIndex(1) [OF st(1)] by (simp add: empty_graph_def)
  then have "dbIndex g2 = []" using load_dbIndex(2) [OF st(2)] by simp
  moreover obtain x where "g3 = g2\<lparr>Offs := x\<rparr>" using buildOffsets_frame [OF st(3)] by blast
  ultimately have "dbIndex (ComputeNodeMaxLTS g3) = []" by (simp add: ComputeNodeMaxLTS_def)
  moreover obtain y where "g = ComputeNodeMaxLTS g3\<lparr>dbIndex := y\<rparr>"
    using buildDBIndex_frame [OF st(4)] by blast
  then have "DBID (ComputeNodeMaxLTS g3) = DBID g" by simp
  ultimately show ?thesis using st(4) by blast
qed

lemma graph_Load_junctions:
  assumes "graph_Load nc nq ec eq = Ok g"
  shows "node_worst g (NumEdges g) (NodeMaxLTS g)"
proof -
  from assms obtain g1 g2 g3 where st: "loadNodes nc nq empty_graph = Ok g1" "loadEdges ec eq g1 = Ok g2"
    "buildOffsets g2 = Ok g3" "buildDBIndex (ComputeNodeMaxLTS g3) = Ok g" by (rule graph_Load_steps)
  have wf: "wf_arrays g" using graph_Load_wf [OF assms] by (rule wf_facts)
  let ?m = "fold (\<lambda>e m. raise_lts (To g3 ! e) (LTS g3 ! e) (raise_lts (From g3 ! e) (LTS g3 ! e) m))
    [0..<NumEdges g3] (replicate (NumNodes g3) 0)"
  obtain y where g: "g = g3\<lparr>NodeMaxLTS := ?m, dbIndex := y\<rparr>"
    using buildDBIndex_frame [OF st(4)] unfolding ComputeNodeMaxLTS_def by blast
  have eqs: "From g = From g3" "To g = To g3" "LTS g = LTS g3" "NumEdges g = NumEdges g3"
    "NumNodes g = NumNodes g3" "NodeMaxLTS g = ?m"
    unfolding g by (simp_all add: NumEdges_def NumNodes_def)
  show ?thesis using node_worst_loop [OF wf order_refl] eqs by simp
qed

text \<open>
  Building the offsets panics on edges that are not sorted by their source, and on sorted ones it returns a graph that differs only in its offsets.
\<close>

lemma unsorted_edges_panic:
  assumes "wf_arrays g"
  shows "if sorted (From g) then \<exists>g'. buildOffsets g = Ok g' \<and> g' = g\<lparr>Offs := Offs g'\<rparr> \<and> wf_offs g'
    else buildOffsets g = Panic"
  using buildOffsets_Ok buildOffsets_Panic endpoints_ok_of_wf [OF assms] by auto

end
