(* ===== verification/Safety_LTS.thy ===== *)
theory Safety_LTS
  imports Graph_Facts
begin

text \<open>
  \<open>internal/safety/lts.go\<close> and its defaults in \<open>params.go\<close>: the classification of an edge into
  a level of traffic stress from its facility, road class, surface, speed and lanes, and its
  application to a whole graph.
\<close>

section \<open>Defaults\<close>

fun DefaultSpeedMPH :: "highway \<Rightarrow> int option" where
  "DefaultSpeedMPH HwyLivingStreet = Some 15"
| "DefaultSpeedMPH HwyService = Some 15"
| "DefaultSpeedMPH HwyResidential = Some 30"
| "DefaultSpeedMPH HwyUnclassified = Some 30"
| "DefaultSpeedMPH HwyTertiary = Some 35"
| "DefaultSpeedMPH HwySecondary = Some 40"
| "DefaultSpeedMPH HwyPrimary = Some 45"
| "DefaultSpeedMPH HwyTrunk = Some 55"
| "DefaultSpeedMPH _ = None"

fun DefaultLanes :: "highway \<Rightarrow> int option" where
  "DefaultLanes HwyLivingStreet = Some 2"
| "DefaultLanes HwyService = Some 2"
| "DefaultLanes HwyResidential = Some 2"
| "DefaultLanes HwyUnclassified = Some 2"
| "DefaultLanes HwyTertiary = Some 2"
| "DefaultLanes HwySecondary = Some 4"
| "DefaultLanes HwyPrimary = Some 4"
| "DefaultLanes HwyTrunk = Some 4"
| "DefaultLanes _ = None"

section \<open>Classification\<close>

record EdgeFacts =
  ef_Infra :: infra
  ef_Highway :: highway
  ef_Surface :: surface
  ef_SpeedMPH :: int
  ef_Lanes :: int

definition FactsFor :: "graph \<Rightarrow> nat \<Rightarrow> EdgeFacts" where
  "FactsFor g e = \<lparr>ef_Infra = Infra g ! e, ef_Highway = Highway g ! e, ef_Surface = Surface g ! e,
     ef_SpeedMPH = MaxSpeed g ! e, ef_Lanes = Lanes g ! e\<rparr>"

definition EffectiveSpeed :: "EdgeFacts \<Rightarrow> int" where
  "EffectiveSpeed f =
     (if ef_SpeedMPH f \<noteq> SpeedUnknown \<and> ef_SpeedMPH f > 0 then ef_SpeedMPH f
      else case DefaultSpeedMPH (ef_Highway f) of Some d \<Rightarrow> d | None \<Rightarrow> 30)"

definition EffectiveLanes :: "EdgeFacts \<Rightarrow> int" where
  "EffectiveLanes f =
     (if ef_Lanes f \<noteq> LanesUnknown \<and> ef_Lanes f > 0 then ef_Lanes f
      else case DefaultLanes (ef_Highway f) of Some d \<Rightarrow> d | None \<Rightarrow> 2)"

definition LTS1 :: nat where "LTS1 = 1"
definition LTS2 :: nat where "LTS2 = 2"
definition LTS3 :: nat where "LTS3 = 3"
definition LTS4 :: nat where "LTS4 = 4"

lemmas LTS_defs = LTS1_def LTS2_def LTS3_def LTS4_def

text \<open>The three stages of the classification, the last two by speed and lanes alone.\<close>

definition buffered_lts :: "int \<Rightarrow> int \<Rightarrow> nat" where
  "buffered_lts speed lanes =
     (if speed \<le> 30 \<and> lanes \<le> 3 then LTS1
      else if speed \<le> 35 then LTS2
      else if speed \<le> 45 then LTS3
      else LTS4)"

definition painted_lts :: "int \<Rightarrow> int \<Rightarrow> nat" where
  "painted_lts speed lanes =
     (if speed \<le> 25 \<and> lanes \<le> 2 then LTS1
      else if speed \<le> 30 \<and> lanes \<le> 3 then LTS2
      else if speed \<le> 35 \<and> lanes \<le> 4 then LTS3
      else LTS4)"

definition mixed_lts :: "highway \<Rightarrow> int \<Rightarrow> int \<Rightarrow> nat" where
  "mixed_lts hwy speed lanes =
     (if hwy = HwyLivingStreet then LTS1
      else if hwy = HwyService \<and> speed \<le> 20 then LTS2
      else if lanes \<ge> 6 then LTS4
      else if speed \<ge> 45 then LTS4
      else if speed \<ge> 40 then (if lanes \<ge> 4 then LTS4 else LTS3)
      else if speed \<ge> 35 then (if lanes \<ge> 4 then LTS4 else LTS3)
      else if speed \<ge> 30 then (if lanes \<ge> 4 then LTS3 else LTS2)
      else if speed \<ge> 26 then (if lanes \<ge> 4 then LTS3 else LTS2)
      else (if lanes \<ge> 4 then LTS3 else LTS1))"

definition ClassifyLTS :: "EdgeFacts \<Rightarrow> nat" where
  "ClassifyLTS f =
     (let speed = EffectiveSpeed f; lanes = EffectiveLanes f
      in case ef_Infra f of
        InfraProtectedTrack \<Rightarrow> LTS1
      | InfraPath \<Rightarrow>
          (if ef_Surface f = SurfaceLoose \<or> ef_Surface f = SurfaceBad then LTS2 else LTS1)
      | InfraPedestrian \<Rightarrow> LTS2
      | InfraBufferedLane \<Rightarrow> buffered_lts speed lanes
      | InfraPaintedLane \<Rightarrow> painted_lts speed lanes
      | _ \<Rightarrow> mixed_lts (ef_Highway f) speed lanes)"

definition ScoreGraph :: "graph \<Rightarrow> graph" where
  "ScoreGraph g = ComputeNodeMaxLTS
     (fold (\<lambda>e g. g\<lparr>LTS := (LTS g)[e := ClassifyLTS (FactsFor g e)]\<rparr>) [0..<NumEdges g] g)"

section \<open>What the classification promises\<close>

lemma EffectiveSpeed_pos: "0 < EffectiveSpeed f"
  by (cases "ef_Highway f") (auto simp: EffectiveSpeed_def)

lemma EffectiveLanes_pos: "0 < EffectiveLanes f"
  by (cases "ef_Highway f") (auto simp: EffectiveLanes_def)

lemma buffered_range: "1 \<le> buffered_lts s l \<and> buffered_lts s l \<le> 4"
  by (simp add: buffered_lts_def LTS_defs)

lemma painted_range: "1 \<le> painted_lts s l \<and> painted_lts s l \<le> 4"
  by (simp add: painted_lts_def LTS_defs)

lemma mixed_range: "1 \<le> mixed_lts h s l \<and> mixed_lts h s l \<le> 4"
  by (simp add: mixed_lts_def LTS_defs)

lemma ClassifyLTS_range: "1 \<le> ClassifyLTS f \<and> ClassifyLTS f \<le> 4"
  using buffered_range painted_range mixed_range
  by (auto simp: ClassifyLTS_def Let_def LTS_defs split: infra.splits)

lemma buffered_mono: "s \<le> s' \<Longrightarrow> l \<le> l' \<Longrightarrow> buffered_lts s l \<le> buffered_lts s' l'"
  by (auto simp: buffered_lts_def LTS_defs)

lemma painted_mono: "s \<le> s' \<Longrightarrow> l \<le> l' \<Longrightarrow> painted_lts s l \<le> painted_lts s' l'"
  by (auto simp: painted_lts_def LTS_defs)

text \<open>
  The one exception in mixed traffic: a service road of up to 20 mph is level 2 where the general
  rule, which takes over above 20 mph, gives level 1.
\<close>

lemma mixed_mono:
  "h \<noteq> HwyService \<Longrightarrow> s \<le> s' \<Longrightarrow> l \<le> l' \<Longrightarrow> mixed_lts h s l \<le> mixed_lts h s' l'"
  by (auto simp: mixed_lts_def LTS_defs)

lemma mixed_service_drop: "mixed_lts HwyService 20 2 = 2 \<and> mixed_lts HwyService 25 2 = 1"
  by (simp add: mixed_lts_def LTS_defs)

lemma buffered_le_painted: "buffered_lts s l \<le> painted_lts s l"
  by (simp add: buffered_lts_def painted_lts_def LTS_defs)

lemma buffered_le_mixed: "h \<noteq> HwyLivingStreet \<Longrightarrow> buffered_lts s l \<le> mixed_lts h s l"
  by (auto simp: buffered_lts_def mixed_lts_def LTS_defs)

section \<open>Scoring a graph\<close>

lemma score_fold:
  "k \<le> NumEdges g \<Longrightarrow> length (LTS g) = NumEdges g \<Longrightarrow>
   fold (\<lambda>e g. g\<lparr>LTS := (LTS g)[e := ClassifyLTS (FactsFor g e)]\<rparr>) [0..<k] g =
   g\<lparr>LTS := map (\<lambda>e. if e < k then ClassifyLTS (FactsFor g e) else LTS g ! e) [0..<NumEdges g]\<rparr>"
proof (induction k)
  case 0
  then have "map (\<lambda>e. LTS g ! e) [0..<NumEdges g] = LTS g" by (metis map_nth)
  then show ?case by simp
next
  case (Suc k)
  let ?m = "\<lambda>k. map (\<lambda>e. if e < k then ClassifyLTS (FactsFor g e) else LTS g ! e) [0..<NumEdges g]"
  have "FactsFor (g\<lparr>LTS := ?m k\<rparr>) k = FactsFor g k" by (simp add: FactsFor_def)
  moreover have "(?m k)[k := ClassifyLTS (FactsFor g k)] = ?m (Suc k)"
    using Suc.prems by (intro nth_equalityI) (auto simp: nth_list_update less_Suc_eq)
  ultimately show ?case using Suc by simp
qed

definition rescored :: "graph \<Rightarrow> graph" where
  "rescored g = g\<lparr>LTS := map (\<lambda>e. ClassifyLTS (FactsFor g e)) [0..<NumEdges g]\<rparr>"

lemma ScoreGraph_eq:
  assumes "wf_graph g"
  shows "ScoreGraph g = ComputeNodeMaxLTS (rescored g)"
proof -
  have len: "length (LTS g) = NumEdges g" using assms by (simp add: wf_graph_def wf_arrays_def)
  have "map (\<lambda>e. if e < NumEdges g then ClassifyLTS (FactsFor g e) else LTS g ! e) [0..<NumEdges g]
      = map (\<lambda>e. ClassifyLTS (FactsFor g e)) [0..<NumEdges g]" by simp
  with score_fold [OF order_refl len]
  have "fold (\<lambda>e g. g\<lparr>LTS := (LTS g)[e := ClassifyLTS (FactsFor g e)]\<rparr>) [0..<NumEdges g] g
      = rescored g"
    by (simp only: rescored_def)
  then show ?thesis by (simp add: ScoreGraph_def)
qed

lemma rescored_wf:
  assumes "wf_graph g"
  shows "wf_arrays (rescored g)" "wf_offs (rescored g)" "NumEdges (rescored g) = NumEdges g"
  using assms
  by (simp_all add: wf_graph_def wf_arrays_def wf_offs_def NumNodes_def NumEdges_def rescored_def)

lemma ScoreGraph_LTS:
  assumes "wf_graph g"
  shows "LTS (ScoreGraph g) = map (\<lambda>e. ClassifyLTS (FactsFor g e)) [0..<NumEdges g]"
  unfolding ScoreGraph_eq [OF assms] by (simp add: ComputeNodeMaxLTS_def rescored_def)

lemma ScoreGraph_wf:
  assumes "wf_graph g"
  shows "wf_graph (ScoreGraph g)"
  unfolding ScoreGraph_eq [OF assms]
  by (rule ComputeNodeMaxLTS_wf) (rule rescored_wf [OF assms])+

text \<open>The junction stress is refreshed from the new levels.\<close>

lemma ComputeNodeMaxLTS_fields [simp]:
  "LTS (ComputeNodeMaxLTS g) = LTS g" "From (ComputeNodeMaxLTS g) = From g"
  "To (ComputeNodeMaxLTS g) = To g" "NodeLat (ComputeNodeMaxLTS g) = NodeLat g"
  by (simp_all add: ComputeNodeMaxLTS_def)

lemma node_worst_cong:
  assumes "LTS g = LTS h" "From g = From h" "To g = To h" "NodeLat g = NodeLat h"
  shows "node_worst g k m = node_worst h k m"
  using assms by (simp add: node_worst_def touches_def NumNodes_def)

lemma ScoreGraph_junctions:
  assumes "wf_graph g"
  shows "node_worst (ScoreGraph g) (NumEdges g) (NodeMaxLTS (ScoreGraph g))"
proof -
  have "node_worst (rescored g) (NumEdges g) (NodeMaxLTS (ComputeNodeMaxLTS (rescored g)))"
    using node_worst_loop [OF rescored_wf(1) [OF assms] order_refl] rescored_wf(3) [OF assms]
    by (simp add: ComputeNodeMaxLTS_def)
  then show ?thesis
    unfolding ScoreGraph_eq [OF assms]
    by (subst node_worst_cong [where h = "rescored g"]) simp_all
qed

lemma ClassifyLTS_mono:
  assumes h: "ef_Highway f \<noteq> HwyService"
    and s: "EffectiveSpeed f \<le> s" and l: "EffectiveLanes f \<le> l"
  shows "ClassifyLTS f \<le> ClassifyLTS (f\<lparr>ef_SpeedMPH := s, ef_Lanes := l\<rparr>)"
proof -
  let ?f = "f\<lparr>ef_SpeedMPH := s, ef_Lanes := l\<rparr>"
  have "0 < s" "0 < l" using s l EffectiveSpeed_pos [of f] EffectiveLanes_pos [of f] by linarith+
  then have "EffectiveSpeed ?f = s" "EffectiveLanes ?f = l"
    by (simp_all add: EffectiveSpeed_def EffectiveLanes_def SpeedUnknown_def LanesUnknown_def)
  then show ?thesis
    using s l h buffered_mono [OF s l] painted_mono [OF s l] mixed_mono [OF h s l]
    by (auto simp: ClassifyLTS_def Let_def split: infra.splits)
qed

text \<open>
  A buffered lane is never rated more stressful than a painted lane at the same speed and lanes, nor than mixed traffic away from living streets; but a painted lane can be rated worse than no lane at all on the same road, for instance at 40 mph with two lanes.
\<close>

lemma buffered_lanes_help:
  shows "buffered_lts s l \<le> painted_lts s l \<and>
    (h = HwyLivingStreet \<or> buffered_lts s l \<le> mixed_lts h s l) \<and>
    mixed_lts HwyTertiary 40 2 < painted_lts 40 2 \<and> mixed_lts HwyResidential 25 3 < painted_lts 25 3"
  using buffered_le_painted buffered_le_mixed by (auto simp: painted_lts_def mixed_lts_def LTS_defs)

text \<open>
  Scoring a well-formed graph keeps it well formed, gives every edge the level of its own facts, and leaves at each node the worst level of the edges that meet there.
\<close>

lemma scoring_a_graph:
  assumes "wf_graph g"
  shows "wf_graph (ScoreGraph g) \<and>
    (\<forall>e<NumEdges g. LTS (ScoreGraph g) ! e = ClassifyLTS (FactsFor g e)) \<and>
    node_worst (ScoreGraph g) (NumEdges g) (NodeMaxLTS (ScoreGraph g))"
  using ScoreGraph_wf [OF assms] ScoreGraph_LTS [OF assms] ScoreGraph_junctions [OF assms] by simp

end
