(* ===== verification/Geo.thy ===== *)
theory Geo
  imports Prelude
begin

text \<open>
  The package \<open>internal/geo\<close>: coordinates, the haversine distance, compass bearings and turn
  angles.  The trigonometric functions of Go's \<open>math\<close> are the real functions of the library.

  The main fact is that \<open>DistanceM\<close> is the great-circle metric: it is \<open>R\<close> times the angle
  between two unit vectors, so it is symmetric, bounded by half the circumference and satisfies
  the triangle inequality, which is what makes the router's straight-line heuristic consistent.
\<close>

section \<open>Coordinates\<close>

record LatLon =
  Lat :: real
  Lon :: real

definition EarthRadiusM :: real where
  "EarthRadiusM = 63710088 / 10"

definition Valid :: "LatLon \<Rightarrow> bool" where
  "Valid p \<longleftrightarrow> Lat p \<ge> - 90 \<and> Lat p \<le> 90 \<and> Lon p \<ge> - 180 \<and> Lon p \<le> 180"

definition GeoJSON :: "LatLon \<Rightarrow> real \<times> real" where
  "GeoJSON p = (Lon p, Lat p)"

section \<open>Distance\<close>

definition haversine :: "LatLon \<Rightarrow> LatLon \<Rightarrow> real" where
  "haversine a b =
     (let lat1 = Lat a * pi / 180; lat2 = Lat b * pi / 180;
          dLat = lat2 - lat1; dLon = (Lon b - Lon a) * pi / 180
      in sin (dLat / 2) * sin (dLat / 2) +
         cos lat1 * cos lat2 * sin (dLon / 2) * sin (dLon / 2))"

definition DistanceM :: "LatLon \<Rightarrow> LatLon \<Rightarrow> real" where
  "DistanceM a b = 2 * EarthRadiusM * arcsin (sqrt (haversine a b))"

section \<open>Bearings and turns\<close>

text \<open>\<open>math.Mod\<close>: the remainder of the division truncated towards zero.\<close>

definition math_Mod :: "real \<Rightarrow> real \<Rightarrow> real" where
  "math_Mod x y = x - y * of_int (trunc (x / y))"

text \<open>\<open>math.Atan2(y, x)\<close> is the argument of \<open>x + iy\<close>, in \<open>(-pi, pi]\<close>, and \<open>0\<close> at the origin.\<close>

definition math_Atan2 :: "real \<Rightarrow> real \<Rightarrow> real" where
  "math_Atan2 y x = Arg (Complex x y)"

definition BearingDeg :: "LatLon \<Rightarrow> LatLon \<Rightarrow> real" where
  "BearingDeg a b =
     (let lat1 = Lat a * pi / 180; lat2 = Lat b * pi / 180;
          dLon = (Lon b - Lon a) * pi / 180;
          y = sin dLon * cos lat2;
          x = cos lat1 * sin lat2 - sin lat1 * cos lat2 * cos dLon;
          deg = math_Atan2 y x * 180 / pi
      in math_Mod (deg + 360) 360)"

definition TurnAngleDeg :: "real \<Rightarrow> real \<Rightarrow> real" where
  "TurnAngleDeg from to = math_Mod (to - from + 540) 360 - 180"

lemma math_Mod_nonneg:
  assumes "0 \<le> x" and "0 < y"
  shows "0 \<le> math_Mod x y" and "math_Mod x y < y"
proof -
  have q: "of_int \<lfloor>x / y\<rfloor> \<le> x / y" "x / y < of_int \<lfloor>x / y\<rfloor> + 1" by linarith+
  have "math_Mod x y = x - y * of_int \<lfloor>x / y\<rfloor>" using assms by (simp add: math_Mod_def)
  moreover have "y * of_int \<lfloor>x / y\<rfloor> \<le> x"
    using mult_left_mono [OF q(1), of y] assms by simp
  moreover have "x < y * (of_int \<lfloor>x / y\<rfloor> + 1)"
    using mult_strict_left_mono [OF q(2), of y] assms by simp
  ultimately show "0 \<le> math_Mod x y" and "math_Mod x y < y" by (simp_all add: algebra_simps)
qed

lemma math_Mod_cong: "\<exists>k::int. math_Mod x y = x + of_int k * y"
  by (rule exI [of _ "- trunc (x / y)"]) (simp add: math_Mod_def)

lemma BearingDeg_range: "0 \<le> BearingDeg a b \<and> BearingDeg a b < 360"
proof -
  let ?arg = "math_Atan2 (sin ((Lon b - Lon a) * pi / 180) * cos (Lat b * pi / 180))
    (cos (Lat a * pi / 180) * sin (Lat b * pi / 180) -
     sin (Lat a * pi / 180) * cos (Lat b * pi / 180) * cos ((Lon b - Lon a) * pi / 180))"
  have turn: "0 \<le> t * 180 / pi + 360" if "- pi < t" for t :: real
  proof -
    have "- pi * 180 / pi \<le> t * 180 / pi" using that by (intro divide_right_mono mult_right_mono) auto
    then show ?thesis by simp
  qed
  have "- pi < ?arg" unfolding math_Atan2_def using Arg_bounded by blast
  then have "0 \<le> ?arg * 180 / pi + 360" by (rule turn)
  then show ?thesis
    unfolding BearingDeg_def Let_def by (intro conjI math_Mod_nonneg) simp_all
qed

lemma TurnAngleDeg_range:
  assumes "0 \<le> from" "from \<le> 360" "0 \<le> to" "to \<le> 360"
  shows "- 180 \<le> TurnAngleDeg from to \<and> TurnAngleDeg from to < 180"
  using math_Mod_nonneg [of "to - from + 540" 360] assms by (simp add: TurnAngleDeg_def)

lemma TurnAngleDeg_cong: "\<exists>k::int. TurnAngleDeg from to = to - from + of_int k * 360"
proof -
  obtain k :: int where "math_Mod (to - from + 540) 360 = to - from + 540 + of_int k * 360"
    using math_Mod_cong by blast
  then have "TurnAngleDeg from to = to - from + of_int (k + 1) * 360"
    by (simp add: TurnAngleDeg_def)
  then show ?thesis ..
qed

lemma TurnAngleDeg_unique:
  assumes "0 \<le> from" "from \<le> 360" "0 \<le> to" "to \<le> 360"
    and d: "- 180 \<le> d" "d < 180" "\<exists>k::int. to - from = d + of_int k * 360"
  shows "TurnAngleDeg from to = d"
proof -
  obtain k k' :: int where "TurnAngleDeg from to = to - from + of_int k * 360"
    "to - from = d + of_int k' * 360"
    using TurnAngleDeg_cong d(3) by blast
  then have eq: "TurnAngleDeg from to = d + of_int (k + k') * 360" by (simp add: algebra_simps)
  have "\<bar>TurnAngleDeg from to - d\<bar> < 360"
    using TurnAngleDeg_range [OF assms(1-4)] d by linarith
  then have "\<bar>real_of_int (k + k')\<bar> < 1" unfolding eq by simp
  then have "k + k' = 0" by linarith
  with eq show ?thesis by simp
qed

section \<open>The haversine formula is the angle between unit vectors\<close>

definition ux :: "LatLon \<Rightarrow> real" where "ux p = cos (Lat p * pi / 180) * cos (Lon p * pi / 180)"
definition uy :: "LatLon \<Rightarrow> real" where "uy p = cos (Lat p * pi / 180) * sin (Lon p * pi / 180)"
definition uz :: "LatLon \<Rightarrow> real" where "uz p = sin (Lat p * pi / 180)"

definition dot :: "LatLon \<Rightarrow> LatLon \<Rightarrow> real" where
  "dot a b = ux a * ux b + uy a * uy b + uz a * uz b"

lemma dot_self: "dot a a = 1"
proof -
  have alg: "c * l * (c * l) + c * m * (c * m) + z * z = 1"
    if "c * c + z * z = 1" "l * l + m * m = 1" for c z l m :: real
    using that by algebra
  show ?thesis
    unfolding dot_def ux_def uy_def uz_def
    by (rule alg) (use sin_cos_squared_add2 in \<open>auto simp: power2_eq_square\<close>)
qed

lemma dot_commute: "dot a b = dot b a"
  by (simp add: dot_def mult.commute)

lemma half_angle: "sin (x / 2) * sin (x / 2) = (1 - cos x) / (2::real)"
  using cos_double_sin [of "x / 2"] by (simp add: power2_eq_square)

lemma haversine_dot: "haversine a b = (1 - dot a b) / 2"
proof -
  let ?p = "Lat a * pi / 180" and ?q = "Lat b * pi / 180"
  let ?l = "Lon a * pi / 180" and ?m = "Lon b * pi / 180"
  have dl: "(Lon b - Lon a) * pi / 180 = ?m - ?l" by (simp add: algebra_simps diff_divide_distrib)
  have "haversine a b = (1 - cos (?q - ?p)) / 2 + cos ?p * cos ?q * ((1 - cos (?m - ?l)) / 2)"
    unfolding haversine_def Let_def dl half_angle [symmetric] by (simp only: mult.assoc)
  also have "\<dots> = (1 - dot a b) / 2"
    by (simp add: cos_diff dot_def ux_def uy_def uz_def algebra_simps add_divide_distrib
        diff_divide_distrib)
  finally show ?thesis .
qed

text \<open>The Gram determinant of three vectors is a square, so it is not negative.\<close>

lemma gram_nonneg:
  "0 \<le> dot a a * dot b b * dot c c + 2 * dot a b * dot b c * dot a c
      - dot a a * (dot b c)\<^sup>2 - dot b b * (dot a c)\<^sup>2 - dot c c * (dot a b)\<^sup>2"
proof -
  define D where "D = ux a * (uy b * uz c - uz b * uy c) - uy a * (ux b * uz c - uz b * ux c)
    + uz a * (ux b * uy c - uy b * ux c)"
  have "dot a a * dot b b * dot c c + 2 * dot a b * dot b c * dot a c
      - dot a a * (dot b c)\<^sup>2 - dot b b * (dot a c)\<^sup>2 - dot c c * (dot a b)\<^sup>2 = D\<^sup>2"
    unfolding D_def dot_def by algebra
  then show ?thesis by simp
qed

lemma gram_unit: "(dot a b * dot b c - dot a c)\<^sup>2 \<le> (1 - (dot a b)\<^sup>2) * (1 - (dot b c)\<^sup>2)"
  using gram_nonneg [of a b c] by (simp add: dot_self power2_eq_square algebra_simps)

lemma dot_bounds: "- 1 \<le> dot a b \<and> dot a b \<le> 1"
proof -
  have "dot a a * dot b b - (dot a b)\<^sup>2 = (ux a * uy b - uy a * ux b)\<^sup>2
      + (ux a * uz b - uz a * ux b)\<^sup>2 + (uy a * uz b - uz a * uy b)\<^sup>2"
    unfolding dot_def by algebra
  then have "0 \<le> dot a a * dot b b - (dot a b)\<^sup>2" by simp
  then have "0 \<le> 1 - (dot a b)\<^sup>2" by (simp add: dot_self)
  then have "(dot a b)\<^sup>2 \<le> 1\<^sup>2" by simp
  then show ?thesis using abs_le_square_iff [of "dot a b" 1] by (simp add: abs_le_iff)
qed

lemma arccos_half: "- 1 \<le> x \<Longrightarrow> x \<le> 1 \<Longrightarrow> 2 * arcsin (sqrt ((1 - x) / 2)) = arccos x"
proof -
  assume x: "- 1 \<le> x" "x \<le> 1"
  let ?t = "sqrt ((1 - x) / 2)"
  have t: "0 \<le> ?t" "?t \<le> 1" using x by auto
  have "cos (2 * arcsin ?t) = 1 - 2 * (sin (arcsin ?t))\<^sup>2" by (rule cos_double_sin)
  also have "sin (arcsin ?t) = ?t" using t by (intro sin_arcsin) linarith+
  also have "1 - 2 * ?t\<^sup>2 = x" using x by (simp add: field_simps)
  finally have "cos (2 * arcsin ?t) = x" .
  moreover have "0 \<le> 2 * arcsin ?t" "2 * arcsin ?t \<le> pi"
    using t arcsin_le_arcsin [of 0 ?t] arcsin_ubound [of ?t] order_trans [of "- 1" 0 ?t] by auto
  ultimately show ?thesis using arccos_cos [of "2 * arcsin ?t"] by simp
qed

lemma DistanceM_arccos: "DistanceM a b = EarthRadiusM * arccos (dot a b)"
  using arccos_half [of "dot a b"] dot_bounds [of a b]
  by (simp add: DistanceM_def haversine_dot)

lemma EarthRadiusM_pos [simp]: "0 < EarthRadiusM"
  by (simp add: EarthRadiusM_def)

lemma arccos_triangle:
  assumes x: "- 1 \<le> x" "x \<le> 1" and y: "- 1 \<le> y" "y \<le> 1" and z: "- 1 \<le> z" "z \<le> 1"
    and gram: "(x * y - z)\<^sup>2 \<le> (1 - x\<^sup>2) * (1 - y\<^sup>2)"
  shows "arccos z \<le> arccos x + arccos y"
proof (cases "pi \<le> arccos x + arccos y")
  case True
  then show ?thesis using arccos_ubound [OF z] by linarith
next
  case False
  have "x * y - z \<le> sqrt ((1 - x\<^sup>2) * (1 - y\<^sup>2))"
    using gram by (intro real_le_rsqrt) simp
  then have "cos (arccos x + arccos y) \<le> z"
    using x y by (simp add: cos_add sin_arccos_abs real_sqrt_mult sin_arccos abs_le_iff)
  moreover have "0 \<le> arccos x + arccos y"
    using arccos_lbound [OF x] arccos_lbound [OF y] by simp
  ultimately have "arccos z \<le> arccos (cos (arccos x + arccos y))"
    using z by (intro arccos_le_arccos) (auto simp: cos_ge_minus_one)
  also have "\<dots> = arccos x + arccos y"
    using False \<open>0 \<le> arccos x + arccos y\<close> by (intro arccos_cos) auto
  finally show ?thesis .
qed

section \<open>The metric\<close>

text \<open>
  The interface the router's heuristic needs of a distance: it is a pseudometric.  The lemmas
  of the block are what any such distance gives a search that measures progress with it.
\<close>

locale pseudometric =
  fixes d :: "'p \<Rightarrow> 'p \<Rightarrow> real"
  assumes d_self: "d a a = 0"
    and d_sym: "d a b = d b a"
    and d_triangle: "d a c \<le> d a b + d b c"
begin

lemma d_nonneg: "0 \<le> d a b"
  using d_triangle [of a a b] d_sym [of a b] d_self [of a] by simp

text \<open>A leg of a journey brings the goal closer by at most its own length.\<close>

lemma remaining_le: "d a b \<le> l \<Longrightarrow> d a goal \<le> l + d b goal"
  using d_triangle [of a goal b] by simp

lemma polyline_ge: "ps \<noteq> [] \<Longrightarrow>
    d (hd ps) (last ps) \<le> (\<Sum>i<length ps - 1. d (ps ! i) (ps ! Suc i))"
proof (induction ps rule: rev_induct)
  case (snoc p ps)
  show ?case
  proof (cases "ps = []")
    case True
    then show ?thesis by (simp add: d_self)
  next
    case False
    then obtain n where n: "length ps = Suc n" by (cases ps) auto
    have "d (hd ps) (last ps) \<le> (\<Sum>i<n. d (ps ! i) (ps ! Suc i))" using snoc False n by simp
    also have "\<dots> = (\<Sum>i<n. d ((ps @ [p]) ! i) ((ps @ [p]) ! Suc i))"
      by (rule sum.cong) (auto simp: nth_append n)
    finally have "d (hd ps) (last ps) \<le> \<dots>" .
    moreover have "last ps = ps ! n" using False n by (simp add: last_conv_nth)
    ultimately show ?thesis
      using d_triangle [of "hd ps" p "last ps"] False n by (simp add: nth_append)
  qed
qed simp

end

interpretation great_circle: pseudometric DistanceM
proof
  fix a b c
  show "DistanceM a a = 0" by (simp add: DistanceM_arccos dot_self)
  show "DistanceM a b = DistanceM b a" by (simp add: DistanceM_arccos dot_commute)
  have "arccos (dot a c) \<le> arccos (dot a b) + arccos (dot b c)"
    by (rule arccos_triangle) (use dot_bounds gram_unit in auto)
  then have "EarthRadiusM * arccos (dot a c) \<le> EarthRadiusM * (arccos (dot a b) + arccos (dot b c))"
    by (intro mult_left_mono) (auto intro: less_imp_le)
  then show "DistanceM a c \<le> DistanceM a b + DistanceM b c"
    by (simp add: DistanceM_arccos algebra_simps)
qed

lemma DistanceM_le: "DistanceM a b \<le> pi * EarthRadiusM"
  using arccos_ubound [of "dot a b"] dot_bounds [of a b]
  by (simp add: DistanceM_arccos mult.commute)

lemma turn_angle_is_signed:
  assumes "0 \<le> from" "from \<le> 360" "0 \<le> to" "to \<le> 360"
  shows "- 180 \<le> TurnAngleDeg from to \<and> TurnAngleDeg from to < 180 \<and>
    (\<exists>k::int. TurnAngleDeg from to = to - from + of_int k * 360) \<and>
    0 \<le> BearingDeg a b \<and> BearingDeg a b < 360"
  using TurnAngleDeg_range [OF assms] TurnAngleDeg_cong [of "from" to] BearingDeg_range [of a b] by blast

text \<open>
  The haversine distance is symmetric, zero from a point to itself, never negative, at most half the circumference, and obeys the triangle inequality, so the straight line to the goal is a lower bound on any polyline.
\<close>

lemma distance_is_a_metric:
  shows "DistanceM a b = DistanceM b a \<and> DistanceM a a = 0 \<and> 0 \<le> DistanceM a b \<and>
    DistanceM a b \<le> pi * EarthRadiusM \<and> DistanceM a c \<le> DistanceM a b + DistanceM b c"
  using great_circle.d_sym great_circle.d_self great_circle.d_nonneg DistanceM_le great_circle.d_triangle
  by blast

end
