(* ===== verification/State_Queue.thy ===== *)
theory State_Queue
  imports Prelude
begin

text \<open>
  The priority queue of \<open>internal/routing/search.go\<close>: a binary min-heap in a slice, with the
  sift operations written out.  The contract the search relies on is the locale \<open>min_queue\<close>
  (a queue is a multiset of items of which \<open>pop\<close> takes one with the least key); the heap
  implements it.
\<close>

section \<open>The code\<close>

record queueItem =
  state :: int
  priority :: real

fun up_loop :: "queueItem \<Rightarrow> queueItem list \<Rightarrow> nat \<Rightarrow> queueItem list" where
  "up_loop item q i =
     (if i > 0 then
        (let parent = (i - 1) div 2
         in if priority (q ! parent) \<le> priority item then q[i := item]
            else up_loop item (q[i := q ! parent]) parent)
      else q[i := item])"

declare up_loop.simps [simp del]

definition up :: "queueItem list \<Rightarrow> nat \<Rightarrow> queueItem list" where
  "up q i = up_loop (q ! i) q i"

definition smaller_child :: "queueItem list \<Rightarrow> nat \<Rightarrow> nat" where
  "smaller_child q i =
     (let left = 2 * i + 1; right = left + 1
      in if right < length q \<and> priority (q ! right) < priority (q ! left) then right else left)"

lemma smaller_child_bounds:
  "2 * i + 1 < length q \<Longrightarrow> i < smaller_child q i \<and> smaller_child q i < length q"
  by (auto simp: smaller_child_def Let_def)

function down_loop :: "queueItem \<Rightarrow> queueItem list \<Rightarrow> nat \<Rightarrow> queueItem list" where
  "down_loop item q i =
     (if 2 * i + 1 \<ge> length q then q[i := item]
      else if priority (q ! smaller_child q i) \<ge> priority item then q[i := item]
      else down_loop item (q[i := q ! smaller_child q i]) (smaller_child q i))"
  by pat_completeness auto
termination
proof (relation "measure (\<lambda>(item, q, i). length q - i)")
  fix item :: queueItem and q :: "queueItem list" and i
  assume "\<not> length q \<le> 2 * i + 1"
  then have "i < smaller_child q i \<and> smaller_child q i < length q"
    by (intro smaller_child_bounds) simp
  then show "((item, q[i := q ! smaller_child q i], smaller_child q i), item, q, i)
      \<in> measure (\<lambda>(item, q, i). length q - i)"
    by (simp add: diff_less_mono2)
qed simp

declare down_loop.simps [simp del]

definition down :: "queueItem list \<Rightarrow> nat \<Rightarrow> queueItem list" where
  "down q i = down_loop (q ! i) q i"

definition push :: "queueItem list \<Rightarrow> queueItem \<Rightarrow> queueItem list" where
  "push q item = (let q' = q @ [item] in up q' (length q' - 1))"

text \<open>\<open>pop\<close> is called on a non-empty queue; on an empty one the code would panic.\<close>

definition pop :: "queueItem list \<Rightarrow> queueItem \<times> queueItem list" where
  "pop q =
     (let n = length q - 1; top = q ! 0; q' = take n (q[0 := q ! n])
      in (top, if n > 0 then down q' 0 else q'))"

section \<open>The contract\<close>

locale min_queue =
  fixes inv :: "'q \<Rightarrow> bool"
    and items :: "'q \<Rightarrow> 'a multiset"
    and key :: "'a \<Rightarrow> real"
    and enq :: "'q \<Rightarrow> 'a \<Rightarrow> 'q"
    and deq :: "'q \<Rightarrow> 'a \<times> 'q"
  assumes enq_inv: "inv q \<Longrightarrow> inv (enq q x)"
    and enq_items: "inv q \<Longrightarrow> items (enq q x) = add_mset x (items q)"
    and deq_inv: "inv q \<Longrightarrow> items q \<noteq> {#} \<Longrightarrow> deq q = (x, q') \<Longrightarrow> inv q'"
    and deq_items: "inv q \<Longrightarrow> items q \<noteq> {#} \<Longrightarrow> deq q = (x, q') \<Longrightarrow> items q = add_mset x (items q')"
    and deq_min: "inv q \<Longrightarrow> items q \<noteq> {#} \<Longrightarrow> deq q = (x, q') \<Longrightarrow> y \<in># items q \<Longrightarrow> key x \<le> key y"
begin

lemma deq_mem: "inv q \<Longrightarrow> items q \<noteq> {#} \<Longrightarrow> deq q = (x, q') \<Longrightarrow> x \<in># items q"
  by (simp add: deq_items)

lemma deq_rest: "inv q \<Longrightarrow> items q \<noteq> {#} \<Longrightarrow> deq q = (x, q') \<Longrightarrow> y \<in># items q \<Longrightarrow> y = x \<or> y \<in># items q'"
  by (auto simp: deq_items)

lemma deq_subset: "inv q \<Longrightarrow> items q \<noteq> {#} \<Longrightarrow> deq q = (x, q') \<Longrightarrow> y \<in># items q' \<Longrightarrow> y \<in># items q"
  by (auto simp: deq_items)

text \<open>Items leave the queue in order of their keys, whatever was in it.\<close>

lemma deq_deq_ordered:
  assumes "inv q" "items q \<noteq> {#}" "deq q = (x, q')" "items q' \<noteq> {#}" "deq q' = (y, q'')"
  shows "key x \<le> key y"
proof -
  have "y \<in># items q'" by (rule deq_mem [OF deq_inv [OF assms(1-3)] assms(4,5)])
  then show ?thesis using deq_min [OF assms(1-3)] deq_subset [OF assms(1-3)] by blast
qed

text \<open>An item pushed and then popped at once bounds everything that stays.\<close>

lemma enq_deq_bound:
  assumes "inv q" and "deq (enq q x) = (y, q')"
  shows "key y \<le> key x"
  by (rule deq_min [OF enq_inv [OF assms(1)] _ assms(2)]) (use assms in \<open>auto simp: enq_items\<close>)

end

section \<open>The heap keeps its items\<close>

lemma swap_hole:
  assumes "i < length q" "p < length q" "i \<noteq> p"
  shows "mset (q[i := q ! p, p := item]) = mset (q[i := item])"
proof -
  let ?r = "q[i := item]"
  have "mset (?r[i := ?r ! p, p := ?r ! i]) = mset ?r"
    using assms by (intro mset_swap) auto
  moreover have "?r[i := ?r ! p, p := ?r ! i] = q[i := q ! p, p := item]" using assms by simp
  ultimately show ?thesis by simp
qed

lemma length_up_loop [simp]: "length (up_loop item q i) = length q"
proof (induction item q i rule: up_loop.induct)
  case (1 item q i)
  then show ?case by (subst up_loop.simps) (auto simp: Let_def)
qed

lemma mset_up_loop: "i < length q \<Longrightarrow> mset (up_loop item q i) = mset (q[i := item])"
proof (induction item q i rule: up_loop.induct)
  case (1 item q i)
  show ?case
  proof (cases "i > 0 \<and> \<not> priority (q ! ((i - 1) div 2)) \<le> priority item")
    case True
    then have "mset (up_loop item q i) = mset (up_loop item (q[i := q ! ((i - 1) div 2)]) ((i - 1) div 2))"
      by (subst up_loop.simps) (simp add: Let_def)
    also have "\<dots> = mset (q[i := q ! ((i - 1) div 2), (i - 1) div 2 := item])"
      by (rule "1.IH") (use True "1.prems" in auto)
    also have "\<dots> = mset (q[i := item])" by (rule swap_hole) (use True "1.prems" in auto)
    finally show ?thesis .
  next
    case False
    then show ?thesis by (subst up_loop.simps) (auto simp: Let_def)
  qed
qed

lemma length_down_loop [simp]: "length (down_loop item q i) = length q"
proof (induction item q i rule: down_loop.induct)
  case (1 item q i)
  then show ?case by (subst down_loop.simps) auto
qed

lemma mset_down_loop: "i < length q \<Longrightarrow> mset (down_loop item q i) = mset (q[i := item])"
proof (induction item q i rule: down_loop.induct)
  case (1 item q i)
  let ?c = "smaller_child q i"
  show ?case
  proof (cases "2 * i + 1 < length q \<and> \<not> priority (q ! ?c) \<ge> priority item")
    case True
    have c: "i < ?c" "?c < length q" using smaller_child_bounds True by auto
    from True have "mset (down_loop item q i) = mset (down_loop item (q[i := q ! ?c]) ?c)"
      by (subst down_loop.simps) simp
    also have "\<dots> = mset (q[i := q ! ?c, ?c := item])"
      by (rule "1.IH") (use True c in auto)
    also have "\<dots> = mset (q[i := item])" by (rule swap_hole) (use c "1.prems" in auto)
    finally show ?thesis .
  next
    case False
    then show ?thesis by (subst down_loop.simps) auto
  qed
qed

section \<open>The heap order\<close>

definition heap :: "queueItem list \<Rightarrow> bool" where
  "heap q \<longleftrightarrow> (\<forall>j<length q. 0 < j \<longrightarrow> priority (q ! ((j - 1) div 2)) \<le> priority (q ! j))"

text \<open>Sifting up: the order holds but for the pair of \<open>i\<close> and its parent.\<close>

definition heap_up :: "queueItem list \<Rightarrow> nat \<Rightarrow> bool" where
  "heap_up q i \<longleftrightarrow>
     (\<forall>j<length q. 0 < j \<longrightarrow> j \<noteq> i \<longrightarrow> priority (q ! ((j - 1) div 2)) \<le> priority (q ! j)) \<and>
     (\<forall>j<length q. 0 < j \<longrightarrow> (j - 1) div 2 = i \<longrightarrow> 0 < i \<longrightarrow>
        priority (q ! ((i - 1) div 2)) \<le> priority (q ! j))"

text \<open>Sifting down: the order holds but for the pairs of \<open>i\<close> and its children.\<close>

definition heap_down :: "queueItem list \<Rightarrow> nat \<Rightarrow> bool" where
  "heap_down q i \<longleftrightarrow>
     (\<forall>j<length q. 0 < j \<longrightarrow> (j - 1) div 2 \<noteq> i \<longrightarrow> priority (q ! ((j - 1) div 2)) \<le> priority (q ! j)) \<and>
     (\<forall>j<length q. 0 < j \<longrightarrow> (j - 1) div 2 = i \<longrightarrow> 0 < i \<longrightarrow>
        priority (q ! ((i - 1) div 2)) \<le> priority (q ! j))"

lemma up_loop_heap:
  "i < length q \<Longrightarrow> heap_up (q[i := item]) i \<Longrightarrow> heap (up_loop item q i)"
proof (induction item q i rule: up_loop.induct)
  case (1 item q i)
  let ?p = "(i - 1) div 2"
  show ?case
  proof (cases "i > 0 \<and> \<not> priority (q ! ?p) \<le> priority item")
    case True
    then have p: "?p < i" "?p \<noteq> i" by auto
    have up: "heap_up (q[i := q ! ?p, ?p := item]) ?p"
      unfolding heap_up_def
    proof (intro conjI allI impI)
      fix j
      assume j: "j < length (q[i := q ! ?p, ?p := item])" "0 < j" "j \<noteq> ?p"
      have old: "j \<noteq> i \<Longrightarrow> priority (q[i := item] ! ((j - 1) div 2)) \<le> priority (q[i := item] ! j)"
        using "1.prems"(2) j by (simp add: heap_up_def)
      have par: "(j - 1) div 2 = i \<Longrightarrow> priority (q[i := item] ! ?p) \<le> priority (q[i := item] ! j)"
        using "1.prems"(2) j True by (simp add: heap_up_def)
      show "priority (q[i := q ! ?p, ?p := item] ! ((j - 1) div 2))
          \<le> priority (q[i := q ! ?p, ?p := item] ! j)"
        using old par True p j "1.prems"(1) by (auto simp: nth_list_update split: if_splits)
    next
      fix j
      assume j: "j < length (q[i := q ! ?p, ?p := item])" "0 < j" "(j - 1) div 2 = ?p" "0 < ?p"
      have gp: "priority (q[i := item] ! ((?p - 1) div 2)) \<le> priority (q[i := item] ! ?p)"
        using "1.prems" j(4) p True by (simp add: heap_up_def)
      have "j < length (q[i := item])" using j(1) by simp
      then have old: "j \<noteq> i \<Longrightarrow> priority (q[i := item] ! ((j - 1) div 2)) \<le> priority (q[i := item] ! j)"
        using "1.prems"(2) j(2) unfolding heap_up_def by blast
      have ne: "(?p - 1) div 2 \<noteq> ?p" "(?p - 1) div 2 \<noteq> i" using j(4) p(1) by linarith+
      have "(?p - 1) div 2 \<noteq> ?p" using j(4) by linarith
      then have jp: "j \<noteq> ?p" using j(3) by metis
      note ne = ne(1) [symmetric] ne(2) [symmetric] jp [symmetric] p(2) [symmetric]
      have top: "q[i := q ! ?p, ?p := item] ! ((?p - 1) div 2) = q ! ((?p - 1) div 2)"
        by (simp only: nth_list_update_neq [OF ne(1)] nth_list_update_neq [OF ne(2)])
      have gp: "priority (q ! ((?p - 1) div 2)) \<le> priority (q ! ?p)"
        using gp by (simp only: nth_list_update_neq [OF ne(2)] nth_list_update_neq [OF ne(4)])
      show "priority (q[i := q ! ?p, ?p := item] ! ((?p - 1) div 2))
          \<le> priority (q[i := q ! ?p, ?p := item] ! j)"
      proof (cases "i = j")
        case True
        have "q[i := q ! ?p] ! i = q ! ?p" using "1.prems"(1) by (rule nth_list_update_eq)
        then have "q[i := q ! ?p, ?p := item] ! j = q ! ?p"
          using nth_list_update_neq [OF ne(3), of "q[i := q ! ?p]" item] True by metis
        then show ?thesis using gp top by (simp only:)
      next
        case False
        then have "priority (q[i := item] ! ?p) \<le> priority (q[i := item] ! j)"
          using old unfolding j(3) by blast
        then have q: "priority (q ! ?p) \<le> priority (q ! j)"
          by (simp only: nth_list_update_neq [OF False] nth_list_update_neq [OF ne(4)])
        have "q[i := q ! ?p, ?p := item] ! j = q ! j"
          by (simp only: nth_list_update_neq [OF False] nth_list_update_neq [OF ne(3)])
        then show ?thesis unfolding top using gp q by (metis order_trans)
      qed
    qed
    have "heap (up_loop item (q[i := q ! ?p]) ?p)"
      by (rule "1.IH") (use True p up "1.prems" in auto)
    with True show ?thesis by (subst up_loop.simps) (simp add: Let_def)
  next
    case False
    then have "up_loop item q i = q[i := item]" by (subst up_loop.simps) (auto simp: Let_def)
    moreover have "heap (q[i := item])"
      unfolding heap_def
    proof (intro allI impI)
      fix j
      assume j: "j < length (q[i := item])" "0 < j"
      show "priority (q[i := item] ! ((j - 1) div 2)) \<le> priority (q[i := item] ! j)"
      proof (cases "j = i")
        case True
        then have "?p \<noteq> i" using j by auto
        moreover have "priority (q ! ?p) \<le> priority item" using True False j by auto
        ultimately show ?thesis using True j by simp
      next
        case False
        then show ?thesis using "1.prems"(2) j by (simp add: heap_up_def)
      qed
    qed
    ultimately show ?thesis by simp
  qed
qed


lemma down_loop_heap:
  "i < length q \<Longrightarrow> heap_down (q[i := item]) i \<Longrightarrow> heap (down_loop item q i)"
proof (induction item q i rule: down_loop.induct)
  case (1 item q i)
  let ?c = "smaller_child q i"
  have ord: "priority (q[i := item] ! ((j - 1) div 2)) \<le> priority (q[i := item] ! j)"
    if "j < length q" "0 < j" "(j - 1) div 2 \<noteq> i" for j
    using "1.prems"(2) that by (simp add: heap_down_def)
  have par: "priority (q[i := item] ! ((i - 1) div 2)) \<le> priority (q[i := item] ! j)"
    if "j < length q" "0 < j" "(j - 1) div 2 = i" "0 < i" for j
    using "1.prems"(2) that unfolding heap_down_def by auto
  show ?case
  proof (cases "2 * i + 1 < length q \<and> \<not> priority (q ! ?c) \<ge> priority item")
    case True
    have c: "i < ?c" "?c < length q" using smaller_child_bounds True by auto
    have pc: "(?c - 1) div 2 = i" by (auto simp: smaller_child_def Let_def)
    have min: "priority (q ! ?c) \<le> priority (q ! j)" if "j < length q" "0 < j" "(j - 1) div 2 = i" for j
    proof -
      have "j = 2 * i + 1 \<or> j = 2 * i + 2" using that by auto
      then show ?thesis using that by (auto simp: smaller_child_def Let_def)
    qed
    have "heap_down (q[i := q ! ?c, ?c := item]) ?c"
      unfolding heap_down_def
    proof (intro conjI allI impI)
      fix j
      assume j: "j < length (q[i := q ! ?c, ?c := item])" "0 < j" "(j - 1) div 2 \<noteq> ?c"
      have ji: "j \<noteq> (j - 1) div 2" using j by auto
      show "priority (q[i := q ! ?c, ?c := item] ! ((j - 1) div 2))
          \<le> priority (q[i := q ! ?c, ?c := item] ! j)"
      proof (cases "(j - 1) div 2 = i")
        case True
        then show ?thesis using min [of j] j ji c \<open>2 * i + 1 < length q \<and> _\<close>
          by (auto simp: nth_list_update)
      next
        case False
        then have "j \<noteq> ?c" using pc by auto
        show ?thesis
        proof (cases "j = i")
          case True
          then show ?thesis using par [OF c(2) _ pc] j c False \<open>j \<noteq> ?c\<close>
            by (simp add: nth_list_update)
        next
          case nji: False
          then show ?thesis using ord [of j] j False \<open>j \<noteq> ?c\<close> by (simp add: nth_list_update)
        qed
      qed
    next
      fix j
      assume j: "j < length (q[i := q ! ?c, ?c := item])" "0 < j" "(j - 1) div 2 = ?c" "0 < ?c"
      have "j \<noteq> i" "j \<noteq> ?c" using j c by auto
      then show "priority (q[i := q ! ?c, ?c := item] ! ((?c - 1) div 2))
          \<le> priority (q[i := q ! ?c, ?c := item] ! j)"
        using ord [of j] j c pc by (simp add: nth_list_update)
    qed
    then have "heap (down_loop item (q[i := q ! ?c]) ?c)"
      by (intro "1.IH") (use True c in auto)
    with True show ?thesis by (subst down_loop.simps) simp
  next
    case False
    then have eq: "down_loop item q i = q[i := item]" by (subst down_loop.simps) auto
    have "heap (q[i := item])"
      unfolding heap_def
    proof (intro allI impI)
      fix j
      assume j: "j < length (q[i := item])" "0 < j"
      show "priority (q[i := item] ! ((j - 1) div 2)) \<le> priority (q[i := item] ! j)"
      proof (cases "(j - 1) div 2 = i")
        case True
        then have "j = 2 * i + 1 \<or> j = 2 * i + 2" using j by auto
        moreover have "priority item \<le> priority (q ! ?c)" using False j calculation by auto
        ultimately have "priority item \<le> priority (q ! j)"
          using j by (auto simp: smaller_child_def Let_def split: if_splits)
        moreover have "j \<noteq> i" using True j by auto
        ultimately show ?thesis using True "1.prems"(1) by simp
      next
        case False
        then show ?thesis using ord j by simp
      qed
    qed
    then show ?thesis by (simp add: eq)
  qed
qed

section \<open>The heap implements the queue\<close>

lemma heap_root: "heap q \<Longrightarrow> j < length q \<Longrightarrow> priority (q ! 0) \<le> priority (q ! j)"
proof (induction j rule: less_induct)
  case (less j)
  show ?case
  proof (cases "j = 0")
    case False
    then have "(j - 1) div 2 < j" by auto
    then have "priority (q ! 0) \<le> priority (q ! ((j - 1) div 2))"
      by (rule less.IH) (use less.prems False in auto)
    moreover have "priority (q ! ((j - 1) div 2)) \<le> priority (q ! j)"
      using less.prems False by (simp add: heap_def)
    ultimately show ?thesis by simp
  qed simp
qed

lemma heap_push: "heap q \<Longrightarrow> heap (push q x)"
  unfolding push_def up_def Let_def
proof (rule up_loop_heap)
  assume h: "heap q"
  let ?q = "q @ [x]"
  have id: "?q[length ?q - 1 := ?q ! (length ?q - 1)] = ?q" by simp
  show "heap_up (?q[length ?q - 1 := ?q ! (length ?q - 1)]) (length ?q - 1)"
    unfolding heap_up_def id
  proof (intro conjI allI impI)
    fix j
    assume "j < length ?q" "0 < j" "j \<noteq> length ?q - 1"
    then show "priority (?q ! ((j - 1) div 2)) \<le> priority (?q ! j)"
      using h by (auto simp: heap_def nth_append)
  qed auto
qed simp

lemma mset_push: "mset (push q x) = add_mset x (mset q)"
  by (simp add: push_def up_def Let_def mset_up_loop)

lemma pop_cases:
  assumes "q \<noteq> []" and "pop q = (x, q')"
  shows "x = q ! 0"
    and "length q = 1 \<Longrightarrow> q' = []"
    and "length q \<noteq> 1 \<Longrightarrow>
      q' = down_loop (last q) (take (length q - 1) (q[0 := last q])) 0"
proof -
  have len: "0 < length q" using assms(1) by simp
  show "x = q ! 0" "length q = 1 \<Longrightarrow> q' = []"
    using assms by (auto simp: pop_def Let_def split: if_splits)
  assume "length q \<noteq> 1"
  with len have "length q - 1 > 0" by linarith
  then show "q' = down_loop (last q) (take (length q - 1) (q[0 := last q])) 0"
    using assms by (auto simp: pop_def down_def Let_def last_conv_nth)
qed

lemma mset_pop:
  assumes "q \<noteq> []" and "pop q = (x, q')"
  shows "mset q = add_mset x (mset q')"
proof (cases "length q = 1")
  case True
  then show ?thesis using pop_cases [OF assms] by (cases q) auto
next
  case False
  with assms(1) obtain a r b where q: "q = a # r @ [b]"
    by (cases q; cases "tl q" rule: rev_cases) auto
  then have "take (length q - 1) (q[0 := last q]) = b # r" by simp
  then have "q' = down_loop b (b # r) 0" using pop_cases(3) [OF assms False] q by simp
  then have "mset q' = mset (b # r)" using mset_down_loop [of 0 "b # r" b] by simp
  then show ?thesis using pop_cases(1) [OF assms] q by simp
qed

lemma heap_pop:
  assumes "heap q" and "q \<noteq> []" and "pop q = (x, q')"
  shows "heap q'"
proof (cases "length q = 1")
  case True
  then show ?thesis using pop_cases [OF assms(2,3)] by (simp add: heap_def)
next
  case False
  let ?r = "take (length q - 1) (q[0 := last q])"
  have len: "length ?r = length q - 1" "0 < length ?r" using False assms(2) by (cases q; auto)+
  have "heap_down (?r[0 := last q]) 0"
    unfolding heap_down_def
  proof (intro conjI allI impI)
    fix j
    assume j: "j < length (?r[0 := last q])" "0 < j" "(j - 1) div 2 \<noteq> 0"
    then have "(j - 1) div 2 < length ?r" "j < length q" using len by auto
    then have "?r[0 := last q] ! ((j - 1) div 2) = q ! ((j - 1) div 2)" "?r[0 := last q] ! j = q ! j"
      using j len by simp_all
    then show "priority (?r[0 := last q] ! ((j - 1) div 2)) \<le> priority (?r[0 := last q] ! j)"
      using assms(1) j \<open>j < length q\<close> by (simp add: heap_def)
  qed simp
  then show ?thesis
    using down_loop_heap [OF len(2)] pop_cases(3) [OF assms(2,3) False] by simp
qed

interpretation sq: min_queue heap mset priority push pop
proof
  show "heap q \<Longrightarrow> heap (push q x)" for q x by (rule heap_push)
  show "mset (push q x) = add_mset x (mset q)" for q x by (rule mset_push)
  fix q x q' y
  assume q: "heap q" "mset q \<noteq> {#}" "pop q = (x, q')"
  then have ne: "q \<noteq> []" by auto
  show "heap q'" by (rule heap_pop [OF q(1) ne q(3)])
  show "mset q = add_mset x (mset q')" by (rule mset_pop [OF ne q(3)])
  assume "y \<in># mset q"
  then show "priority x \<le> priority y"
    using heap_root [OF q(1)] pop_cases(1) [OF ne q(3)] by (auto simp: in_set_conv_nth)
qed

lemma heap_Nil [simp]: "heap []"
  by (simp add: heap_def)

lemma length_push [simp]: "length (push q x) = Suc (length q)"
  by (simp add: push_def up_def Let_def)

lemma set_push [simp]: "set (push q x) = insert x (set q)"
  using arg_cong [OF mset_push, of set_mset q x] by simp

text \<open>Popping until the queue is empty yields the items in ascending order of priority.\<close>

lemma length_pop: "q \<noteq> [] \<Longrightarrow> pop q = (x, q') \<Longrightarrow> Suc (length q') = length q"
  using arg_cong [OF mset_pop, of q x q' size] by simp

end
