(* ===== verification/Search.thy ===== *)
theory Search
  imports Geo Road_Graph State_Queue
begin

text \<open>
  The search of \<open>internal/routing\<close>: \<open>search.go\<close> (the A* search over pairs of a directed edge and
  a budget bucket) and \<open>workspace.go\<close> (its pooled scratch arrays).  This theory holds the code;
  what the search returns is proved in \<open>Search_Sound\<close> (the returned route) and
  \<open>Search_Optimal\<close> (no cheaper route).

  An unsettled distance, \<open>math.Inf(1)\<close> in the code, is \<open>None\<close>.  Costs are real numbers, so the
  NaN and infinite costs a cost function could return are outside the model.
\<close>

section \<open>Options and results\<close>

datatype search_err = ErrUnroutable | ErrNodeRange

record options =
  EdgeCost :: "graph \<Rightarrow> nat \<Rightarrow> real"
  TurnCost :: "(graph \<Rightarrow> nat \<Rightarrow> nat \<Rightarrow> real) option"
  Allow :: "(graph \<Rightarrow> nat \<Rightarrow> bool) option"
  Over :: "(graph \<Rightarrow> nat \<Rightarrow> bool) option"
  BudgetM :: real
  BudgetSteps :: int
  MaxExpansions :: int
  NoHeuristic :: bool

record path =
  pEdges :: "nat list"
  pCost :: real
  pLengthM :: real
  pBudgetUsedM :: real
  pExpansions :: int

definition empty_path :: path where
  "empty_path = \<lparr>pEdges = [], pCost = 0, pLengthM = 0, pBudgetUsedM = 0, pExpansions = 0\<rparr>"

definition LengthOnlyCost :: "graph \<Rightarrow> nat \<Rightarrow> real" where
  "LengthOnlyCost g e = LengthM g ! e"

definition defaultMaxExpansions :: int where "defaultMaxExpansions = 4000000"
definition defaultBudgetSteps :: int where "defaultBudgetSteps = 4"
definition maxBudgetSteps :: int where "maxBudgetSteps = 16"

text \<open>The optional callbacks: a missing one allows every edge, marks none, and costs nothing.\<close>

definition allowed :: "options \<Rightarrow> graph \<Rightarrow> nat \<Rightarrow> bool" where
  "allowed opt g e = (case Allow opt of None \<Rightarrow> True | Some f \<Rightarrow> f g e)"

definition is_over :: "options \<Rightarrow> graph \<Rightarrow> nat \<Rightarrow> bool" where
  "is_over opt g e = (case Over opt of None \<Rightarrow> False | Some f \<Rightarrow> f g e)"

definition turn_cost :: "options \<Rightarrow> graph \<Rightarrow> nat \<Rightarrow> nat \<Rightarrow> real" where
  "turn_cost opt g e f = (case TurnCost opt of None \<Rightarrow> 0 | Some t \<Rightarrow> t g e f)"

section \<open>Budget buckets and states\<close>

definition budgetBuckets :: "options \<Rightarrow> int \<times> real" where
  "budgetBuckets opt =
     (if Over opt = None \<or> BudgetM opt \<le> 0 then (1, 0)
      else let nb = BudgetSteps opt;
               nb = (if nb \<le> 0 then defaultBudgetSteps else nb);
               nb = (if nb > maxBudgetSteps then maxBudgetSteps else nb)
           in (nb, BudgetM opt / of_int nb))"

definition stateIndex :: "int \<Rightarrow> int \<Rightarrow> int \<Rightarrow> int" where
  "stateIndex edge bucket nb = int32 (int32 (edge * int32 nb) + int32 bucket)"

text \<open>Go's division truncates; the states it divides are not negative.\<close>

definition edgeOf :: "int \<Rightarrow> int \<Rightarrow> int" where
  "edgeOf st nb = st div int32 nb"

definition bucketOf :: "real \<Rightarrow> real \<Rightarrow> int \<Rightarrow> int" where
  "bucketOf used stepM nb =
     (if nb = 1 \<or> stepM \<le> 0 then 0
      else let b = trunc (used / stepM) in if b \<ge> nb then nb - 1 else b)"

definition validate :: "graph \<Rightarrow> int \<Rightarrow> int \<Rightarrow> search_err option" where
  "validate g start goal =
     (let n = int32 (int (NumNodes g))
      in if start < 0 \<or> start \<ge> n \<or> goal < 0 \<or> goal \<ge> n then Some ErrNodeRange
         else if OutDegree g (nat start) = 0 then Some ErrUnroutable
         else None)"

section \<open>The workspace\<close>

record workspace =
  dist :: "real option list"
  usedM :: "real list"
  prev :: "int list"
  settled :: "bool list"
  hcache :: "real list"
  queue :: "queueItem list"

text \<open>
  A pooled slice is reused when its capacity suffices and is otherwise allocated afresh.  The
  lists of a pooled workspace hold the whole backing array, stale contents included; \<open>usedM\<close> is
  the one array that is not reset.
\<close>

definition grow :: "'a \<Rightarrow> 'a list \<Rightarrow> nat \<Rightarrow> 'a list" where
  "grow zero s n = (if length s \<ge> n then take n s else replicate n zero)"

definition fresh_workspace :: workspace where
  "fresh_workspace =
     \<lparr>dist = [], usedM = [], prev = [], settled = [], hcache = [], queue = []\<rparr>"

definition getWorkspace :: "workspace option \<Rightarrow> nat \<Rightarrow> nat \<Rightarrow> workspace" where
  "getWorkspace pooled numStates numNodes =
     (let w = (case pooled of None \<Rightarrow> fresh_workspace | Some w \<Rightarrow> w)
      in \<lparr>dist = map (\<lambda>_. None) (grow (Some 0) (dist w) numStates),
          usedM = grow 0 (usedM w) numStates,
          prev = map (\<lambda>_. - 1) (grow 0 (prev w) numStates),
          settled = map (\<lambda>_. False) (grow False (settled w) numStates),
          hcache = map (\<lambda>_. - 1) (grow 0 (hcache w) numNodes),
          queue = []\<rparr>)"

definition release :: "workspace \<Rightarrow> workspace" where
  "release w = w\<lparr>queue := []\<rparr>"

definition cheaper :: "real \<Rightarrow> real option \<Rightarrow> bool" where
  "cheaper c d = (case d of None \<Rightarrow> True | Some x \<Rightarrow> c < x)"

section \<open>The search\<close>

text \<open>
  The heuristic with its per-node cache.  A miss returns the distance as computed and stores its
  \<open>float32\<close> rounding; a hit returns the rounded one.
\<close>

definition node_pos :: "graph \<Rightarrow> nat \<Rightarrow> LatLon" where
  "node_pos g n = \<lparr>Lat = NodeLat g ! n, Lon = NodeLon g ! n\<rparr>"

definition heur :: "graph \<Rightarrow> options \<Rightarrow> nat \<Rightarrow> nat \<Rightarrow> workspace \<Rightarrow> real \<times> workspace" where
  "heur g opt goal e w =
     (if NoHeuristic opt then (0, w)
      else let n = To g ! e; v = hcache w ! n
           in if v \<ge> 0 then (v, w)
              else let d = DistanceM (node_pos g n) (node_pos g goal)
                   in (d, w\<lparr>hcache := (hcache w)[n := f32 d]\<rparr>))"

definition enqueue :: "graph \<Rightarrow> options \<Rightarrow> nat \<Rightarrow> nat \<Rightarrow> int \<Rightarrow> real \<Rightarrow> workspace \<Rightarrow> workspace" where
  "enqueue g opt goal e st c w =
     (let (he, w) = heur g opt goal e w
      in w\<lparr>queue := push (queue w) \<lparr>state = st, priority = c + he\<rparr>\<rparr>)"

definition in_states :: "workspace \<Rightarrow> int \<Rightarrow> bool" where
  "in_states w st \<longleftrightarrow> 0 \<le> st \<and> st < int (length (dist w))"

definition seed_step :: "graph \<Rightarrow> options \<Rightarrow> nat \<Rightarrow> int \<Rightarrow> real \<Rightarrow> nat \<Rightarrow> workspace \<Rightarrow>
    (search_err, workspace) outcome" where
  "seed_step g opt goal nb stepM e w =
     (if \<not> allowed opt g e then Ok w
      else
        let over = is_over opt g e;
            used = (if over then LengthM g ! e else 0)
        in if over \<and> used > BudgetM opt then Ok w
           else
             let st = stateIndex (int e) (bucketOf used stepM nb) nb;
                 c = EdgeCost opt g e
             in if \<not> in_states w st then Panic
                else if cheaper c (dist w ! nat st) then
                  let w = w\<lparr>dist := (dist w)[nat st := Some c],
                            usedM := (usedM w)[nat st := f32 used]\<rparr>
                  in Ok (enqueue g opt goal e st c w)
                else Ok w)"

definition relax_step :: "graph \<Rightarrow> options \<Rightarrow> nat \<Rightarrow> int \<Rightarrow> real \<Rightarrow> int \<Rightarrow> nat \<Rightarrow> real \<Rightarrow> nat \<Rightarrow>
    workspace \<Rightarrow> (search_err, workspace) outcome" where
  "relax_step g opt goal nb stepM st e spent f w =
     (if \<not> allowed opt g f then Ok w
      else
        let over = is_over opt g f;
            nextUsed = (if over then spent + LengthM g ! f else spent)
        in if over \<and> nextUsed > BudgetM opt then Ok w
           else
             let nst = stateIndex (int f) (bucketOf nextUsed stepM nb) nb
             in if \<not> in_states w nst then Panic
                else if settled w ! nat nst then Ok w
                else
                  case dist w ! nat st of
                    None \<Rightarrow> Ok w
                  | Some d \<Rightarrow>
                      let nd = d + EdgeCost opt g f + turn_cost opt g e f
                      in if cheaper nd (dist w ! nat nst) then
                           let w = w\<lparr>dist := (dist w)[nat nst := Some nd],
                                     usedM := (usedM w)[nat nst := f32 nextUsed],
                                     prev := (prev w)[nat nst := st]\<rparr>
                           in Ok (enqueue g opt goal f nst nd w)
                         else Ok w)"

lemma settled_enqueue [simp]: "settled (enqueue g opt goal e st c w) = settled w"
  by (simp add: enqueue_def heur_def Let_def split: prod.splits if_splits)

lemma settled_relax_step: "relax_step g opt goal nb stepM st e spent f w = Ok w' \<Longrightarrow> settled w' = settled w"
  by (auto simp: relax_step_def Let_def split: if_splits option.splits)

lemma settled_relax_all:
  "foldM (relax_step g opt goal nb stepM st e spent) fs w = Ok w' \<Longrightarrow> settled w' = settled w"
  by (erule foldM_preserves) (rule settled_relax_step)

text \<open>The main loop; it returns the goal's state, the number of states settled and the arrays.\<close>

definition unsettled :: "workspace \<Rightarrow> nat" where
  "unsettled w = length (filter Not (settled w))"

lemma unsettled_settle:
  "i < length (settled w) \<Longrightarrow> \<not> settled w ! i \<Longrightarrow>
   length (filter Not ((settled w)[i := True])) < unsettled w"
proof -
  assume i: "i < length (settled w)" "\<not> settled w ! i"
  let ?s = "settled w"
  have "?s = take i ?s @ False # drop (Suc i) ?s"
    using i id_take_nth_drop [of i ?s] by simp
  then have "length (filter Not ?s) = length (filter Not (take i ?s @ False # drop (Suc i) ?s))"
    by (rule arg_cong)
  then have a: "length (filter Not ?s) =
      length (filter Not (take i ?s)) + Suc (length (filter Not (drop (Suc i) ?s)))"
    by simp
  have "?s[i := True] = take i ?s @ True # drop (Suc i) ?s"
    using i(1) by (simp add: upd_conv_take_nth_drop)
  then have b: "length (filter Not (?s[i := True])) =
      length (filter Not (take i ?s)) + length (filter Not (drop (Suc i) ?s))"
    by simp
  show ?thesis using a b by (simp add: unsettled_def)
qed

function search_loop :: "graph \<Rightarrow> options \<Rightarrow> nat \<Rightarrow> int \<Rightarrow> real \<Rightarrow> int \<Rightarrow> int \<Rightarrow> workspace \<Rightarrow>
    (search_err, int \<times> int \<times> workspace) outcome" where
  "search_loop g opt goal nb stepM maxExp expansions w =
     (if queue w = [] then Err ErrUnroutable
      else
        let st = state (fst (pop (queue w)));
            w1 = w\<lparr>queue := snd (pop (queue w))\<rparr>
        in if st < 0 \<or> st \<ge> int (length (settled w)) then Panic
           else if settled w ! nat st then search_loop g opt goal nb stepM maxExp expansions w1
           else
             let w2 = w1\<lparr>settled := (settled w)[nat st := True]\<rparr>
             in if expansions + 1 > maxExp then Err ErrUnroutable
                else
                  let e = nat (edgeOf st nb); here = To g ! e; spent = usedM w2 ! nat st
                  in if here = goal then Ok (st, expansions + 1, w2)
                     else case foldM (relax_step g opt goal nb stepM st e spent) (out_list g here) w2 of
                         Ok w3 \<Rightarrow> search_loop g opt goal nb stepM maxExp (expansions + 1) w3
                       | Err x \<Rightarrow> Err x
                       | Panic \<Rightarrow> Panic)"
  by pat_completeness auto
termination
proof (relation "measures [\<lambda>(g, opt, goal, nb, stepM, maxExp, expansions, w). unsettled w,
    \<lambda>(g, opt, goal, nb, stepM, maxExp, expansions, w). length (queue w)]", goal_cases)
  case 1
  then show ?case by simp
next
  case (2 g opt goal nb stepM maxExp expansions w st w1)
  have "length (snd (pop (queue w))) < length (queue w)"
    using length_pop [OF 2(1), of "fst (pop (queue w))" "snd (pop (queue w))"] by simp
  then show ?case by (simp add: 2 unsettled_def)
next
  case (3 g opt goal nb stepM maxExp expansions w st w1 w2 e here spent w3)
  have "unsettled w3 = unsettled w2"
    using settled_relax_all [OF 3(12)] by (simp add: unsettled_def)
  moreover have "unsettled w2 < unsettled w"
    using unsettled_settle [of "nat st" w] 3 by (simp add: unsettled_def nat_less_iff not_le)
  ultimately show ?case by simp
qed

declare search_loop.simps [simp del]

section \<open>The path\<close>

text \<open>
  The walk along the predecessors need not end on an arbitrary array: \<open>None\<close> is a walk that
  never reaches \<open>-1\<close>.
\<close>

partial_function (option) chain ::
    "int list \<Rightarrow> int \<Rightarrow> int \<Rightarrow> nat list \<Rightarrow> (search_err, nat list) outcome option" where
  "chain prv nb st acc =
     (if st = - 1 then Some (Ok acc)
      else if st < 0 \<or> st \<ge> int (length prv) then Some Panic
      else chain prv nb (prv ! nat st) (acc @ [nat (edgeOf st nb)]))"

definition buildPath :: "graph \<Rightarrow> int list \<Rightarrow> int \<Rightarrow> int \<Rightarrow> real \<Rightarrow> real \<Rightarrow> int \<Rightarrow>
    (search_err, path) outcome option" where
  "buildPath g prv last_st nb cost used expansions =
     (case chain prv nb last_st [] of
        None \<Rightarrow> None
      | Some Panic \<Rightarrow> Some Panic
      | Some (Err x) \<Rightarrow> Some (Err x)
      | Some (Ok acc) \<Rightarrow> Some (Ok
          \<lparr>pEdges = rev acc, pCost = cost,
           pLengthM = fold (\<lambda>e s. s + LengthM g ! e) acc 0,
           pBudgetUsedM = used, pExpansions = expansions\<rparr>))"

definition expansion_limit :: "options \<Rightarrow> int" where
  "expansion_limit opt =
     (if MaxExpansions opt \<le> 0 then defaultMaxExpansions else MaxExpansions opt)"

text \<open>
  \<open>Search\<close>: \<open>None\<close> would be a search that does not return.  The goal's state has been settled
  and so has a finite distance; the branch for an infinite one is never taken
  (\<open>Search_Sound\<close> proves that \<open>Search\<close> neither panics nor diverges).
\<close>

definition Search :: "graph \<Rightarrow> workspace option \<Rightarrow> int \<Rightarrow> int \<Rightarrow> options \<Rightarrow>
    (search_err, path) outcome option" where
  "Search g pooled start goal opt =
     (if start = goal then Some (Ok empty_path)
      else case validate g start goal of
        Some x \<Rightarrow> Some (Err x)
      | None \<Rightarrow>
          let maxExp = expansion_limit opt;
              (nb, stepM) = budgetBuckets opt;
              numStates = int32 (int (NumEdges g)) * nb
          in if numStates < 0 then Some Panic
             else
               let w = getWorkspace pooled (nat numStates) (NumNodes g)
               in case foldM (seed_step g opt (nat goal) nb stepM) (out_list g (nat start)) w of
                    Panic \<Rightarrow> Some Panic
                  | Err x \<Rightarrow> Some (Err x)
                  | Ok w \<Rightarrow>
                      (case search_loop g opt (nat goal) nb stepM maxExp 0 w of
                         Panic \<Rightarrow> Some Panic
                       | Err x \<Rightarrow> Some (Err x)
                       | Ok (st, expansions, w) \<Rightarrow>
                           (case dist w ! nat st of
                              None \<Rightarrow> Some Panic
                            | Some c \<Rightarrow>
                                buildPath g (prev w) st nb c (usedM w ! nat st) expansions)))"

section \<open>States\<close>

text \<open>
  A search whose states fit in an \<open>int32\<close>: then the state of edge \<open>e\<close> and bucket \<open>b\<close> is
  \<open>e * nb + b\<close>, and edge and bucket are recovered by division.
\<close>

definition fits :: "graph \<Rightarrow> options \<Rightarrow> bool" where
  "fits g opt \<longleftrightarrow> int (NumEdges g) * fst (budgetBuckets opt) < 2147483648 \<and>
     int (NumNodes g) < 2147483648"

lemma budgetBuckets_range:
  "1 \<le> fst (budgetBuckets opt) \<and> fst (budgetBuckets opt) \<le> 16"
  by (auto simp: budgetBuckets_def Let_def defaultBudgetSteps_def maxBudgetSteps_def)

lemma budgetBuckets_step: "0 \<le> snd (budgetBuckets opt)"
  by (auto simp: budgetBuckets_def Let_def defaultBudgetSteps_def maxBudgetSteps_def)

lemma bucketOf_range:
  assumes "1 \<le> nb" and "0 \<le> used"
  shows "0 \<le> bucketOf used stepM nb \<and> bucketOf used stepM nb < nb"
  using assms by (auto simp: bucketOf_def Let_def)

lemma bucketOf_mono:
  assumes "used \<le> used'" and "1 \<le> nb"
  shows "bucketOf used stepM nb \<le> bucketOf used' stepM nb"
proof (cases "nb = 1 \<or> stepM \<le> 0")
  case True
  then show ?thesis by (auto simp: bucketOf_def)
next
  case False
  then have "trunc (used / stepM) \<le> trunc (used' / stepM)"
    using assms(1) by (intro trunc_mono divide_right_mono) auto
  with False show ?thesis by (auto simp: bucketOf_def Let_def)
qed

definition state_of :: "int \<Rightarrow> nat \<Rightarrow> int \<Rightarrow> int" where
  "state_of nb e b = int e * nb + b"

lemma state_of_bounds:
  assumes "0 \<le> b" "b < nb" "e < n"
  shows "0 \<le> state_of nb e b \<and> state_of nb e b < int n * nb"
proof -
  have "int e * nb + nb \<le> int n * nb"
    using mult_right_mono [of "int e + 1" "int n" nb] assms by (simp add: algebra_simps)
  then show ?thesis using assms by (simp add: state_of_def)
qed

lemma stateIndex_eq:
  assumes fits: "int n * nb < 2147483648" and b: "0 \<le> b" "b < nb" and e: "e < n" and nb: "nb \<le> 16"
  shows "stateIndex (int e) b nb = state_of nb e b"
proof -
  have st: "0 \<le> int e * nb + b" "int e * nb + b < 2147483648"
    using state_of_bounds [OF b e] fits by (simp_all add: state_of_def)
  have e0: "0 \<le> int e * nb" "int e * nb < 2147483648" using st b by auto
  have "int32 (int e * nb) = int e * nb" using e0 by (intro int32_id) auto
  moreover have "int32 (int e * nb + b) = int e * nb + b" using st by (intro int32_id) auto
  ultimately show ?thesis using b nb by (simp add: stateIndex_def state_of_def int32_id)
qed

lemma edgeOf_state_of:
  assumes "0 \<le> b" "b < nb" "nb \<le> 16"
  shows "edgeOf (state_of nb e b) nb = int e"
  using assms by (simp add: edgeOf_def state_of_def int32_id)

lemma edgeOf_range:
  assumes "0 \<le> st" "st < int n * nb" "1 \<le> nb" "nb \<le> 16"
  shows "0 \<le> edgeOf st nb \<and> edgeOf st nb < int n"
proof -
  have "st div nb * nb < int n * nb"
    using div_mult_mod_eq [of st nb] pos_mod_sign [of nb st] assms by linarith
  then have "st div nb < int n" using assms(3) by (simp add: mult_less_cancel_right)
  then show ?thesis using assms by (simp add: edgeOf_def int32_id pos_imp_zdiv_nonneg_iff)
qed

lemma length_grow [simp]: "length (grow z s n) = n"
  by (simp add: grow_def)

end
