(* ===== verification/Search_Sound.thy ===== *)
theory Search_Sound
  imports Search Graph_Facts
begin

text \<open>
  What a returned route is.  \<open>reaches\<close> is the specification: the edge sequences a rider can
  follow under the constraints, with their cost and the budget metres carried in \<open>float32\<close>.
  Every finite state of the search stands for such a sequence (\<open>search_inv\<close>), kept by each step;
  so the route that is returned is contiguous, allowed and within the budget, its cost is the sum
  of its parts, and the search always returns.
\<close>

section \<open>Specification\<close>

definition next_used :: "options \<Rightarrow> graph \<Rightarrow> real \<Rightarrow> nat \<Rightarrow> real" where
  "next_used opt g spent e = (if is_over opt g e then spent + LengthM g ! e else spent)"

definition affordable :: "options \<Rightarrow> graph \<Rightarrow> real \<Rightarrow> nat \<Rightarrow> bool" where
  "affordable opt g spent e \<longleftrightarrow> allowed opt g e \<and>
     (is_over opt g e \<longrightarrow> next_used opt g spent e \<le> BudgetM opt)"

text \<open>The edges are listed from the last one back to the first.\<close>

inductive reaches :: "graph \<Rightarrow> options \<Rightarrow> nat \<Rightarrow> nat list \<Rightarrow> real \<Rightarrow> real \<Rightarrow> bool"
  for g opt start where
  first: "e \<in> set (out_list g start) \<Longrightarrow> affordable opt g 0 e \<Longrightarrow>
    reaches g opt start [e] (EdgeCost opt g e) (f32 (next_used opt g 0 e))"
| step: "reaches g opt start (e # es) c u \<Longrightarrow> f \<in> set (out_list g (To g ! e)) \<Longrightarrow>
    affordable opt g u f \<Longrightarrow>
    reaches g opt start (f # e # es) (c + EdgeCost opt g f + turn_cost opt g e f)
      (f32 (next_used opt g u f))"

inductive_cases reaches_ConsE: "reaches g opt start (f # es) c u"

definition search_ok :: "graph \<Rightarrow> options \<Rightarrow> bool" where
  "search_ok g opt \<longleftrightarrow> wf_graph g \<and> fits g opt \<and> (\<forall>e<NumEdges g. 0 \<le> LengthM g ! e)"

lemma search_ok_facts [wf_facts]:
  assumes "search_ok g opt"
  shows "wf_graph g" "wf_arrays g" "wf_offs g" "fits g opt"
    and "e < NumEdges g \<Longrightarrow> 0 \<le> LengthM g ! e"
  using assms by (auto simp: search_ok_def wf_graph_def)

section \<open>One improvement\<close>

text \<open>Seeding and relaxing both record a cheaper way into a state and queue it.\<close>

definition improve :: "graph \<Rightarrow> options \<Rightarrow> nat \<Rightarrow> nat \<Rightarrow> int \<Rightarrow> real \<Rightarrow> real \<Rightarrow> int \<Rightarrow> workspace \<Rightarrow> workspace" where
  "improve g opt goal e st c u p w = enqueue g opt goal e st c
     (w\<lparr>dist := (dist w)[nat st := Some c], usedM := (usedM w)[nat st := u],
        prev := (prev w)[nat st := p]\<rparr>)"

definition hval :: "graph \<Rightarrow> options \<Rightarrow> nat \<Rightarrow> nat \<Rightarrow> workspace \<Rightarrow> real" where
  "hval g opt goal e w = fst (heur g opt goal e w)"

lemma improve_fields [simp]:
  "dist (improve g opt goal e st c u p w) = (dist w)[nat st := Some c]"
  "usedM (improve g opt goal e st c u p w) = (usedM w)[nat st := u]"
  "prev (improve g opt goal e st c u p w) = (prev w)[nat st := p]"
  "settled (improve g opt goal e st c u p w) = settled w"
  "queue (improve g opt goal e st c u p w) =
     push (queue w) \<lparr>state = st, priority = c + hval g opt goal e w\<rparr>"
  "length (hcache (improve g opt goal e st c u p w)) = length (hcache w)"
  by (simp_all add: improve_def enqueue_def heur_def hval_def Let_def split: prod.splits if_splits)

text \<open>Whether an edge from budget \<open>spent\<close> may be entered at cost \<open>c\<close>, and in which state.\<close>

definition entry_state :: "graph \<Rightarrow> options \<Rightarrow> int \<Rightarrow> real \<Rightarrow> real \<Rightarrow> nat \<Rightarrow> int" where
  "entry_state g opt nb stepM spent e =
     state_of nb e (bucketOf (next_used opt g spent e) stepM nb)"

definition improves :: "graph \<Rightarrow> options \<Rightarrow> int \<Rightarrow> real \<Rightarrow> real \<Rightarrow> nat \<Rightarrow> real \<Rightarrow> workspace \<Rightarrow> bool" where
  "improves g opt nb stepM spent e c w \<longleftrightarrow> affordable opt g spent e \<and>
     \<not> settled w ! nat (entry_state g opt nb stepM spent e) \<and>
     cheaper c (dist w ! nat (entry_state g opt nb stepM spent e))"

definition sized :: "graph \<Rightarrow> int \<Rightarrow> workspace \<Rightarrow> bool" where
  "sized g nb w \<longleftrightarrow>
     length (dist w) = nat (int (NumEdges g) * nb) \<and> length (usedM w) = length (dist w) \<and>
     length (prev w) = length (dist w) \<and> length (settled w) = length (dist w) \<and>
     length (hcache w) = NumNodes g"

lemma sized_improve [simp]: "sized g nb (improve g opt goal e st c u p w) = sized g nb w"
  by (simp add: sized_def)

lemma next_used_nonneg:
  "search_ok g opt \<Longrightarrow> e < NumEdges g \<Longrightarrow> 0 \<le> spent \<Longrightarrow> 0 \<le> next_used opt g spent e"
  by (simp add: next_used_def search_ok_facts)

lemma entry_state_facts:
  assumes ok: "search_ok g opt" and e: "e < NumEdges g" and spent: "0 \<le> spent"
    and nb: "(nb, stepM) = budgetBuckets opt"
  shows "stateIndex (int e) (bucketOf (next_used opt g spent e) stepM nb) nb =
      entry_state g opt nb stepM spent e"
    and "0 \<le> entry_state g opt nb stepM spent e"
    and "entry_state g opt nb stepM spent e < int (NumEdges g) * nb"
    and "edgeOf (entry_state g opt nb stepM spent e) nb = int e"
proof -
  have nb_range: "1 \<le> nb" "nb \<le> 16" using budgetBuckets_range [of opt] nb [symmetric] by simp_all
  have b: "0 \<le> bucketOf (next_used opt g spent e) stepM nb"
    "bucketOf (next_used opt g spent e) stepM nb < nb"
    using bucketOf_range [OF nb_range(1) next_used_nonneg [OF ok e spent]] by auto
  have fits: "int (NumEdges g) * nb < 2147483648"
    using search_ok_facts(4) [OF ok] nb [symmetric] by (simp add: fits_def)
  show "stateIndex (int e) (bucketOf (next_used opt g spent e) stepM nb) nb =
      entry_state g opt nb stepM spent e"
    unfolding entry_state_def by (rule stateIndex_eq [OF fits b e nb_range(2)])
  show "0 \<le> entry_state g opt nb stepM spent e"
    "entry_state g opt nb stepM spent e < int (NumEdges g) * nb"
    unfolding entry_state_def using state_of_bounds [OF b e] by auto
  show "edgeOf (entry_state g opt nb stepM spent e) nb = int e"
    unfolding entry_state_def by (rule edgeOf_state_of [OF b nb_range(2)])
qed

lemma in_states_iff: "sized g nb w \<Longrightarrow> 0 \<le> nb \<Longrightarrow> in_states w st \<longleftrightarrow> 0 \<le> st \<and> st < int (NumEdges g) * nb"
  by (auto simp: sized_def in_states_def)

lemma seed_step_cases:
  assumes ok: "search_ok g opt" and e: "e < NumEdges g"
    and nb: "(nb, stepM) = budgetBuckets opt" and w: "sized g nb w"
    and fresh: "\<not> settled w ! nat (entry_state g opt nb stepM 0 e)"
  shows "seed_step g opt goal nb stepM e w = Ok
     (if improves g opt nb stepM 0 e (EdgeCost opt g e) w
      then let st = entry_state g opt nb stepM 0 e
           in improve g opt goal e st (EdgeCost opt g e) (f32 (next_used opt g 0 e)) (prev w ! nat st) w
      else w)"
proof -
  have nb_range: "1 \<le> nb" using budgetBuckets_range [of opt] nb [symmetric] by simp
  have "in_states w (entry_state g opt nb stepM 0 e)"
    using entry_state_facts [OF ok e _ nb] in_states_iff [OF w] nb_range by auto
  moreover have "stateIndex (int e) (bucketOf (if is_over opt g e then LengthM g ! e else 0) stepM nb) nb
      = entry_state g opt nb stepM 0 e"
    using entry_state_facts(1) [OF ok e order_refl nb] by (simp add: next_used_def cong: if_cong)
  ultimately show ?thesis
    using fresh
    by (auto simp: seed_step_def improves_def affordable_def next_used_def improve_def Let_def
        list_update_id)
qed

lemma relax_step_cases:
  assumes ok: "search_ok g opt" and f: "f < NumEdges g" and spent: "0 \<le> spent"
    and nb: "(nb, stepM) = budgetBuckets opt" and w: "sized g nb w"
    and d: "dist w ! nat st = Some d"
  shows "relax_step g opt goal nb stepM st e spent f w = Ok
     (let nd = d + EdgeCost opt g f + turn_cost opt g e f
      in if improves g opt nb stepM spent f nd w
         then improve g opt goal f (entry_state g opt nb stepM spent f) nd
                (f32 (next_used opt g spent f)) st w
         else w)"
proof -
  have nb_range: "1 \<le> nb" using budgetBuckets_range [of opt] nb [symmetric] by simp
  have "in_states w (entry_state g opt nb stepM spent f)"
    using entry_state_facts [OF ok f spent nb] in_states_iff [OF w] nb_range by auto
  moreover have "stateIndex (int f)
      (bucketOf (if is_over opt g f then spent + LengthM g ! f else spent) stepM nb) nb
      = entry_state g opt nb stepM spent f"
    using entry_state_facts(1) [OF ok f spent nb] by (simp add: next_used_def cong: if_cong)
  ultimately show ?thesis
    using d
    by (auto simp: relax_step_def improves_def affordable_def next_used_def improve_def Let_def)
qed

section \<open>The invariant\<close>

text \<open>The predecessors of a state lead through settled states to a first edge.\<close>

inductive linked :: "int list \<Rightarrow> bool list \<Rightarrow> int \<Rightarrow> int \<Rightarrow> nat list \<Rightarrow> bool" for prv dn nb where
  root: "0 \<le> st \<Longrightarrow> st < int (length prv) \<Longrightarrow> prv ! nat st = - 1 \<Longrightarrow>
    linked prv dn nb st [nat (edgeOf st nb)]"
| hop: "0 \<le> st \<Longrightarrow> st < int (length prv) \<Longrightarrow> p = prv ! nat st \<Longrightarrow> dn ! nat p \<Longrightarrow>
    linked prv dn nb p es \<Longrightarrow> linked prv dn nb st (nat (edgeOf st nb) # es)"

lemma linked_range: "linked prv dn nb st es \<Longrightarrow> 0 \<le> st \<and> st < int (length prv)"
  by (erule linked.cases) auto

lemma linked_hd: "linked prv dn nb st es \<Longrightarrow> \<exists>es'. es = nat (edgeOf st nb) # es'"
  by (erule linked.cases) auto

lemma linked_update:
  assumes "linked prv dn nb st es" and "\<not> dn ! i" and "nat st \<noteq> i"
  shows "linked (prv[i := x]) dn nb st es"
  using assms
proof (induction rule: linked.induct)
  case (root st)
  then show ?case by (intro linked.root) auto
next
  case (hop st p es)
  then have "nat p \<noteq> i" by auto
  with hop show ?case by (intro linked.hop [where p = p]) auto
qed

lemma linked_settle: "linked prv dn nb st es \<Longrightarrow> linked prv (dn[i := True]) nb st es"
proof (induction rule: linked.induct)
  case (hop st p es)
  then show ?case by (intro linked.hop [where p = p]) (auto simp: nth_update_eq_if)
qed (rule linked.root)

lemma linked_walk: "linked prv dn nb st es \<Longrightarrow> chain prv nb st acc = Some (Ok (acc @ es))"
proof (induction arbitrary: acc rule: linked.induct)
  case (root st)
  then have "chain prv nb st acc = chain prv nb (- 1) (acc @ [nat (edgeOf st nb)])"
    by (subst chain.simps) simp
  also have "\<dots> = Some (Ok (acc @ [nat (edgeOf st nb)]))" by (subst chain.simps) simp
  finally show ?case .
next
  case (hop st p es)
  then show ?case by (subst chain.simps) simp
qed

definition state_ok :: "graph \<Rightarrow> options \<Rightarrow> nat \<Rightarrow> int \<Rightarrow> workspace \<Rightarrow> int \<Rightarrow> bool" where
  "state_ok g opt start nb w st \<longleftrightarrow> (\<forall>c. dist w ! nat st = Some c \<longrightarrow>
     (\<exists>es. linked (prev w) (settled w) nb st es \<and> reaches g opt start es c (usedM w ! nat st)))"

definition search_inv :: "graph \<Rightarrow> options \<Rightarrow> nat \<Rightarrow> int \<Rightarrow> workspace \<Rightarrow> bool" where
  "search_inv g opt start nb w \<longleftrightarrow> sized g nb w \<and> heap (queue w) \<and>
     (\<forall>it\<in>set (queue w). 0 \<le> state it \<and> state it < int (NumEdges g) * nb \<and>
        dist w ! nat (state it) \<noteq> None) \<and>
     (\<forall>st. 0 \<le> st \<longrightarrow> st < int (NumEdges g) * nb \<longrightarrow> state_ok g opt start nb w st)"

lemma search_inv_facts:
  assumes "search_inv g opt start nb w"
  shows "sized g nb w" "heap (queue w)"
    and "it \<in> set (queue w) \<Longrightarrow> 0 \<le> state it \<and> state it < int (NumEdges g) * nb"
    and "it \<in> set (queue w) \<Longrightarrow> \<exists>c. dist w ! nat (state it) = Some c"
    and "0 \<le> st \<Longrightarrow> st < int (NumEdges g) * nb \<Longrightarrow> state_ok g opt start nb w st"
  using assms by (auto simp: search_inv_def)

lemma search_inv_improve:
  assumes inv: "search_inv g opt start nb w" and st: "0 \<le> st" "st < int (NumEdges g) * nb"
    and undone: "\<not> settled w ! nat st"
    and lk: "linked ((prev w)[nat st := p]) (settled w) nb st es"
    and rc: "reaches g opt start es c u"
  shows "search_inv g opt start nb (improve g opt goal e st c u p w)"
proof -
  let ?w = "improve g opt goal e st c u p w"
  have sz: "sized g nb w" by (rule search_inv_facts [OF inv])
  have i: "nat st < length (dist w)" "nat st < length (usedM w)" using sz st by (auto simp: sized_def)
  have "state_ok g opt start nb ?w s" if s: "0 \<le> s" "s < int (NumEdges g) * nb" for s
  proof (cases "s = st")
    case True
    then show ?thesis using lk rc i by (auto simp: state_ok_def)
  next
    case False
    then have ne: "nat s \<noteq> nat st" using s st by auto
    have "state_ok g opt start nb w s" by (rule search_inv_facts(5) [OF inv s])
    then show ?thesis using ne linked_update [OF _ undone ne] by (fastforce simp: state_ok_def)
  qed
  moreover have "heap (queue ?w)"
    using sq.enq_inv [OF search_inv_facts(2) [OF inv]] by simp
  moreover have "0 \<le> state it \<and> state it < int (NumEdges g) * nb \<and> dist ?w ! nat (state it) \<noteq> None"
    if "it \<in> set (queue ?w)" for it
  proof (cases "it \<in> set (queue w)")
    case True
    then show ?thesis
      using search_inv_facts(3,4) [OF inv True] by (cases "nat (state it) = nat st") (auto simp: i)
  next
    case False
    then have "state it = st" using that by simp
    then show ?thesis using st i by simp
  qed
  ultimately show ?thesis using sz by (simp add: search_inv_def)
qed

lemma reaches_used_nonneg:
  assumes ok: "search_ok g opt" and "start < NumNodes g"
  shows "reaches g opt start es c u \<Longrightarrow> 0 \<le> u \<and> es \<noteq> [] \<and> (\<forall>e\<in>set es. e < NumEdges g)"
proof (induction rule: reaches.induct)
  case (first e)
  then have "e < NumEdges g" using set_out_list [OF search_ok_facts(3) [OF ok] assms(2)] by simp
  then show ?case using next_used_nonneg [OF ok] by simp
next
  case (step e es c u f)
  then have "To g ! e < NumNodes g"
    using wf_endpoints [OF search_ok_facts(2) [OF ok]] by simp
  then have "f < NumEdges g" using step set_out_list [OF search_ok_facts(3) [OF ok]] by simp
  then show ?case using step next_used_nonneg [OF ok] by simp
qed

section \<open>The loop rule\<close>

definition top_state :: "workspace \<Rightarrow> int" where
  "top_state w = state (fst (pop (queue w)))"

definition drop_top :: "workspace \<Rightarrow> workspace" where
  "drop_top w = w\<lparr>queue := snd (pop (queue w))\<rparr>"

definition settle_top :: "workspace \<Rightarrow> workspace" where
  "settle_top w = (drop_top w)\<lparr>settled := (settled w)[nat (top_state w) := True]\<rparr>"

lemma drop_top_fields [simp]:
  "dist (drop_top w) = dist w" "usedM (drop_top w) = usedM w" "prev (drop_top w) = prev w"
  "settled (drop_top w) = settled w" "hcache (drop_top w) = hcache w"
  "queue (drop_top w) = snd (pop (queue w))"
  by (simp_all add: drop_top_def)

lemma settle_top_fields [simp]:
  "dist (settle_top w) = dist w" "usedM (settle_top w) = usedM w" "prev (settle_top w) = prev w"
  "settled (settle_top w) = (settled w)[nat (top_state w) := True]"
  "hcache (settle_top w) = hcache w" "queue (settle_top w) = snd (pop (queue w))"
  by (simp_all add: settle_top_def)

definition top_edge :: "int \<Rightarrow> workspace \<Rightarrow> nat" where
  "top_edge nb w = nat (edgeOf (top_state w) nb)"

definition relax_all :: "graph \<Rightarrow> options \<Rightarrow> nat \<Rightarrow> int \<Rightarrow> real \<Rightarrow> workspace \<Rightarrow> (search_err, workspace) outcome" where
  "relax_all g opt goal nb stepM w =
     foldM (relax_step g opt goal nb stepM (top_state w) (top_edge nb w) (usedM w ! nat (top_state w)))
       (out_list g (To g ! top_edge nb w)) (settle_top w)"

lemma search_loop_unfold:
  "search_loop g opt goal nb stepM maxExp n w =
     (if queue w = [] then Err ErrUnroutable
      else if top_state w < 0 \<or> top_state w \<ge> int (length (settled w)) then Panic
      else if settled w ! nat (top_state w) then search_loop g opt goal nb stepM maxExp n (drop_top w)
      else if n + 1 > maxExp then Err ErrUnroutable
      else if To g ! top_edge nb w = goal then Ok (top_state w, n + 1, settle_top w)
      else case relax_all g opt goal nb stepM w of
          Ok w3 \<Rightarrow> search_loop g opt goal nb stepM maxExp (n + 1) w3
        | Err x \<Rightarrow> Err x
        | Panic \<Rightarrow> Panic)"
  by (subst search_loop.simps)
    (simp add: Let_def top_state_def drop_top_def settle_top_def top_edge_def relax_all_def
      cong: if_cong)

lemma drop_top_decreases:
  assumes "queue w \<noteq> []"
  shows "(drop_top w, w) \<in> measures [unsettled, \<lambda>w. length (queue w)]"
  using length_pop [OF assms, of "fst (pop (queue w))" "snd (pop (queue w))"]
  by (simp add: unsettled_def)

lemma relax_all_decreases:
  assumes "0 \<le> top_state w" "top_state w < int (length (settled w))" "\<not> settled w ! nat (top_state w)"
    and "relax_all g opt goal nb stepM w = Ok w'"
  shows "(w', w) \<in> measures [unsettled, \<lambda>w. length (queue w)]"
proof -
  have "settled w' = settled (settle_top w)"
    using assms(4) unfolding relax_all_def by (rule settled_relax_all)
  then show ?thesis
    using unsettled_settle [of "nat (top_state w)" w] assms by (simp add: unsettled_def)
qed

text \<open>
  To show what the loop returns: an invariant that gives each way out of the loop, and that
  skipping a settled state and expanding an unsettled one keep.
\<close>

lemma search_loop_rule:
  assumes init: "I n w"
    and range: "\<And>n w. I n w \<Longrightarrow> queue w \<noteq> [] \<Longrightarrow>
      0 \<le> top_state w \<and> top_state w < int (length (settled w))"
    and skip: "\<And>n w. I n w \<Longrightarrow> queue w \<noteq> [] \<Longrightarrow> settled w ! nat (top_state w) \<Longrightarrow> I n (drop_top w)"
    and expand: "\<And>n w. I n w \<Longrightarrow> queue w \<noteq> [] \<Longrightarrow> \<not> settled w ! nat (top_state w) \<Longrightarrow> n + 1 \<le> maxExp \<Longrightarrow>
      To g ! top_edge nb w \<noteq> goal \<Longrightarrow> \<exists>w'. relax_all g opt goal nb stepM w = Ok w' \<and> I (n + 1) w'"
    and found: "\<And>n w. I n w \<Longrightarrow> queue w \<noteq> [] \<Longrightarrow> \<not> settled w ! nat (top_state w) \<Longrightarrow> n + 1 \<le> maxExp \<Longrightarrow>
      To g ! top_edge nb w = goal \<Longrightarrow> Q (Ok (top_state w, n + 1, settle_top w))"
    and empty: "\<And>n w. I n w \<Longrightarrow> queue w = [] \<Longrightarrow> Q (Err ErrUnroutable)"
    and limit: "\<And>n w. I n w \<Longrightarrow> queue w \<noteq> [] \<Longrightarrow> \<not> settled w ! nat (top_state w) \<Longrightarrow> maxExp < n + 1 \<Longrightarrow>
      Q (Err ErrUnroutable)"
  shows "Q (search_loop g opt goal nb stepM maxExp n w)"
  using init
proof (induction w arbitrary: n rule: wf_induct_rule [OF wf_measures [of "[unsettled, \<lambda>w. length (queue w)]"]])
  case (1 w)
  note IH = 1(1)
  note \<open>I n w\<close>
  show ?case
  proof (cases "queue w = []")
    case True
    then show ?thesis using empty [OF 1(2)] by (simp add: search_loop_unfold)
  next
    case ne: False
    note r = range [OF 1(2) ne]
    show ?thesis
    proof (cases "settled w ! nat (top_state w)")
      case True
      then have "Q (search_loop g opt goal nb stepM maxExp n (drop_top w))"
        using 1(1) [OF drop_top_decreases [OF ne]] skip [OF 1(2) ne] by simp
      then show ?thesis using ne r True by (subst search_loop_unfold) auto
    next
      case fresh: False
      consider "maxExp < n + 1" | "n + 1 \<le> maxExp" "To g ! top_edge nb w = goal"
        | "n + 1 \<le> maxExp" "To g ! top_edge nb w \<noteq> goal" by linarith
      then show ?thesis
      proof cases
        case 1
        then show ?thesis
          using limit [OF \<open>I n w\<close> ne fresh] ne r fresh by (subst search_loop_unfold) auto
      next
        case 2
        then show ?thesis
          using found [OF \<open>I n w\<close> ne fresh] ne r fresh by (subst search_loop_unfold) auto
      next
        case 3
        then obtain w' where w': "relax_all g opt goal nb stepM w = Ok w'" "I (n + 1) w'"
          using expand [OF \<open>I n w\<close> ne fresh] by blast
        then have "Q (search_loop g opt goal nb stepM maxExp (n + 1) w')"
          using IH relax_all_decreases [OF _ _ fresh w'(1)] r by blast
        then show ?thesis using ne r fresh 3 w'(1) by (subst search_loop_unfold) auto
      qed
    qed
  qed
qed

section \<open>The loop keeps the invariant\<close>

lemma pop_mem:
  assumes "queue w \<noteq> []"
  shows "fst (pop (queue w)) \<in> set (queue w)" and "set (snd (pop (queue w))) \<subseteq> set (queue w)"
proof -
  have "mset (queue w) = add_mset (fst (pop (queue w))) (mset (snd (pop (queue w))))"
    using mset_pop [OF assms] by simp
  then have "set_mset (mset (queue w)) = insert (fst (pop (queue w))) (set (snd (pop (queue w))))"
    by simp
  then show "fst (pop (queue w)) \<in> set (queue w)" "set (snd (pop (queue w))) \<subseteq> set (queue w)" by auto
qed

lemma top_state_facts:
  assumes "search_inv g opt start nb w" and "queue w \<noteq> []"
  shows "0 \<le> top_state w" "top_state w < int (NumEdges g) * nb"
    "nat (top_state w) < length (dist w)" "nat (top_state w) < length (settled w)"
    and "\<exists>c. dist w ! nat (top_state w) = Some c"
proof -
  note inv = search_inv_facts [OF assms(1)]
  show st: "0 \<le> top_state w" "top_state w < int (NumEdges g) * nb"
    and "\<exists>c. dist w ! nat (top_state w) = Some c"
    using inv(3,4) pop_mem(1) [OF assms(2)] by (auto simp: top_state_def)
  show "nat (top_state w) < length (dist w)" "nat (top_state w) < length (settled w)"
    using inv(1) st by (auto simp: sized_def)
qed

lemma inv_drop_top:
  assumes "search_inv g opt start nb w" and "queue w \<noteq> []"
  shows "search_inv g opt start nb (drop_top w)"
proof -
  have "heap (snd (pop (queue w)))"
    using heap_pop [OF search_inv_facts(2) [OF assms(1)] assms(2), of "fst (pop (queue w))"] by simp
  then show ?thesis
    using assms pop_mem(2) [OF assms(2)]
    by (auto simp: search_inv_def sized_def state_ok_def subset_iff)
qed

lemma inv_settle_top:
  assumes "search_inv g opt start nb w" and "queue w \<noteq> []"
  shows "search_inv g opt start nb (settle_top w)"
proof -
  have inv: "search_inv g opt start nb (drop_top w)" by (rule inv_drop_top [OF assms])
  have "state_ok g opt start nb (settle_top w) st" if "0 \<le> st" "st < int (NumEdges g) * nb" for st
    using search_inv_facts(5) [OF inv that] linked_settle by (fastforce simp: state_ok_def)
  then show ?thesis using inv by (simp add: search_inv_def sized_def)
qed

text \<open>
  Expanding a state: \<open>P\<close> is an invariant on the out-edges done so far, kept whether the next one
  improves its state or not.
\<close>

lemma relax_all_rule:
  fixes P :: "nat list \<Rightarrow> workspace \<Rightarrow> bool"
  assumes ok: "search_ok g opt" and start: "start < NumNodes g"
    and nb: "(nb, stepM) = budgetBuckets opt"
    and inv: "search_inv g opt start nb w0" and ne: "queue w0 \<noteq> []"
    and d: "dist w0 ! nat (top_state w0) = Some d"
    and init: "P [] (settle_top w0)"
    and better: "\<And>ys f zs w nd.
      out_list g (To g ! top_edge nb w0) = ys @ f # zs \<Longrightarrow> P ys w \<Longrightarrow> search_inv g opt start nb w \<Longrightarrow>
      settled w = settled (settle_top w0) \<Longrightarrow>
      dist w ! nat (top_state w0) = Some d \<Longrightarrow>
      nd = d + EdgeCost opt g f + turn_cost opt g (top_edge nb w0) f \<Longrightarrow>
      improves g opt nb stepM (usedM w0 ! nat (top_state w0)) f nd w \<Longrightarrow>
      P (ys @ [f]) (improve g opt goal f (entry_state g opt nb stepM (usedM w0 ! nat (top_state w0)) f)
        nd (f32 (next_used opt g (usedM w0 ! nat (top_state w0)) f)) (top_state w0) w)"
    and same: "\<And>ys f zs w nd.
      out_list g (To g ! top_edge nb w0) = ys @ f # zs \<Longrightarrow> P ys w \<Longrightarrow> search_inv g opt start nb w \<Longrightarrow>
      settled w = settled (settle_top w0) \<Longrightarrow>
      dist w ! nat (top_state w0) = Some d \<Longrightarrow>
      nd = d + EdgeCost opt g f + turn_cost opt g (top_edge nb w0) f \<Longrightarrow>
      \<not> improves g opt nb stepM (usedM w0 ! nat (top_state w0)) f nd w \<Longrightarrow> P (ys @ [f]) w"
  shows "\<exists>w'. relax_all g opt goal nb stepM w0 = Ok w' \<and> P (out_list g (To g ! top_edge nb w0)) w' \<and>
    search_inv g opt start nb w' \<and> settled w' = settled (settle_top w0)"
proof -
  let ?st = "top_state w0" and ?e = "top_edge nb w0"
  let ?spent = "usedM w0 ! nat ?st"
  note st = top_state_facts [OF inv ne]
  have nb_range: "1 \<le> nb" "nb \<le> 16" using budgetBuckets_range [of opt] nb [symmetric] by simp_all
  let ?I = "\<lambda>ys w. P ys w \<and> search_inv g opt start nb w \<and> settled w = settled (settle_top w0) \<and>
    dist w ! nat ?st = Some d \<and> usedM w ! nat ?st = ?spent"
  have e: "?e < NumEdges g"
    using edgeOf_range [OF st(1,2) nb_range] by (simp add: top_edge_def nat_less_iff)
  then have node: "To g ! ?e < NumNodes g" using wf_endpoints(2) [OF search_ok_facts(2) [OF ok]] by simp
  have step: "\<exists>w'. relax_step g opt goal nb stepM ?st ?e ?spent f w = Ok w' \<and> ?I (ys @ [f]) w'"
    if split: "out_list g (To g ! ?e) = ys @ f # zs" and I: "?I ys w" for ys f zs w
  proof -
    from I have P: "P ys w" and inv': "search_inv g opt start nb w"
      and sd: "settled w = settled (settle_top w0)" and dw: "dist w ! nat ?st = Some d"
      and uw: "usedM w ! nat ?st = ?spent" by auto
    have f: "f \<in> set (out_list g (To g ! ?e))" using split by simp
    then have fE: "f < NumEdges g" using set_out_list [OF search_ok_facts(3) [OF ok] node] by simp
    obtain es where es: "linked (prev w) (settled w) nb ?st es" "reaches g opt start es d ?spent"
      using search_inv_facts(5) [OF inv' st(1,2)] dw uw by (auto simp: state_ok_def)
    then have spent: "0 \<le> ?spent" using reaches_used_nonneg [OF ok start] by blast
    let ?nd = "d + EdgeCost opt g f + turn_cost opt g ?e f"
    let ?nst = "entry_state g opt nb stepM ?spent f"
    note eq = relax_step_cases [OF ok fE spent nb search_inv_facts(1) [OF inv'] dw, of goal ?e, unfolded Let_def]
    show ?thesis
    proof (cases "improves g opt nb stepM ?spent f ?nd w")
      case False
      then have "P (ys @ [f]) w" by (rule same [OF split P inv' sd dw refl])
      with False I show ?thesis by (simp add: eq)
    next
      case True
      let ?w = "improve g opt goal f ?nst ?nd (f32 (next_used opt g ?spent f)) ?st w"
      note nst = entry_state_facts(2-4) [OF ok fE spent nb]
      from True have undone: "\<not> settled w ! nat ?nst" by (simp add: improves_def)
      have dn: "settled w ! nat ?st" using st(4) sd by simp
      have ne': "nat ?nst \<noteq> nat ?st" using undone dn by auto
      obtain es' where es': "es = ?e # es'" using linked_hd [OF es(1)] by (auto simp: top_edge_def)
      have "linked ((prev w)[nat ?nst := ?st]) (settled w) nb ?nst (f # es)"
      proof -
        have len: "length (prev w) = nat (int (NumEdges g) * nb)"
          using search_inv_facts(1) [OF inv'] by (simp add: sized_def)
        have "linked ((prev w)[nat ?nst := ?st]) (settled w) nb ?nst (nat (edgeOf ?nst nb) # es)"
          using linked_update [OF es(1) undone ne' [symmetric]] nst dn len
          by (intro linked.hop [where p = ?st]) auto
        then show ?thesis using nst by simp
      qed
      moreover have "reaches g opt start (f # es) ?nd (f32 (next_used opt g ?spent f))"
        using reaches.step [OF es(2) [unfolded es'] f] True es' by (simp add: improves_def)
      ultimately have "search_inv g opt start nb ?w"
        by (rule search_inv_improve [OF inv' nst(1,2) undone])
      moreover have "P (ys @ [f]) ?w" by (rule better [OF split P inv' sd dw refl True])
      ultimately show ?thesis using True ne' sd dw uw by (simp add: eq)
    qed
  qed
  have "\<exists>w'. relax_all g opt goal nb stepM w0 = Ok w' \<and> ?I (out_list g (To g ! ?e)) w'"
    unfolding relax_all_def
    by (rule foldM_prefix_rule [where P = ?I]) (use step init inv_settle_top [OF inv ne] d in auto)
  then show ?thesis by blast
qed

section \<open>Seeding\<close>

lemma getWorkspace_fields:
  "length (dist (getWorkspace p n k)) = n" "length (usedM (getWorkspace p n k)) = n"
  "length (prev (getWorkspace p n k)) = n" "length (settled (getWorkspace p n k)) = n"
  "length (hcache (getWorkspace p n k)) = k" "queue (getWorkspace p n k) = []"
  "i < n \<Longrightarrow> dist (getWorkspace p n k) ! i = None"
  "i < n \<Longrightarrow> prev (getWorkspace p n k) ! i = - 1"
  "i < n \<Longrightarrow> \<not> settled (getWorkspace p n k) ! i"
  "i < k \<Longrightarrow> hcache (getWorkspace p n k) ! i = - 1"
  by (simp_all add: getWorkspace_def Let_def)

lemma getWorkspace_inv:
  assumes "0 \<le> nb"
  shows "search_inv g opt start nb (getWorkspace p (nat (int (NumEdges g) * nb)) (NumNodes g))"
proof -
  have "nat st < nat (int (NumEdges g) * nb)" if "0 \<le> st" "st < int (NumEdges g) * nb" for st
    using that by simp
  then show ?thesis
    by (simp add: search_inv_def sized_def getWorkspace_fields state_ok_def)
qed

text \<open>Seeding starts from arrays in which nothing is settled and no state has a predecessor.\<close>

definition unlinked :: "workspace \<Rightarrow> bool" where
  "unlinked w \<longleftrightarrow> (\<forall>b\<in>set (settled w). \<not> b) \<and> (\<forall>p\<in>set (prev w). p = - 1)"

lemma unlinked_getWorkspace: "unlinked (getWorkspace p n k)"
  by (auto simp: unlinked_def in_set_conv_nth getWorkspace_fields)

definition seed_all :: "graph \<Rightarrow> options \<Rightarrow> nat \<Rightarrow> int \<Rightarrow> real \<Rightarrow> nat \<Rightarrow> workspace \<Rightarrow> (search_err, workspace) outcome" where
  "seed_all g opt goal nb stepM start w = foldM (seed_step g opt goal nb stepM) (out_list g start) w"

lemma seed_all_rule:
  fixes P :: "nat list \<Rightarrow> workspace \<Rightarrow> bool"
  assumes ok: "search_ok g opt" and start: "start < NumNodes g"
    and nb: "(nb, stepM) = budgetBuckets opt"
    and inv: "search_inv g opt start nb w0" and un: "unlinked w0" and init: "P [] w0"
    and better: "\<And>ys f zs w. out_list g start = ys @ f # zs \<Longrightarrow> P ys w \<Longrightarrow>
      search_inv g opt start nb w \<Longrightarrow> unlinked w \<Longrightarrow> improves g opt nb stepM 0 f (EdgeCost opt g f) w \<Longrightarrow>
      P (ys @ [f]) (improve g opt goal f (entry_state g opt nb stepM 0 f) (EdgeCost opt g f)
        (f32 (next_used opt g 0 f)) (- 1) w)"
    and same: "\<And>ys f zs w. out_list g start = ys @ f # zs \<Longrightarrow> P ys w \<Longrightarrow>
      search_inv g opt start nb w \<Longrightarrow> unlinked w \<Longrightarrow> \<not> improves g opt nb stepM 0 f (EdgeCost opt g f) w \<Longrightarrow>
      P (ys @ [f]) w"
  shows "\<exists>w. seed_all g opt goal nb stepM start w0 = Ok w \<and> P (out_list g start) w \<and>
    search_inv g opt start nb w \<and> unlinked w"
  unfolding seed_all_def
proof (rule foldM_prefix_rule [where P = "\<lambda>ys w. P ys w \<and> search_inv g opt start nb w \<and> unlinked w"])
  show "P [] w0 \<and> search_inv g opt start nb w0 \<and> unlinked w0" using inv un init by simp
next
  fix ys f zs w
  assume split: "out_list g start = ys @ f # zs"
    and I: "P ys w \<and> search_inv g opt start nb w \<and> unlinked w"
  then have P: "P ys w" and inv': "search_inv g opt start nb w" and un': "unlinked w" by auto
  have f: "f \<in> set (out_list g start)" using split by simp
  then have fE: "f < NumEdges g" using set_out_list [OF search_ok_facts(3) [OF ok] start] by simp
  let ?st = "entry_state g opt nb stepM 0 f" and ?c = "EdgeCost opt g f"
  note st = entry_state_facts(2-4) [OF ok fE order_refl nb]
  have sz: "nat ?st < length (settled w)" "nat ?st < length (prev w)"
    using search_inv_facts(1) [OF inv'] st by (auto simp: sized_def)
  have undone: "\<not> settled w ! nat ?st" and nolink: "prev w ! nat ?st = - 1"
    using un' nth_mem [OF sz(1)] nth_mem [OF sz(2)] unfolding unlinked_def by blast+
  note eq = seed_step_cases [OF ok fE nb search_inv_facts(1) [OF inv'] undone, of goal, unfolded Let_def nolink]
  show "\<exists>w'. seed_step g opt goal nb stepM f w = Ok w' \<and>
      P (ys @ [f]) w' \<and> search_inv g opt start nb w' \<and> unlinked w'"
  proof (cases "improves g opt nb stepM 0 f ?c w")
    case False
    then have "P (ys @ [f]) w" by (rule same [OF split P inv' un'])
    with False inv' un' show ?thesis by (simp add: eq)
  next
    case True
    let ?w = "improve g opt goal f ?st ?c (f32 (next_used opt g 0 f)) (- 1) w"
    have same_prev: "(prev w)[nat ?st := - 1] = prev w"
      using nolink by (metis list_update_id)
    have "linked (prev w) (settled w) nb ?st [nat (edgeOf ?st nb)]"
      using st sz nolink by (intro linked.root) auto
    then have "linked ((prev w)[nat ?st := - 1]) (settled w) nb ?st [f]"
      using st same_prev by simp
    moreover have "reaches g opt start [f] ?c (f32 (next_used opt g 0 f))"
      using reaches.first [OF f] True by (simp add: improves_def)
    ultimately have "search_inv g opt start nb ?w"
      by (rule search_inv_improve [OF inv' st(1,2) undone])
    moreover have "unlinked ?w" using un' by (simp only: unlinked_def improve_fields same_prev)
    moreover have "P (ys @ [f]) ?w" by (rule better [OF split P inv' un' True])
    ultimately show ?thesis using True by (simp add: eq)
  qed
qed

section \<open>What the loop returns\<close>

text \<open>The state, the arrays and the effort with which the loop ends.\<close>

definition goal_state :: "graph \<Rightarrow> options \<Rightarrow> nat \<Rightarrow> nat \<Rightarrow> int \<Rightarrow> int \<times> int \<times> workspace \<Rightarrow> bool" where
  "goal_state g opt start goal nb r \<longleftrightarrow> (case r of (st, n, w) \<Rightarrow>
     search_inv g opt start nb w \<and> 0 \<le> st \<and> st < int (NumEdges g) * nb \<and>
     dist w ! nat st \<noteq> None \<and> To g ! nat (edgeOf st nb) = goal)"

lemma search_loop_returns:
  assumes ok: "search_ok g opt" and start: "start < NumNodes g"
    and nb: "(nb, stepM) = budgetBuckets opt" and inv: "search_inv g opt start nb w"
  shows "(\<lambda>r. r = Err ErrUnroutable \<or> (\<exists>x. r = Ok x \<and> goal_state g opt start goal nb x \<and>
      fst (snd x) \<le> maxExp))
    (search_loop g opt goal nb stepM maxExp n w)"
proof (rule search_loop_rule [where I = "\<lambda>n w. search_inv g opt start nb w"])
  show "search_inv g opt start nb w" by (rule inv)
next
  fix n w
  assume "search_inv g opt start nb w" "queue w \<noteq> []"
  then show "0 \<le> top_state w \<and> top_state w < int (length (settled w))"
    using top_state_facts [of g opt start nb w] by auto
next
  fix n w
  assume "search_inv g opt start nb w" "queue w \<noteq> []"
  then show "search_inv g opt start nb (drop_top w)" by (rule inv_drop_top)
next
  fix n w
  assume inv: "search_inv g opt start nb w" and ne: "queue w \<noteq> []"
  obtain d where d: "dist w ! nat (top_state w) = Some d" using top_state_facts(5) [OF inv ne] by blast
  show "\<exists>w'. relax_all g opt goal nb stepM w = Ok w' \<and> search_inv g opt start nb w'"
    using relax_all_rule [OF ok start nb inv ne d, of "\<lambda>_ _. True"] by blast
next
  fix n w
  assume inv: "search_inv g opt start nb w" and ne: "queue w \<noteq> []" and "n + 1 \<le> maxExp"
    and "To g ! top_edge nb w = goal"
  then show "Ok (top_state w, n + 1, settle_top w) = Err ErrUnroutable \<or>
      (\<exists>x. Ok (top_state w, n + 1, settle_top w) = Ok x \<and> goal_state g opt start goal nb x \<and>
        fst (snd x) \<le> maxExp)"
    using inv_settle_top [OF inv ne] top_state_facts [OF inv ne]
    by (auto simp: goal_state_def top_edge_def)
qed simp_all

section \<open>Routes\<close>

text \<open>What a rider asks of a route, in travel order.\<close>

definition route :: "graph \<Rightarrow> options \<Rightarrow> nat \<Rightarrow> nat \<Rightarrow> nat list \<Rightarrow> bool" where
  "route g opt start goal es \<longleftrightarrow> es \<noteq> [] \<and> From g ! hd es = start \<and> To g ! last es = goal \<and>
     successively (\<lambda>e f. To g ! e = From g ! f) es \<and>
     (\<forall>e\<in>set es. e < NumEdges g \<and> allowed opt g e)"

fun path_cost :: "graph \<Rightarrow> options \<Rightarrow> nat list \<Rightarrow> real" where
  "path_cost g opt [] = 0"
| "path_cost g opt [e] = EdgeCost opt g e"
| "path_cost g opt (e # f # es) = EdgeCost opt g e + turn_cost opt g e f + path_cost g opt (f # es)"

definition path_length :: "graph \<Rightarrow> nat list \<Rightarrow> real" where
  "path_length g es = sum_list (map (\<lambda>e. LengthM g ! e) es)"

text \<open>The true metres a route spends on edges over the rider's comfort.\<close>

definition exposure :: "options \<Rightarrow> graph \<Rightarrow> nat list \<Rightarrow> real" where
  "exposure opt g es = path_length g (filter (is_over opt g) es)"

lemma path_cost_snoc:
  "path_cost g opt (es @ [e, f]) = path_cost g opt (es @ [e]) + EdgeCost opt g f + turn_cost opt g e f"
proof (induction es)
  case (Cons x xs)
  then show ?case by (cases xs) auto
qed simp

lemma exposure_snoc:
  "exposure opt g (es @ [e]) = exposure opt g es + (if is_over opt g e then LengthM g ! e else 0)"
  by (simp add: exposure_def path_length_def)

lemma reaches_route:
  assumes ok: "search_ok g opt" and start: "start < NumNodes g"
  shows "reaches g opt start es c u \<Longrightarrow>
    route g opt start (To g ! hd es) (rev es) \<and> c = path_cost g opt (rev es)"
proof (induction rule: reaches.induct)
  case (first e)
  then have "e < NumEdges g" "From g ! e = start"
    using set_out_list [OF search_ok_facts(3) [OF ok] start] by auto
  then show ?case using first by (simp add: route_def affordable_def)
next
  case (step e es c u f)
  then have "e < NumEdges g" by (simp add: route_def)
  then have "To g ! e < NumNodes g" using wf_endpoints(2) [OF search_ok_facts(2) [OF ok]] by simp
  then have f: "f < NumEdges g" "From g ! f = To g ! e"
    using step(2) set_out_list [OF search_ok_facts(3) [OF ok]] by auto
  have "c + EdgeCost opt g f + turn_cost opt g e f = path_cost g opt (rev (f # e # es))"
    using step.IH by (simp add: path_cost_snoc [of g opt "rev es"])
  moreover have "route g opt start (To g ! f) (rev (f # e # es))"
    using step.IH step(3) f
    by (auto simp: route_def affordable_def successively_append_iff hd_append)
  ultimately show ?case by simp
qed

text \<open>
  Each over-threshold edge rounds the running total to \<open>float32\<close>, an error of at most
  \<open>BudgetM / 2 ^ 24\<close>; the check is made before the rounding, so the last one does not count.
\<close>

lemma reaches_exposure:
  assumes ok: "search_ok g opt" and start: "start < NumNodes g" and big: "2 powr (- 126) \<le> BudgetM opt"
  shows "reaches g opt start es c u \<Longrightarrow>
    u \<le> f32 (BudgetM opt) \<and>
    \<bar>u - exposure opt g (rev es)\<bar> \<le> real (length (filter (is_over opt g) es)) * (BudgetM opt / 2 ^ 24) \<and>
    (filter (is_over opt g) es \<noteq> [] \<longrightarrow> exposure opt g (rev es) \<le> BudgetM opt
      + real (length (filter (is_over opt g) es) - 1) * (BudgetM opt / 2 ^ 24)) \<and> f32 u = u"
proof (induction rule: reaches.induct)
  case (first e)
  then have e: "e < NumEdges g" using set_out_list [OF search_ok_facts(3) [OF ok] start] by auto
  have B: "0 \<le> BudgetM opt" using big by (rule order_trans [rotated]) simp
  then have B32: "0 \<le> f32 (BudgetM opt)" by simp
  show ?case
  proof (cases "is_over opt g e")
    case False
    then show ?thesis using B32 by (simp add: next_used_def exposure_def path_length_def)
  next
    case True
    then have le: "LengthM g ! e \<le> BudgetM opt" using first by (simp add: affordable_def next_used_def)
    have "\<bar>f32 (LengthM g ! e) - LengthM g ! e\<bar> \<le> BudgetM opt / 2 ^ 24"
      using f32_error_at_scale [of "LengthM g ! e" "BudgetM opt"] le big search_ok_facts(5) [OF ok e]
      by simp
    then show ?thesis
      using True le f32_mono [OF le] by (simp add: next_used_def exposure_def path_length_def)
  qed
next
  case (step e es c u f)
  let ?k = "length (filter (is_over opt g) (e # es))"
  show ?case
  proof (cases "is_over opt g f")
    case False
    then have "next_used opt g u f = u" by (simp add: next_used_def)
    moreover have "exposure opt g (rev (f # e # es)) = exposure opt g (rev (e # es))"
      using False exposure_snoc [of opt g "rev (e # es)" f] by simp
    ultimately show ?thesis using step.IH False by simp
  next
    case True
    have u: "0 \<le> u" "e < NumEdges g" using reaches_used_nonneg [OF ok start step(1)] by auto
    then have "f < NumEdges g"
      using step(2) set_out_list [OF search_ok_facts(3) [OF ok]]
        wf_endpoints(2) [OF search_ok_facts(2) [OF ok] u(2)] by auto
    then have n0: "0 \<le> next_used opt g u f" by (rule next_used_nonneg [OF ok _ u(1)])
    have le: "next_used opt g u f \<le> BudgetM opt" using step(3) True by (simp add: affordable_def)
    have eq: "next_used opt g u f = u + LengthM g ! f" using True by (simp add: next_used_def)
    have ex: "exposure opt g (rev (f # e # es)) = exposure opt g (rev (e # es)) + LengthM g ! f"
      using True exposure_snoc [of opt g "rev (e # es)" f] by simp
    have err: "\<bar>f32 (next_used opt g u f) - next_used opt g u f\<bar> \<le> BudgetM opt / 2 ^ 24"
      using f32_error_at_scale [of "next_used opt g u f" "BudgetM opt"] le big n0 by simp
    have IH: "\<bar>u - exposure opt g (rev (e # es))\<bar> \<le> real ?k * (BudgetM opt / 2 ^ 24)"
      using step.IH by simp
    have len: "length (filter (is_over opt g) (f # e # es)) = Suc ?k" using True by simp
    have grow: "real (Suc ?k) * (BudgetM opt / 2 ^ 24) = real ?k * (BudgetM opt / 2 ^ 24) + BudgetM opt / 2 ^ 24"
      by (simp add: algebra_simps)
    have "\<bar>f32 (next_used opt g u f) - exposure opt g (rev (f # e # es))\<bar>
        \<le> real (Suc ?k) * (BudgetM opt / 2 ^ 24)"
      using err IH unfolding grow eq ex by linarith
    moreover have "exposure opt g (rev (f # e # es)) \<le> BudgetM opt + real (Suc ?k - 1) * (BudgetM opt / 2 ^ 24)"
      using IH le unfolding ex eq diff_Suc_1 by linarith
    moreover have "f32 (next_used opt g u f) \<le> f32 (BudgetM opt)" using f32_mono [OF le] .
    ultimately show ?thesis unfolding len by simp
  qed
qed

section \<open>The search\<close>

lemma validate_None:
  assumes "fits g opt" and "validate g start goal = None"
  shows "0 \<le> start \<and> nat start < NumNodes g \<and> 0 \<le> goal \<and> nat goal < NumNodes g"
  using assms by (auto simp: validate_def Let_def fits_def int32_id split: if_splits)

lemma num_states:
  assumes "fits g opt" and "(nb, stepM) = budgetBuckets opt"
  shows "int32 (int (NumEdges g)) * nb = int (NumEdges g) * nb" and "0 \<le> int (NumEdges g) * nb"
proof -
  have nb: "1 \<le> nb" using budgetBuckets_range [of opt] assms(2) [symmetric] by simp
  have "int (NumEdges g) * nb < 2147483648" using assms(1) assms(2) [symmetric] by (simp add: fits_def)
  moreover have "int (NumEdges g) * 1 \<le> int (NumEdges g) * nb" using nb by (intro mult_left_mono) auto
  ultimately show "int32 (int (NumEdges g)) * nb = int (NumEdges g) * nb" by (simp add: int32_id)
  show "0 \<le> int (NumEdges g) * nb" using nb by simp
qed

definition run_loop :: "graph \<Rightarrow> options \<Rightarrow> nat \<Rightarrow> workspace \<Rightarrow> (search_err, int \<times> int \<times> workspace) outcome" where
  "run_loop g opt goal w = search_loop g opt goal (fst (budgetBuckets opt)) (snd (budgetBuckets opt))
     (expansion_limit opt) 0 w"

definition run_seed :: "graph \<Rightarrow> options \<Rightarrow> workspace option \<Rightarrow> nat \<Rightarrow> nat \<Rightarrow> (search_err, workspace) outcome" where
  "run_seed g opt pooled start goal = seed_all g opt goal (fst (budgetBuckets opt)) (snd (budgetBuckets opt)) start
     (getWorkspace pooled (nat (int (NumEdges g) * fst (budgetBuckets opt))) (NumNodes g))"

lemma Search_unfold:
  assumes "fits g opt" and "start \<noteq> goal" and "validate g start goal = None"
  shows "Search g pooled start goal opt =
     (case run_seed g opt pooled (nat start) (nat goal) of
        Panic \<Rightarrow> Some Panic
      | Err x \<Rightarrow> Some (Err x)
      | Ok w \<Rightarrow> (case run_loop g opt (nat goal) w of
           Panic \<Rightarrow> Some Panic
         | Err x \<Rightarrow> Some (Err x)
         | Ok (st, expansions, w) \<Rightarrow> (case dist w ! nat st of
             None \<Rightarrow> Some Panic
           | Some c \<Rightarrow> buildPath g (prev w) st (fst (budgetBuckets opt)) c (usedM w ! nat st) expansions)))"
proof -
  obtain nb stepM where nb: "budgetBuckets opt = (nb, stepM)" by fastforce
  note n = num_states [OF assms(1) nb [symmetric]]
  then have "\<not> int (NumEdges g) * nb < 0" by simp
  then show ?thesis
    unfolding Search_def nb run_loop_def run_seed_def seed_all_def Let_def prod.case n(1)
      fst_conv snd_conv
    using assms(2,3) by simp
qed

lemma run_seed_returns:
  assumes "search_ok g opt" and "start < NumNodes g"
  shows "\<exists>w. run_seed g opt pooled start goal = Ok w \<and>
    search_inv g opt start (fst (budgetBuckets opt)) w \<and> unlinked w"
  unfolding run_seed_def
  using seed_all_rule [OF assms, of "fst (budgetBuckets opt)" "snd (budgetBuckets opt)" _ "\<lambda>_ _. True"]
    getWorkspace_inv [of "fst (budgetBuckets opt)"] unlinked_getWorkspace budgetBuckets_range [of opt]
  by force

text \<open>A found path: what \<open>reaches\<close> says of it.\<close>

definition found_path :: "graph \<Rightarrow> options \<Rightarrow> nat \<Rightarrow> nat \<Rightarrow> path \<Rightarrow> bool" where
  "found_path g opt start goal p \<longleftrightarrow>
     reaches g opt start (rev (pEdges p)) (pCost p) (pBudgetUsedM p) \<and>
     To g ! last (pEdges p) = goal \<and> pLengthM p = path_length g (pEdges p)"

lemma buildPath_returns:
  assumes "goal_state g opt start goal nb (st, n, w)"
  shows "\<exists>c p. dist w ! nat st = Some c \<and>
    buildPath g (prev w) st nb c (usedM w ! nat st) n = Some (Ok p) \<and>
    found_path g opt start goal p \<and> pCost p = c \<and> pExpansions p = n"
proof -
  from assms have inv: "search_inv g opt start nb w" and st: "0 \<le> st" "st < int (NumEdges g) * nb"
    and "dist w ! nat st \<noteq> None" and goal: "To g ! nat (edgeOf st nb) = goal"
    by (auto simp: goal_state_def)
  then obtain c where c: "dist w ! nat st = Some c" by auto
  then obtain es where es: "linked (prev w) (settled w) nb st es"
    and rc: "reaches g opt start es c (usedM w ! nat st)"
    using search_inv_facts(5) [OF inv st] by (auto simp: state_ok_def)
  obtain es' where hd: "es = nat (edgeOf st nb) # es'" using linked_hd [OF es] by blast
  define p where "p = \<lparr>pEdges = rev es, pCost = c, pLengthM = fold (\<lambda>e s. s + LengthM g ! e) es 0,
    pBudgetUsedM = usedM w ! nat st, pExpansions = n\<rparr>"
  have "buildPath g (prev w) st nb c (usedM w ! nat st) n = Some (Ok p)"
    using linked_walk [OF es, of "[]"] by (simp add: buildPath_def p_def)
  moreover have "found_path g opt start goal p"
    using rc goal hd
    by (simp add: found_path_def p_def fold_add_sum_list path_length_def rev_map [symmetric])
  ultimately show ?thesis using c by (auto simp: p_def)
qed

text \<open>The search returns: the empty path, an error, or a path that the specification admits.\<close>

lemma Search_returns:
  assumes ok: "search_ok g opt"
  shows "(start = goal \<and> Search g pooled start goal opt = Some (Ok empty_path)) \<or>
    (start \<noteq> goal \<and> (\<exists>x. Search g pooled start goal opt = Some (Err x))) \<or>
    (start \<noteq> goal \<and> 0 \<le> start \<and> nat start < NumNodes g \<and>
      (\<exists>p. Search g pooled start goal opt = Some (Ok p) \<and> found_path g opt (nat start) (nat goal) p \<and>
        pExpansions p \<le> expansion_limit opt))"
proof (cases "start = goal")
  case True
  then show ?thesis by (simp add: Search_def)
next
  case ne: False
  show ?thesis
  proof (cases "validate g start goal")
    case (Some x)
    then show ?thesis using ne by (simp add: Search_def)
  next
    case None
    have start: "0 \<le> start" "nat start < NumNodes g"
      using validate_None [OF search_ok_facts(4) [OF ok] None] by auto
    obtain nb stepM where nb: "(nb, stepM) = budgetBuckets opt" by (metis prod.exhaust)
    then have fs: "fst (budgetBuckets opt) = nb" "snd (budgetBuckets opt) = stepM"
      by (metis fst_conv, metis snd_conv)
    obtain w where w: "run_seed g opt pooled (nat start) (nat goal) = Ok w"
      "search_inv g opt (nat start) nb w"
      using run_seed_returns [OF ok start(2)] fs by metis
    note S = Search_unfold [OF search_ok_facts(4) [OF ok] ne None, of pooled]
    have "run_loop g opt (nat goal) w = Err ErrUnroutable \<or>
        (\<exists>x. run_loop g opt (nat goal) w = Ok x \<and> goal_state g opt (nat start) (nat goal) nb x \<and>
          fst (snd x) \<le> expansion_limit opt)"
      using search_loop_returns [OF ok start(2) nb w(2)] by (simp add: run_loop_def fs)
    then show ?thesis
    proof (elim disjE exE conjE)
      assume "run_loop g opt (nat goal) w = Err ErrUnroutable"
      then show ?thesis using S w(1) ne by simp
    next
      fix x
      assume x: "run_loop g opt (nat goal) w = Ok x" "goal_state g opt (nat start) (nat goal) nb x"
        "fst (snd x) \<le> expansion_limit opt"
      obtain st n w' where [simp]: "x = (st, n, w')" by (metis prod.exhaust)
      obtain c p where "dist w' ! nat st = Some c"
        "buildPath g (prev w') st nb c (usedM w' ! nat st) n = Some (Ok p)"
        "found_path g opt (nat start) (nat goal) p" "pExpansions p = n"
        using buildPath_returns [OF x(2) [simplified]] by blast
      then show ?thesis using S w(1) x start ne fs by auto
    qed
  qed
qed

end
