(* ===== verification/Search_Optimal.thy ===== *)
theory Search_Optimal
  imports Search_Sound
begin

text \<open>
  No cheaper route: the returned cost against every route of allowed edges that draw nothing from
  the budget.  The heuristic the code uses is not the straight-line distance but that distance or
  its \<open>float32\<close> rounding, whichever the cache holds, so it is consistent only up to some
  \<open>\<epsilon>\<close>; each edge of the rival route can cost the search at most that much.  With the heuristic
  switched off \<open>\<epsilon>\<close> is zero and the result is optimal.
\<close>

section \<open>The heuristic\<close>

definition goal_dist :: "graph \<Rightarrow> nat \<Rightarrow> nat \<Rightarrow> real" where
  "goal_dist g goal n = DistanceM (node_pos g n) (node_pos g goal)"

definition h_lo :: "graph \<Rightarrow> options \<Rightarrow> nat \<Rightarrow> nat \<Rightarrow> real" where
  "h_lo g opt goal e = (if NoHeuristic opt then 0
     else min (goal_dist g goal (To g ! e)) (f32 (goal_dist g goal (To g ! e))))"

definition h_hi :: "graph \<Rightarrow> options \<Rightarrow> nat \<Rightarrow> nat \<Rightarrow> real" where
  "h_hi g opt goal e = (if NoHeuristic opt then 0
     else max (goal_dist g goal (To g ! e)) (f32 (goal_dist g goal (To g ! e))))"

lemma goal_dist_nonneg [simp]: "0 \<le> goal_dist g goal n"
  by (simp add: goal_dist_def great_circle.d_nonneg)

lemma goal_dist_self [simp]: "goal_dist g goal goal = 0"
  by (simp add: goal_dist_def great_circle.d_self)

lemma h_lo_nonneg: "0 \<le> h_lo g opt goal e"
  by (simp add: h_lo_def)

lemma h_lo_le_hi: "h_lo g opt goal e \<le> h_hi g opt goal e"
  by (auto simp: h_lo_def h_hi_def min_def max_def)

lemma h_hi_goal: "To g ! e = goal \<Longrightarrow> h_hi g opt goal e = 0"
  by (simp add: h_hi_def)

lemma h_lo_goal: "To g ! e = goal \<Longrightarrow> h_lo g opt goal e = 0"
  by (simp add: h_lo_def)

definition cache_ok :: "graph \<Rightarrow> nat \<Rightarrow> workspace \<Rightarrow> bool" where
  "cache_ok g goal w \<longleftrightarrow>
     (\<forall>n<length (hcache w). hcache w ! n = - 1 \<or> hcache w ! n = f32 (goal_dist g goal n))"

lemma hval_bounds:
  assumes "cache_ok g goal w" and "To g ! e < length (hcache w)"
  shows "h_lo g opt goal e \<le> hval g opt goal e w \<and> hval g opt goal e w \<le> h_hi g opt goal e"
proof -
  have c: "hcache w ! (To g ! e) = - 1 \<or> hcache w ! (To g ! e) = f32 (goal_dist g goal (To g ! e))"
    using assms by (simp add: cache_ok_def)
  show ?thesis
  proof (cases "NoHeuristic opt")
    case True
    then show ?thesis by (simp add: hval_def heur_def h_lo_def h_hi_def)
  next
    case False
    then have "hval g opt goal e w = goal_dist g goal (To g ! e) \<or>
        hval g opt goal e w = f32 (goal_dist g goal (To g ! e))"
      using c by (auto simp: hval_def heur_def Let_def goal_dist_def)
    then show ?thesis using False by (auto simp: h_lo_def h_hi_def)
  qed
qed

lemma cache_ok_improve:
  assumes "cache_ok g goal w"
  shows "cache_ok g goal (improve g opt goal e st c u p w)"
  using assms
  by (auto simp: cache_ok_def improve_def enqueue_def heur_def Let_def goal_dist_def nth_update_eq_if
      split: prod.splits if_splits)

section \<open>The queue covers the frontier\<close>

definition covered :: "graph \<Rightarrow> options \<Rightarrow> nat \<Rightarrow> int \<Rightarrow> workspace \<Rightarrow> int \<Rightarrow> bool" where
  "covered g opt goal nb w st \<longleftrightarrow> (\<forall>c. dist w ! nat st = Some c \<longrightarrow> \<not> settled w ! nat st \<longrightarrow>
     (\<exists>it\<in>set (queue w). state it = st \<and> priority it \<le> c + h_hi g opt goal (nat (edgeOf st nb))))"

definition item_ok :: "graph \<Rightarrow> options \<Rightarrow> nat \<Rightarrow> int \<Rightarrow> workspace \<Rightarrow> queueItem \<Rightarrow> bool" where
  "item_ok g opt goal nb w it \<longleftrightarrow> (\<forall>c. dist w ! nat (state it) = Some c \<longrightarrow>
     c + h_lo g opt goal (nat (edgeOf (state it) nb)) \<le> priority it)"

definition queue_inv :: "graph \<Rightarrow> options \<Rightarrow> nat \<Rightarrow> int \<Rightarrow> workspace \<Rightarrow> bool" where
  "queue_inv g opt goal nb w \<longleftrightarrow> cache_ok g goal w \<and>
     (\<forall>st. 0 \<le> st \<longrightarrow> st < int (NumEdges g) * nb \<longrightarrow> covered g opt goal nb w st) \<and>
     (\<forall>it\<in>set (queue w). item_ok g opt goal nb w it)"

lemma queue_inv_improve:
  assumes inv: "search_inv g opt start nb w" and q: "queue_inv g opt goal nb w"
    and st: "0 \<le> st" "st < int (NumEdges g) * nb" and e: "nat (edgeOf st nb) = e"
    and node: "To g ! e < NumNodes g" and ch: "cheaper c (dist w ! nat st)"
  shows "queue_inv g opt goal nb (improve g opt goal e st c u p w)"
proof -
  let ?w = "improve g opt goal e st c u p w"
  have len: "nat st < length (dist w)" and hl: "length (hcache w) = NumNodes g"
    using search_inv_facts(1) [OF inv] st by (auto simp: sized_def)
  have hv: "h_lo g opt goal e \<le> hval g opt goal e w" "hval g opt goal e w \<le> h_hi g opt goal e"
    using hval_bounds [of g goal w e opt] q node hl by (auto simp: queue_inv_def)
  have "covered g opt goal nb ?w s" if s: "0 \<le> s" "s < int (NumEdges g) * nb" for s
  proof (cases "s = st")
    case True
    then show ?thesis using hv e len by (simp add: covered_def)
  next
    case False
    then have "nat s \<noteq> nat st" using s st by auto
    moreover have "covered g opt goal nb w s" using q s by (simp add: queue_inv_def)
    ultimately show ?thesis by (auto simp: covered_def)
  qed
  moreover have "item_ok g opt goal nb ?w it" if it: "it \<in> set (queue ?w)" for it
  proof (cases "it \<in> set (queue w)")
    case True
    then have ok: "item_ok g opt goal nb w it" using q by (simp add: queue_inv_def)
    obtain c0 where c0: "dist w ! nat (state it) = Some c0"
      using search_inv_facts(4) [OF inv True] by blast
    show ?thesis
    proof (cases "nat (state it) = nat st")
      case same: True
      then have "c < c0" using ch c0 by (simp add: cheaper_def)
      moreover have "c0 + h_lo g opt goal (nat (edgeOf (state it) nb)) \<le> priority it"
        using ok c0 by (simp add: item_ok_def)
      ultimately show ?thesis using same len by (simp add: item_ok_def)
    next
      case False
      then show ?thesis using ok by (simp add: item_ok_def)
    qed
  next
    case False
    then have "it = \<lparr>state = st, priority = c + hval g opt goal e w\<rparr>" using it by simp
    then show ?thesis using hv e len by (simp add: item_ok_def)
  qed
  moreover have "cache_ok g goal ?w" using q cache_ok_improve by (simp add: queue_inv_def)
  ultimately show ?thesis by (simp add: queue_inv_def)
qed

lemma queue_inv_pop:
  assumes ne: "queue w \<noteq> []" and q: "queue_inv g opt goal nb w"
    and w': "dist w' = dist w" "hcache w' = hcache w" "queue w' = snd (pop (queue w))"
    and top: "settled w' ! nat (top_state w)"
    and mono: "\<And>i. settled w ! i \<Longrightarrow> settled w' ! i"
  shows "queue_inv g opt goal nb w'"
proof -
  have "covered g opt goal nb w' st" if st: "0 \<le> st" "st < int (NumEdges g) * nb" for st
    unfolding covered_def
  proof (intro allI impI)
    fix c
    assume c: "dist w' ! nat st = Some c" "\<not> settled w' ! nat st"
    then obtain it where it: "it \<in> set (queue w)" "state it = st"
      "priority it \<le> c + h_hi g opt goal (nat (edgeOf st nb))"
      using q st mono w' by (fastforce simp: queue_inv_def covered_def)
    have "it \<noteq> fst (pop (queue w))" using it(2) c(2) top by (auto simp: top_state_def)
    moreover have "mset (queue w) = add_mset (fst (pop (queue w))) (mset (snd (pop (queue w))))"
      using mset_pop [OF ne] by simp
    then have "set_mset (mset (queue w)) = insert (fst (pop (queue w))) (set (snd (pop (queue w))))"
      by simp
    ultimately have "it \<in> set (snd (pop (queue w)))" using it(1) by auto
    then show "\<exists>it\<in>set (queue w'). state it = st \<and>
        priority it \<le> c + h_hi g opt goal (nat (edgeOf st nb))"
      using it w' by auto
  qed
  moreover have "item_ok g opt goal nb w' it" if "it \<in> set (queue w')" for it
    using that q pop_mem(2) [OF ne] w' by (auto simp: queue_inv_def item_ok_def)
  ultimately show ?thesis using q w' by (simp add: queue_inv_def cache_ok_def)
qed

section \<open>Settled states are expanded\<close>

definition free :: "options \<Rightarrow> graph \<Rightarrow> nat \<Rightarrow> bool" where
  "free opt g e \<longleftrightarrow> allowed opt g e \<and> \<not> is_over opt g e"

definition reached :: "workspace \<Rightarrow> int \<Rightarrow> real \<Rightarrow> bool" where
  "reached w st c \<longleftrightarrow> (\<exists>c'. dist w ! nat st = Some c' \<and> c' \<le> c)"

definition seeded :: "graph \<Rightarrow> options \<Rightarrow> int \<Rightarrow> real \<Rightarrow> nat list \<Rightarrow> workspace \<Rightarrow> bool" where
  "seeded g opt nb stepM es w \<longleftrightarrow> (\<forall>e\<in>set es. free opt g e \<longrightarrow>
     reached w (entry_state g opt nb stepM 0 e) (EdgeCost opt g e))"

definition closed_at :: "graph \<Rightarrow> options \<Rightarrow> int \<Rightarrow> real \<Rightarrow> int \<Rightarrow> nat list \<Rightarrow> workspace \<Rightarrow> bool" where
  "closed_at g opt nb stepM s fs w \<longleftrightarrow> (\<forall>c. dist w ! nat s = Some c \<longrightarrow>
     (\<forall>f\<in>set fs. free opt g f \<longrightarrow>
        (let nst = entry_state g opt nb stepM (usedM w ! nat s) f
         in settled w ! nat nst \<or>
            reached w nst (c + EdgeCost opt g f + turn_cost opt g (nat (edgeOf s nb)) f))))"

definition closed :: "graph \<Rightarrow> options \<Rightarrow> int \<Rightarrow> real \<Rightarrow> workspace \<Rightarrow> bool" where
  "closed g opt nb stepM w \<longleftrightarrow> (\<forall>s. 0 \<le> s \<longrightarrow> s < int (NumEdges g) * nb \<longrightarrow> settled w ! nat s \<longrightarrow>
     closed_at g opt nb stepM s (out_list g (To g ! nat (edgeOf s nb))) w)"

text \<open>How the arrays change: a settled state no more, the others to a lower cost.\<close>

definition lowers :: "workspace \<Rightarrow> workspace \<Rightarrow> bool" where
  "lowers w w' \<longleftrightarrow>
     (\<forall>i. settled w ! i \<longrightarrow> settled w' ! i \<and> dist w' ! i = dist w ! i \<and> usedM w' ! i = usedM w ! i) \<and>
     (\<forall>i c. dist w ! i = Some c \<longrightarrow> (\<exists>c'. dist w' ! i = Some c' \<and> c' \<le> c))"

lemma lowers_improve:
  assumes "\<not> settled w ! nat st" and "cheaper c (dist w ! nat st)"
  shows "lowers w (improve g opt goal e st c u p w)"
  unfolding lowers_def
proof (intro conjI allI impI)
  fix i
  assume "settled w ! i"
  then have "i \<noteq> nat st" using assms(1) by auto
  with \<open>settled w ! i\<close> show "settled (improve g opt goal e st c u p w) ! i"
    "dist (improve g opt goal e st c u p w) ! i = dist w ! i"
    "usedM (improve g opt goal e st c u p w) ! i = usedM w ! i" by simp_all
next
  fix i d
  assume d: "dist w ! i = Some d"
  show "\<exists>c'. dist (improve g opt goal e st c u p w) ! i = Some c' \<and> c' \<le> d"
  proof (cases "i = nat st \<and> i < length (dist w)")
    case True
    then have "c < d" using assms(2) d by (simp add: cheaper_def)
    then show ?thesis using True by simp
  next
    case False
    then show ?thesis using d by (auto simp: nth_update_eq_if)
  qed
qed

lemma lowers_settle_top:
  assumes "\<not> settled w ! nat (top_state w)"
  shows "lowers w (settle_top w)"
  by (auto simp: lowers_def nth_update_eq_if)

lemma lowers_drop_top: "lowers w (drop_top w)"
  by (auto simp: lowers_def)

lemma reached_lowers: "lowers w w' \<Longrightarrow> reached w st c \<Longrightarrow> reached w' st c"
  by (fastforce simp: lowers_def reached_def)

lemma seeded_lowers: "lowers w w' \<Longrightarrow> seeded g opt nb stepM es w \<Longrightarrow> seeded g opt nb stepM es w'"
  by (auto simp: seeded_def intro: reached_lowers)

lemma closed_at_lowers:
  assumes "lowers w w'" and "settled w ! nat s" and "closed_at g opt nb stepM s fs w"
  shows "closed_at g opt nb stepM s fs w'"
proof -
  have eq: "dist w' ! nat s = dist w ! nat s" "usedM w' ! nat s = usedM w ! nat s"
    using assms(1,2) by (simp_all add: lowers_def)
  have "settled w ! i \<Longrightarrow> settled w' ! i" for i using assms(1) by (simp add: lowers_def)
  then show ?thesis
    using assms(3) reached_lowers [OF assms(1)] by (simp add: closed_at_def eq Let_def) blast
qed

lemma reached_improve:
  assumes "nat st < length (dist w)"
  shows "reached (improve g opt goal e st c u p w) st c"
  using assms by (simp add: reached_def)

lemma not_improves_free:
  assumes "\<not> improves g opt nb stepM spent e c w" and "free opt g e"
  shows "settled w ! nat (entry_state g opt nb stepM spent e) \<or>
    reached w (entry_state g opt nb stepM spent e) c"
proof -
  have "affordable opt g spent e" using assms(2) by (simp add: free_def affordable_def)
  then show ?thesis
    using assms(1) by (auto simp: improves_def cheaper_def reached_def split: option.splits)
qed

section \<open>The search invariant for costs\<close>

definition cost_inv :: "graph \<Rightarrow> options \<Rightarrow> nat \<Rightarrow> nat \<Rightarrow> int \<Rightarrow> real \<Rightarrow> workspace \<Rightarrow> bool" where
  "cost_inv g opt start goal nb stepM w \<longleftrightarrow> search_inv g opt start nb w \<and> queue_inv g opt goal nb w \<and>
     seeded g opt nb stepM (out_list g start) w \<and> closed g opt nb stepM w"

lemma cost_inv_facts:
  assumes "cost_inv g opt start goal nb stepM w"
  shows "search_inv g opt start nb w" "queue_inv g opt goal nb w"
    "seeded g opt nb stepM (out_list g start) w" "closed g opt nb stepM w"
  using assms by (simp_all add: cost_inv_def)

lemma cost_inv_drop_top:
  assumes "cost_inv g opt start goal nb stepM w" and ne: "queue w \<noteq> []"
    and "settled w ! nat (top_state w)"
  shows "cost_inv g opt start goal nb stepM (drop_top w)"
proof -
  note inv = cost_inv_facts [OF assms(1)]
  have "queue_inv g opt goal nb (drop_top w)"
    by (rule queue_inv_pop [OF ne inv(2)]) (use assms(3) in auto)
  moreover have "closed g opt nb stepM (drop_top w)"
    using inv(4) closed_at_lowers [OF lowers_drop_top] by (auto simp: closed_def)
  ultimately show ?thesis
    using inv_drop_top [OF inv(1) ne] seeded_lowers [OF lowers_drop_top inv(3)]
    by (simp add: cost_inv_def)
qed

lemma cost_inv_relax_all:
  assumes ok: "search_ok g opt" and start: "start < NumNodes g"
    and nb: "(nb, stepM) = budgetBuckets opt"
    and ci: "cost_inv g opt start goal nb stepM w0" and ne: "queue w0 \<noteq> []"
    and fresh: "\<not> settled w0 ! nat (top_state w0)"
  shows "\<exists>w'. relax_all g opt goal nb stepM w0 = Ok w' \<and> cost_inv g opt start goal nb stepM w' \<and>
    lowers (settle_top w0) w' \<and> settled w' = settled (settle_top w0)"
proof -
  note inv = cost_inv_facts [OF ci]
  let ?st = "top_state w0" and ?e = "top_edge nb w0" and ?w0 = "settle_top w0"
  let ?spent = "usedM w0 ! nat ?st" and ?fs = "out_list g (To g ! ?e)"
  note st = top_state_facts [OF inv(1) ne]
  obtain d where d: "dist w0 ! nat ?st = Some d" using st(5) by blast
  have nb_range: "1 \<le> nb" "nb \<le> 16" using budgetBuckets_range [of opt] nb [symmetric] by simp_all
  have "?e < NumEdges g"
    using edgeOf_range [OF st(1,2) nb_range] by (simp add: top_edge_def nat_less_iff)
  then have node: "To g ! ?e < NumNodes g" using wf_endpoints(2) [OF search_ok_facts(2) [OF ok]] by simp
  have spent: "0 \<le> ?spent"
    using search_inv_facts(5) [OF inv(1) st(1,2)] d reaches_used_nonneg [OF ok start]
    by (auto simp: state_ok_def)
  let ?P = "\<lambda>ys w. queue_inv g opt goal nb w \<and> lowers ?w0 w \<and> closed_at g opt nb stepM ?st ys w"
  have trans: "lowers a b \<Longrightarrow> lowers b c \<Longrightarrow> lowers a c" for a b c
    unfolding lowers_def by (metis order_trans)
  have "\<exists>w'. relax_all g opt goal nb stepM w0 = Ok w' \<and> ?P ?fs w' \<and>
      search_inv g opt start nb w' \<and> settled w' = settled ?w0"
  proof (rule relax_all_rule [OF ok start nb inv(1) ne d])
    have "queue_inv g opt goal nb ?w0"
      by (rule queue_inv_pop [OF ne inv(2)]) (use st(4) in \<open>auto simp: nth_update_eq_if\<close>)
    then show "?P [] ?w0" by (simp add: lowers_def closed_at_def)
  next
    fix ys f zs w nd
    assume split: "?fs = ys @ f # zs" and P: "?P ys w" and si: "search_inv g opt start nb w"
      and sd: "settled w = settled ?w0" and dw: "dist w ! nat ?st = Some d"
      and nd: "nd = d + EdgeCost opt g f + turn_cost opt g ?e f"
      and im: "improves g opt nb stepM ?spent f nd w"
    let ?nst = "entry_state g opt nb stepM ?spent f"
    let ?w = "improve g opt goal f ?nst nd (f32 (next_used opt g ?spent f)) ?st w"
    have "f \<in> set ?fs" using split by simp
    then have f: "f < NumEdges g" using set_out_list [OF search_ok_facts(3) [OF ok] node] by simp
    note nst = entry_state_facts(2-4) [OF ok f spent nb]
    have len: "nat ?nst < length (dist w)" using search_inv_facts(1) [OF si] nst by (auto simp: sized_def)
    have im': "\<not> settled w ! nat ?nst" "cheaper nd (dist w ! nat ?nst)"
      using im by (simp_all add: improves_def)
    have low: "lowers w ?w" by (rule lowers_improve [OF im'])
    have "queue_inv g opt goal nb ?w"
      by (rule queue_inv_improve [OF si _ nst(1,2) _ _ im'(2)])
        (use P nst wf_endpoints(2) [OF search_ok_facts(2) [OF ok] f] in auto)
    moreover have "closed_at g opt nb stepM ?st (ys @ [f]) ?w"
    proof -
      have "settled w ! nat ?st" using sd st(4) by simp
      then have "closed_at g opt nb stepM ?st ys ?w" using closed_at_lowers [OF low] P by blast
      moreover have "usedM ?w ! nat ?st = ?spent" "dist ?w ! nat ?st = Some d"
        using P low st(4) sd dw by (auto simp: lowers_def)
      moreover have "reached ?w ?nst nd" by (rule reached_improve [OF len])
      ultimately show ?thesis using nd by (auto simp: closed_at_def top_edge_def Let_def)
    qed
    ultimately show "?P (ys @ [f]) ?w" using P low trans by blast
  next
    fix ys f zs w nd
    assume split: "?fs = ys @ f # zs" and P: "?P ys w" and si: "search_inv g opt start nb w"
      and sd: "settled w = settled ?w0" and dw: "dist w ! nat ?st = Some d"
      and nd: "nd = d + EdgeCost opt g f + turn_cost opt g ?e f"
      and im: "\<not> improves g opt nb stepM ?spent f nd w"
    have "usedM w ! nat ?st = ?spent" using P st(4) by (auto simp: lowers_def)
    then show "?P (ys @ [f]) w"
      using P not_improves_free [OF im] nd dw by (auto simp: closed_at_def top_edge_def Let_def)
  qed
  then obtain w' where w': "relax_all g opt goal nb stepM w0 = Ok w'" "?P ?fs w'"
    "search_inv g opt start nb w'" "settled w' = settled ?w0" by blast
  have low: "lowers w0 w'" using trans [OF lowers_settle_top [OF fresh]] w'(2) by blast
  have "closed g opt nb stepM w'"
    unfolding closed_def
  proof (intro allI impI)
    fix s
    assume s: "0 \<le> s" "s < int (NumEdges g) * nb" "settled w' ! nat s"
    show "closed_at g opt nb stepM s (out_list g (To g ! nat (edgeOf s nb))) w'"
    proof (cases "s = ?st")
      case True
      then show ?thesis using w'(2) by (simp add: top_edge_def)
    next
      case False
      then have "settled w0 ! nat s" using s w'(4) st(1) by (simp add: nth_update_eq_if split: if_splits)
      then show ?thesis using closed_at_lowers [OF low] inv(4) s by (auto simp: closed_def)
    qed
  qed
  then have "cost_inv g opt start goal nb stepM w'"
    using w' seeded_lowers [OF low inv(3)] by (simp add: cost_inv_def)
  then show ?thesis using w' by blast
qed

section \<open>The rival route\<close>

definition rival_cost :: "graph \<Rightarrow> options \<Rightarrow> nat list \<Rightarrow> nat \<Rightarrow> real" where
  "rival_cost g opt r m = path_cost g opt (take (Suc m) r)"

text \<open>
  A route of allowed edges that are within the rider's comfort, along which the heuristic is
  consistent up to \<open>eps\<close>.
\<close>

definition free_route :: "graph \<Rightarrow> options \<Rightarrow> nat \<Rightarrow> nat \<Rightarrow> nat list \<Rightarrow> bool" where
  "free_route g opt start goal r \<longleftrightarrow> route g opt start goal r \<and> (\<forall>e\<in>set r. free opt g e)"

definition eps_consistent :: "graph \<Rightarrow> options \<Rightarrow> nat \<Rightarrow> real \<Rightarrow> nat list \<Rightarrow> bool" where
  "eps_consistent g opt goal eps r \<longleftrightarrow> 0 \<le> eps \<and>
     (\<forall>e\<in>set r. h_hi g opt goal e \<le> h_lo g opt goal e + eps) \<and>
     successively (\<lambda>e f. h_hi g opt goal e
       \<le> EdgeCost opt g f + turn_cost opt g e f + h_lo g opt goal f + eps) r"

lemma rival_cost_0: "r \<noteq> [] \<Longrightarrow> rival_cost g opt r 0 = EdgeCost opt g (r ! 0)"
  by (cases r) (auto simp: rival_cost_def)

lemma rival_cost_Suc:
  assumes "Suc m < length r"
  shows "rival_cost g opt r (Suc m) =
    rival_cost g opt r m + EdgeCost opt g (r ! Suc m) + turn_cost opt g (r ! m) (r ! Suc m)"
proof -
  have "take (Suc (Suc m)) r = take m r @ [r ! m, r ! Suc m]"
    using assms by (simp add: take_Suc_conv_app_nth)
  moreover have "take (Suc m) r = take m r @ [r ! m]" using assms by (simp add: take_Suc_conv_app_nth)
  ultimately show ?thesis by (simp add: rival_cost_def path_cost_snoc)
qed

lemma rival_cost_last: "r \<noteq> [] \<Longrightarrow> rival_cost g opt r (length r - 1) = path_cost g opt r"
  by (simp add: rival_cost_def)

lemma telescope:
  assumes c: "eps_consistent g opt goal eps r" and "j \<le> m" and "m < length r"
  shows "h_hi g opt goal (r ! j) \<le>
    rival_cost g opt r m - rival_cost g opt r j + h_lo g opt goal (r ! m) + real (m - j + 1) * eps"
  using assms(2,3)
proof (induction m rule: dec_induct)
  case base
  then show ?case using c by (simp add: eps_consistent_def)
next
  case (step m)
  have "h_lo g opt goal (r ! m) \<le> h_hi g opt goal (r ! m)" by (rule h_lo_le_hi)
  also have "\<dots> \<le> EdgeCost opt g (r ! Suc m) + turn_cost opt g (r ! m) (r ! Suc m)
      + h_lo g opt goal (r ! Suc m) + eps"
    using c step.prems by (simp add: eps_consistent_def successively_conv_nth)
  finally have "h_lo g opt goal (r ! m) \<le> rival_cost g opt r (Suc m) - rival_cost g opt r m
      + h_lo g opt goal (r ! Suc m) + eps"
    using rival_cost_Suc [OF step.prems, of g opt] by simp
  moreover have "real (Suc m - j + 1) * eps = real (m - j + 1) * eps + eps"
    using step.hyps(1) by (simp add: Suc_diff_le algebra_simps)
  ultimately show ?case using step.IH step.prems by simp
qed

section \<open>The frontier\<close>

definition at_edge :: "graph \<Rightarrow> int \<Rightarrow> nat \<Rightarrow> int \<Rightarrow> bool" where
  "at_edge g nb e s \<longleftrightarrow> 0 \<le> s \<and> s < int (NumEdges g) * nb \<and> nat (edgeOf s nb) = e"

definition done_edge :: "graph \<Rightarrow> int \<Rightarrow> workspace \<Rightarrow> nat \<Rightarrow> bool" where
  "done_edge g nb w e \<longleftrightarrow> (\<exists>s. at_edge g nb e s \<and> settled w ! nat s)"

definition done_within :: "graph \<Rightarrow> int \<Rightarrow> workspace \<Rightarrow> nat \<Rightarrow> real \<Rightarrow> bool" where
  "done_within g nb w e c \<longleftrightarrow> (\<exists>s. at_edge g nb e s \<and> settled w ! nat s \<and> reached w s c)"

definition tracked :: "graph \<Rightarrow> options \<Rightarrow> int \<Rightarrow> real \<Rightarrow> nat list \<Rightarrow> workspace \<Rightarrow> bool" where
  "tracked g opt nb eps r w \<longleftrightarrow> (\<forall>m<length r. done_edge g nb w (r ! m) \<longrightarrow>
     done_within g nb w (r ! m) (rival_cost g opt r m + real (m + 1) * eps))"

text \<open>Some state of the rival is queued, at no more than its cost there and \<open>j\<close> times \<open>eps\<close>.\<close>

lemma frontier:
  assumes ok: "search_ok g opt" and start: "start < NumNodes g"
    and nb: "(nb, stepM) = budgetBuckets opt"
    and ci: "cost_inv g opt start goal nb stepM w" and tr: "tracked g opt nb eps r w"
    and fr: "free_route g opt start goal r"
    and m: "m < length r" "\<not> done_edge g nb w (r ! m)"
  shows "\<exists>j\<le>m. \<exists>st. at_edge g nb (r ! j) st \<and> \<not> settled w ! nat st \<and>
    reached w st (rival_cost g opt r j + real j * eps)"
proof -
  note inv = cost_inv_facts [OF ci]
  define j where "j = (LEAST i. \<not> done_edge g nb w (r ! i))"
  have nd: "\<not> done_edge g nb w (r ! j)" unfolding j_def by (rule LeastI) (rule m(2))
  have jm: "j \<le> m" unfolding j_def by (rule Least_le) (rule m(2))
  have before: "i < j \<Longrightarrow> done_edge g nb w (r ! i)" for i
    using not_less_Least [of i "\<lambda>i. \<not> done_edge g nb w (r ! i)"] by (auto simp: j_def)
  have jr: "r ! j \<in> set r" using jm m(1) by simp
  have rj: "r ! j < NumEdges g" "free opt g (r ! j)"
    using fr jr by (auto simp: free_route_def route_def)
  have fresh: "\<not> settled w ! nat st" if "at_edge g nb (r ! j) st" for st
    using nd that by (auto simp: done_edge_def)
  have entry: "at_edge g nb (r ! j) (entry_state g opt nb stepM spent (r ! j))" if "0 \<le> spent" for spent
    using entry_state_facts(2-4) [OF ok rj(1) that nb] by (simp add: at_edge_def)
  show ?thesis
  proof (cases j)
    case 0
    have "From g ! (r ! 0) = start" using fr m(1) by (auto simp: free_route_def route_def hd_conv_nth)
    then have "r ! 0 \<in> set (out_list g start)"
      using rj 0 set_out_list [OF search_ok_facts(3) [OF ok] start] by simp
    then have "reached w (entry_state g opt nb stepM 0 (r ! j)) (EdgeCost opt g (r ! j))"
      using inv(3) rj 0 by (auto simp: seeded_def)
    moreover have "r \<noteq> []" using m(1) by auto
    ultimately have "reached w (entry_state g opt nb stepM 0 (r ! j)) (rival_cost g opt r j + real j * eps)"
      using 0 by (simp add: rival_cost_0)
    then show ?thesis using entry [OF order_refl] fresh jm by blast
  next
    case (Suc i)
    then have ij: "Suc i < length r" using jm m(1) by simp
    have "done_edge g nb w (r ! i)" using before Suc by simp
    then have "done_within g nb w (r ! i) (rival_cost g opt r i + real (i + 1) * eps)"
      using tr ij by (simp add: tracked_def)
    then obtain s c where s: "at_edge g nb (r ! i) s" "settled w ! nat s" "dist w ! nat s = Some c"
      "c \<le> rival_cost g opt r i + real (i + 1) * eps"
      by (auto simp: done_within_def reached_def)
    then have sr: "0 \<le> s" "s < int (NumEdges g) * nb" "nat (edgeOf s nb) = r ! i"
      by (simp_all add: at_edge_def)
    have spent: "0 \<le> usedM w ! nat s"
      using search_inv_facts(5) [OF inv(1) sr(1,2)] s(3) reaches_used_nonneg [OF ok start]
      by (auto simp: state_ok_def)
    have "r ! i < NumEdges g" using fr ij by (simp add: free_route_def route_def)
    then have node: "To g ! (r ! i) < NumNodes g" using wf_endpoints(2) [OF search_ok_facts(2) [OF ok]] by simp
    have "To g ! (r ! i) = From g ! (r ! j)"
      using fr ij Suc by (simp add: free_route_def route_def successively_conv_nth)
    then have "r ! j \<in> set (out_list g (To g ! (r ! i)))"
      using rj set_out_list [OF search_ok_facts(3) [OF ok] node] by simp
    moreover have "closed_at g opt nb stepM s (out_list g (To g ! (r ! i))) w"
      using inv(4) sr s(2) by (auto simp: closed_def)
    ultimately have "reached w (entry_state g opt nb stepM (usedM w ! nat s) (r ! j))
        (c + EdgeCost opt g (r ! j) + turn_cost opt g (r ! i) (r ! j))"
      using s(3) sr(3) rj(2) fresh [OF entry [OF spent]] by (auto simp: closed_at_def Let_def)
    moreover have "c + EdgeCost opt g (r ! j) + turn_cost opt g (r ! i) (r ! j)
        \<le> rival_cost g opt r j + real j * eps"
      using s(4) rival_cost_Suc [OF ij, of g opt] Suc by simp
    ultimately have "reached w (entry_state g opt nb stepM (usedM w ! nat s) (r ! j))
        (rival_cost g opt r j + real j * eps)"
      by (auto simp: reached_def)
    then show ?thesis using entry [OF spent] fresh jm by blast
  qed
qed

text \<open>So what is popped next costs, with its estimate, no more than the rival there.\<close>

lemma pop_bound:
  assumes ok: "search_ok g opt" and start: "start < NumNodes g"
    and nb: "(nb, stepM) = budgetBuckets opt"
    and ci: "cost_inv g opt start goal nb stepM w" and tr: "tracked g opt nb eps r w"
    and fr: "free_route g opt start goal r" and ec: "eps_consistent g opt goal eps r"
    and m: "m < length r" "\<not> done_edge g nb w (r ! m)"
  shows "queue w \<noteq> [] \<and> (\<forall>d. dist w ! nat (top_state w) = Some d \<longrightarrow>
    d + h_lo g opt goal (top_edge nb w) \<le>
      rival_cost g opt r m + h_lo g opt goal (r ! m) + real (m + 1) * eps)"
proof -
  note inv = cost_inv_facts [OF ci]
  obtain j st c where j: "j \<le> m" and st: "at_edge g nb (r ! j) st" "\<not> settled w ! nat st"
    "dist w ! nat st = Some c" "c \<le> rival_cost g opt r j + real j * eps"
    using frontier [OF ok start nb ci tr fr m] by (auto simp: reached_def)
  then obtain it where it: "it \<in> set (queue w)" "priority it \<le> c + h_hi g opt goal (r ! j)"
    using inv(2) by (fastforce simp: queue_inv_def covered_def at_edge_def)
  have "h_hi g opt goal (r ! j) \<le> rival_cost g opt r m - rival_cost g opt r j + h_lo g opt goal (r ! m)
      + real (m - j + 1) * eps"
    by (rule telescope [OF ec j m(1)])
  moreover have "real j * eps + real (m - j + 1) * eps = real (m + 1) * eps"
    using j by (simp add: algebra_simps of_nat_diff)
  ultimately have bound: "priority it \<le> rival_cost g opt r m + h_lo g opt goal (r ! m) + real (m + 1) * eps"
    using it(2) st(4) by linarith
  have ne: "queue w \<noteq> []" using it(1) by auto
  have top: "priority (fst (pop (queue w))) \<le> priority it"
    by (rule sq.deq_min [OF search_inv_facts(2) [OF inv(1)], of "fst (pop (queue w))" "snd (pop (queue w))"])
      (use ne it(1) in auto)
  have "d + h_lo g opt goal (top_edge nb w) \<le> priority (fst (pop (queue w)))"
    if "dist w ! nat (top_state w) = Some d" for d
  proof -
    have "item_ok g opt goal nb w (fst (pop (queue w)))"
      using inv(2) pop_mem(1) [OF ne] by (simp add: queue_inv_def)
    then show ?thesis using that by (simp add: item_ok_def top_state_def top_edge_def)
  qed
  then show ?thesis using ne top bound by fastforce
qed

section \<open>The loop against a rival\<close>

definition no_goal :: "graph \<Rightarrow> nat \<Rightarrow> int \<Rightarrow> workspace \<Rightarrow> bool" where
  "no_goal g goal nb w \<longleftrightarrow> (\<forall>s e. at_edge g nb e s \<longrightarrow> settled w ! nat s \<longrightarrow> To g ! e \<noteq> goal)"

definition count_settled :: "workspace \<Rightarrow> nat" where
  "count_settled w = length (filter id (settled w))"

lemma count_settle_top:
  assumes "nat (top_state w) < length (settled w)" "\<not> settled w ! nat (top_state w)"
  shows "count_settled (settle_top w) = count_settled w + 1"
    and "count_settled w + 1 \<le> length (settled w)"
proof -
  let ?i = "nat (top_state w)" and ?s = "settled w"
  have "?s = take ?i ?s @ False # drop (Suc ?i) ?s"
    using assms id_take_nth_drop [of ?i ?s] by simp
  then have "length (filter id ?s) = length (filter id (take ?i ?s @ False # drop (Suc ?i) ?s))"
    by (rule arg_cong)
  moreover have "?s[?i := True] = take ?i ?s @ True # drop (Suc ?i) ?s"
    using assms(1) by (simp add: upd_conv_take_nth_drop)
  ultimately show eq: "count_settled (settle_top w) = count_settled w + 1"
    by (simp add: count_settled_def)
  have "count_settled (settle_top w) \<le> length (settled (settle_top w))"
    unfolding count_settled_def by (rule length_filter_le)
  then show "count_settled w + 1 \<le> length (settled w)" by (simp add: eq)
qed

definition loop_inv :: "graph \<Rightarrow> options \<Rightarrow> nat \<Rightarrow> nat \<Rightarrow> int \<Rightarrow> real \<Rightarrow> real \<Rightarrow> nat list \<Rightarrow> int \<Rightarrow> workspace \<Rightarrow> bool" where
  "loop_inv g opt start goal nb stepM eps r n w \<longleftrightarrow> cost_inv g opt start goal nb stepM w \<and>
     tracked g opt nb eps r w \<and> no_goal g goal nb w \<and> n = int (count_settled w)"

lemma top_at_edge:
  "search_inv g opt start nb w \<Longrightarrow> queue w \<noteq> [] \<Longrightarrow> at_edge g nb (top_edge nb w) (top_state w)"
  using top_state_facts [of g opt start nb w] by (simp add: at_edge_def top_edge_def)

lemma at_edge_unique: "at_edge g nb e s \<Longrightarrow> at_edge g nb e' s \<Longrightarrow> e = e'"
  by (simp add: at_edge_def)

lemma tracked_expand:
  assumes ok: "search_ok g opt" and start: "start < NumNodes g"
    and nb: "(nb, stepM) = budgetBuckets opt"
    and ci: "cost_inv g opt start goal nb stepM w" and tr: "tracked g opt nb eps r w"
    and fr: "free_route g opt start goal r" and ec: "eps_consistent g opt goal eps r"
    and ne: "queue w \<noteq> []" and fresh: "\<not> settled w ! nat (top_state w)"
    and low: "lowers (settle_top w) w'" and sd: "settled w' = settled (settle_top w)"
  shows "tracked g opt nb eps r w'"
  unfolding tracked_def
proof (intro allI impI)
  fix m
  assume m: "m < length r" and d: "done_edge g nb w' (r ! m)"
  let ?B = "rival_cost g opt r m + real (m + 1) * eps"
  note inv = cost_inv_facts [OF ci]
  note st = top_state_facts [OF inv(1) ne]
  show "done_within g nb w' (r ! m) ?B"
  proof (cases "done_edge g nb w (r ! m)")
    case True
    then obtain s where "at_edge g nb (r ! m) s" "settled w ! nat s" "reached w s ?B"
      using tr m by (auto simp: tracked_def done_within_def)
    moreover have "settled w' ! nat s" using sd \<open>settled w ! nat s\<close> by (auto simp: nth_update_eq_if)
    moreover have "reached w' s ?B"
      using reached_lowers [OF low reached_lowers [OF lowers_settle_top [OF fresh] \<open>reached w s ?B\<close>]] .
    ultimately show ?thesis by (auto simp: done_within_def)
  next
    case False
    from d obtain s where s: "at_edge g nb (r ! m) s" "settled w' ! nat s" by (auto simp: done_edge_def)
    then have "\<not> settled w ! nat s" using False by (auto simp: done_edge_def)
    then have "nat s = nat (top_state w)" using s(2) sd by (simp add: nth_update_eq_if split: if_splits)
    then have eq: "s = top_state w" using s(1) st(1) eq_nat_nat_iff [of s "top_state w"] by (simp add: at_edge_def)
    then have e: "top_edge nb w = r ! m"
      using at_edge_unique [OF s(1)] top_at_edge [OF inv(1) ne] by simp
    obtain c where c: "dist w ! nat (top_state w) = Some c" using st(5) by blast
    then have "c \<le> ?B"
      using pop_bound [OF ok start nb ci tr fr ec m False] e by auto
    then have "reached w s ?B" using c eq by (simp add: reached_def)
    then have "reached w' s ?B"
      using reached_lowers [OF low reached_lowers [OF lowers_settle_top [OF fresh]]] by blast
    then show ?thesis using s by (auto simp: done_within_def)
  qed
qed

lemma search_loop_rival:
  assumes ok: "search_ok g opt" and start: "start < NumNodes g"
    and nb: "(nb, stepM) = budgetBuckets opt"
    and fr: "free_route g opt start goal r" and ec: "eps_consistent g opt goal eps r"
    and init: "loop_inv g opt start goal nb stepM eps r n w"
  shows "(\<lambda>x. (x = Err ErrUnroutable \<and> maxExp < int (NumEdges g) * nb) \<or>
      (\<exists>st k w' c. x = Ok (st, k, w') \<and> dist w' ! nat st = Some c \<and>
         c \<le> path_cost g opt r + real (length r) * eps))
    (search_loop g opt goal nb stepM maxExp n w)"
proof -
  have r: "r \<noteq> []" "To g ! last r = goal" using fr by (simp_all add: free_route_def route_def)
  define k where "k = length r - 1"
  have k: "k < length r" "r ! k = last r" using r by (simp_all add: k_def last_conv_nth)
  have last: "\<not> done_edge g nb w (r ! k)" if "no_goal g goal nb w" for w
    using that r k by (auto simp: no_goal_def done_edge_def)
  have bound: "queue w \<noteq> [] \<and> (\<forall>d. dist w ! nat (top_state w) = Some d \<longrightarrow>
      d + h_lo g opt goal (top_edge nb w) \<le> path_cost g opt r + real (length r) * eps)"
    if "loop_inv g opt start goal nb stepM eps r n w" for n w
  proof -
    from that have "cost_inv g opt start goal nb stepM w" "tracked g opt nb eps r w" "no_goal g goal nb w"
      by (simp_all add: loop_inv_def)
    from pop_bound [OF ok start nb this(1,2) fr ec k(1) last [OF this(3)]]
    show ?thesis using r k rival_cost_last [OF r(1), of g opt]
      by (simp add: k_def h_lo_goal of_nat_diff)
  qed
  show ?thesis
  proof (rule search_loop_rule [where I = "loop_inv g opt start goal nb stepM eps r"])
    show "loop_inv g opt start goal nb stepM eps r n w" by (rule init)
  next
    fix n w
    assume I: "loop_inv g opt start goal nb stepM eps r n w" and ne: "queue w \<noteq> []"
    then have si: "search_inv g opt start nb w" by (simp add: loop_inv_def cost_inv_def)
    show "0 \<le> top_state w \<and> top_state w < int (length (settled w))"
      using top_state_facts [OF si ne] by auto
  next
    fix n w
    assume I: "loop_inv g opt start goal nb stepM eps r n w" and ne: "queue w \<noteq> []"
      and "settled w ! nat (top_state w)"
    then have "cost_inv g opt start goal nb stepM (drop_top w)"
      by (intro cost_inv_drop_top) (simp_all add: loop_inv_def)
    then show "loop_inv g opt start goal nb stepM eps r n (drop_top w)"
      using I by (simp add: loop_inv_def tracked_def done_edge_def done_within_def reached_def
          no_goal_def count_settled_def)
  next
    fix n w
    assume I: "loop_inv g opt start goal nb stepM eps r n w" and ne: "queue w \<noteq> []"
      and fresh: "\<not> settled w ! nat (top_state w)" and ng: "To g ! top_edge nb w \<noteq> goal"
    from I have ci: "cost_inv g opt start goal nb stepM w" and tr: "tracked g opt nb eps r w"
      and nog: "no_goal g goal nb w" and n: "n = int (count_settled w)"
      by (simp_all add: loop_inv_def)
    note si = cost_inv_facts(1) [OF ci]
    obtain w' where w': "relax_all g opt goal nb stepM w = Ok w'" "cost_inv g opt start goal nb stepM w'"
      "lowers (settle_top w) w'" "settled w' = settled (settle_top w)"
      using cost_inv_relax_all [OF ok start nb ci ne fresh] by blast
    have "tracked g opt nb eps r w'" by (rule tracked_expand [OF ok start nb ci tr fr ec ne fresh w'(3,4)])
    moreover have "no_goal g goal nb w'"
      unfolding no_goal_def
    proof (intro allI impI)
      fix s e
      assume s: "at_edge g nb e s" "settled w' ! nat s"
      show "To g ! e \<noteq> goal"
      proof (cases "settled w ! nat s")
        case True
        then show ?thesis using nog s(1) by (auto simp: no_goal_def)
      next
        case False
        then have "nat s = nat (top_state w)" using s(2) w'(4) by (simp add: nth_update_eq_if split: if_splits)
        then have "s = top_state w" using s(1) top_state_facts(1) [OF si ne] eq_nat_nat_iff [of s "top_state w"]
          by (simp add: at_edge_def)
        then show ?thesis using at_edge_unique [OF s(1)] top_at_edge [OF si ne] ng by simp
      qed
    qed
    moreover have "n + 1 = int (count_settled w')"
      using n w'(4) count_settle_top(1) [OF top_state_facts(4) [OF si ne] fresh]
      by (simp add: count_settled_def)
    ultimately have "loop_inv g opt start goal nb stepM eps r (n + 1) w'" using w'(2) by (simp add: loop_inv_def)
    then show "\<exists>w'. relax_all g opt goal nb stepM w = Ok w' \<and>
        loop_inv g opt start goal nb stepM eps r (n + 1) w'" using w'(1) by blast
  next
    fix n w
    assume I: "loop_inv g opt start goal nb stepM eps r n w" and ne: "queue w \<noteq> []"
    then have si: "search_inv g opt start nb w" by (simp add: loop_inv_def cost_inv_def)
    obtain c where c: "dist w ! nat (top_state w) = Some c" using top_state_facts(5) [OF si ne] by blast
    then have "c \<le> path_cost g opt r + real (length r) * eps"
      using bound [OF I] h_lo_nonneg [of g opt goal "top_edge nb w"] by fastforce
    then show "(Ok (top_state w, n + 1, settle_top w) = Err ErrUnroutable \<and> maxExp < int (NumEdges g) * nb) \<or>
        (\<exists>st k w' c. Ok (top_state w, n + 1, settle_top w) = Ok (st, k, w') \<and> dist w' ! nat st = Some c \<and>
           c \<le> path_cost g opt r + real (length r) * eps)"
      using c by simp
  next
    fix n w
    assume I: "loop_inv g opt start goal nb stepM eps r n w" and "queue w = []"
    then show "(Err ErrUnroutable = Err ErrUnroutable \<and> maxExp < int (NumEdges g) * nb) \<or>
        (\<exists>st k w' c. Err ErrUnroutable = Ok (st, k, w') \<and> dist w' ! nat st = Some c \<and>
           c \<le> path_cost g opt r + real (length r) * eps)"
      using bound [OF I] by simp
  next
    fix n w
    assume I: "loop_inv g opt start goal nb stepM eps r n w" and ne: "queue w \<noteq> []"
      and fresh: "\<not> settled w ! nat (top_state w)" and lim: "maxExp < n + 1"
    from I have si: "search_inv g opt start nb w" and n: "n = int (count_settled w)"
      by (simp_all add: loop_inv_def cost_inv_def)
    have "int (length (settled w)) = int (NumEdges g) * nb"
      using search_inv_facts(1) [OF si] top_state_facts(1,2) [OF si ne] by (simp add: sized_def)
    moreover have "count_settled w + 1 \<le> length (settled w)"
      by (rule count_settle_top(2) [OF top_state_facts(4) [OF si ne] fresh])
    ultimately have "maxExp < int (NumEdges g) * nb" using lim n by linarith
    then show "(Err ErrUnroutable = Err ErrUnroutable \<and> maxExp < int (NumEdges g) * nb) \<or>
        (\<exists>st k w' c. Err ErrUnroutable = Ok (st, k, w') \<and> dist w' ! nat st = Some c \<and>
           c \<le> path_cost g opt r + real (length r) * eps)"
      by simp
  qed
qed

section \<open>The search against a rival\<close>

lemma run_seed_cost:
  assumes ok: "search_ok g opt" and start: "start < NumNodes g"
    and nb: "(nb, stepM) = budgetBuckets opt"
  shows "\<exists>w. run_seed g opt pooled start goal = Ok w \<and> cost_inv g opt start goal nb stepM w \<and> unlinked w"
proof -
  have fs: "fst (budgetBuckets opt) = nb" "snd (budgetBuckets opt) = stepM"
    using nb by (metis fst_conv, metis snd_conv)
  have nb_range: "1 \<le> nb" using budgetBuckets_range [of opt] fs by simp
  let ?w0 = "getWorkspace pooled (nat (int (NumEdges g) * nb)) (NumNodes g)"
  let ?P = "\<lambda>ys w. queue_inv g opt goal nb w \<and> seeded g opt nb stepM ys w"
  have "\<exists>w. seed_all g opt goal nb stepM start ?w0 = Ok w \<and> ?P (out_list g start) w \<and>
      search_inv g opt start nb w \<and> unlinked w"
  proof (rule seed_all_rule [OF ok start nb])
    show "search_inv g opt start nb ?w0" by (rule getWorkspace_inv) (use nb_range in simp)
    show "unlinked ?w0" by (rule unlinked_getWorkspace)
    have "nat st < nat (int (NumEdges g) * nb)" if "0 \<le> st" "st < int (NumEdges g) * nb" for st
      using that by simp
    then show "?P [] ?w0"
      by (simp add: queue_inv_def cache_ok_def covered_def getWorkspace_fields seeded_def)
  next
    fix ys f zs w
    assume split: "out_list g start = ys @ f # zs" and P: "?P ys w"
      and si: "search_inv g opt start nb w" and un: "unlinked w"
      and im: "improves g opt nb stepM 0 f (EdgeCost opt g f) w"
    let ?st = "entry_state g opt nb stepM 0 f"
    let ?w = "improve g opt goal f ?st (EdgeCost opt g f) (f32 (next_used opt g 0 f)) (- 1) w"
    have "f \<in> set (out_list g start)" using split by simp
    then have f: "f < NumEdges g" using set_out_list [OF search_ok_facts(3) [OF ok] start] by simp
    note st = entry_state_facts(2-4) [OF ok f order_refl nb]
    have len: "nat ?st < length (dist w)" using search_inv_facts(1) [OF si] st by (auto simp: sized_def)
    have im': "\<not> settled w ! nat ?st" "cheaper (EdgeCost opt g f) (dist w ! nat ?st)"
      using im by (simp_all add: improves_def)
    have "queue_inv g opt goal nb ?w"
      by (rule queue_inv_improve [OF si _ st(1,2) _ _ im'(2)])
        (use P st wf_endpoints(2) [OF search_ok_facts(2) [OF ok] f] in auto)
    moreover have "seeded g opt nb stepM (ys @ [f]) ?w"
      using seeded_lowers [OF lowers_improve [OF im']] P reached_improve [OF len]
      by (auto simp: seeded_def)
    ultimately show "?P (ys @ [f]) ?w" by simp
  next
    fix ys f zs w
    assume split: "out_list g start = ys @ f # zs" and P: "?P ys w"
      and si: "search_inv g opt start nb w" and un: "unlinked w"
      and im: "\<not> improves g opt nb stepM 0 f (EdgeCost opt g f) w"
    have "f \<in> set (out_list g start)" using split by simp
    then have f: "f < NumEdges g" using set_out_list [OF search_ok_facts(3) [OF ok] start] by simp
    have "nat (entry_state g opt nb stepM 0 f) < length (settled w)"
      using search_inv_facts(1) [OF si] entry_state_facts(2,3) [OF ok f order_refl nb] by (auto simp: sized_def)
    then have "\<not> settled w ! nat (entry_state g opt nb stepM 0 f)"
      using un nth_mem unfolding unlinked_def by blast
    then show "?P (ys @ [f]) w" using P not_improves_free [OF im] by (auto simp: seeded_def)
  qed
  then obtain w where w: "seed_all g opt goal nb stepM start ?w0 = Ok w" "?P (out_list g start) w"
    "search_inv g opt start nb w" "unlinked w" by blast
  have "\<not> settled w ! nat s" if "0 \<le> s" "s < int (NumEdges g) * nb" for s
  proof -
    have "nat s < length (settled w)" using search_inv_facts(1) [OF w(3)] that by (auto simp: sized_def)
    then show ?thesis using w(4) nth_mem unfolding unlinked_def by blast
  qed
  then have "closed g opt nb stepM w" by (simp add: closed_def)
  then show ?thesis using w by (auto simp: run_seed_def fs cost_inv_def)
qed

lemma unlinked_not_settled:
  assumes "search_inv g opt start nb w" "unlinked w" "at_edge g nb e s"
  shows "\<not> settled w ! nat s"
proof -
  have "nat s < length (settled w)"
    using search_inv_facts(1) [OF assms(1)] assms(3) by (auto simp: sized_def at_edge_def)
  then show ?thesis using assms(2) nth_mem unfolding unlinked_def by blast
qed

lemma Search_rival:
  assumes ok: "search_ok g opt" and start: "start < NumNodes g" and ne: "start \<noteq> goal"
    and fr: "free_route g opt start goal r" and ec: "eps_consistent g opt goal eps r"
  shows "(\<exists>p. Search g pooled (int start) (int goal) opt = Some (Ok p) \<and>
      pCost p \<le> path_cost g opt r + real (length r) * eps) \<or>
    (Search g pooled (int start) (int goal) opt = Some (Err ErrUnroutable) \<and>
      expansion_limit opt < int (NumEdges g) * fst (budgetBuckets opt))"
proof -
  obtain nb stepM where nb: "(nb, stepM) = budgetBuckets opt" by (metis prod.exhaust)
  then have fs: "fst (budgetBuckets opt) = nb" "snd (budgetBuckets opt) = stepM"
    by (metis fst_conv, metis snd_conv)
  note wf = search_ok_facts [OF ok]
  have r: "r \<noteq> []" "From g ! hd r = start" "To g ! last r = goal" "\<forall>e\<in>set r. e < NumEdges g"
    using fr by (simp_all add: free_route_def route_def)
  have goal: "goal < NumNodes g" using wf_endpoints(2) [OF wf(2)] r by (metis last_in_set)
  have "hd r \<in> set (out_list g start)"
    using set_out_list [OF wf(3) start] r by simp
  then have "OutDegree g start \<noteq> 0" using OutDegree_zero_iff [OF wf(3) start] by auto
  then have v: "validate g (int start) (int goal) = None"
    using start goal wf(4) by (simp add: validate_def Let_def fits_def int32_id)
  obtain w where w: "run_seed g opt pooled start goal = Ok w" "cost_inv g opt start goal nb stepM w"
    "unlinked w" using run_seed_cost [OF ok start nb] by blast
  note si = cost_inv_facts(1) [OF w(2)]
  have "loop_inv g opt start goal nb stepM eps r 0 w"
    using w unlinked_not_settled [OF si w(3)]
    by (auto simp: loop_inv_def tracked_def done_edge_def no_goal_def count_settled_def unlinked_def
        filter_empty_conv)
  from search_loop_rival [OF ok start nb fr ec this, of "expansion_limit opt"]
  have loop: "(run_loop g opt goal w = Err ErrUnroutable \<and> expansion_limit opt < int (NumEdges g) * nb) \<or>
      (\<exists>st k w' c. run_loop g opt goal w = Ok (st, k, w') \<and> dist w' ! nat st = Some c \<and>
         c \<le> path_cost g opt r + real (length r) * eps)"
    by (simp add: run_loop_def fs)
  note S = Search_unfold [OF wf(4) _ v, of pooled]
  from loop show ?thesis
  proof (elim disjE conjE exE)
    assume "run_loop g opt goal w = Err ErrUnroutable" "expansion_limit opt < int (NumEdges g) * nb"
    then show ?thesis using S w(1) ne fs by simp
  next
    fix st k w' c
    assume lp: "run_loop g opt goal w = Ok (st, k, w')" and c: "dist w' ! nat st = Some c"
      "c \<le> path_cost g opt r + real (length r) * eps"
    have "goal_state g opt start goal nb (st, k, w')"
      using search_loop_returns [OF ok start nb si, of goal "expansion_limit opt" 0] lp
      by (simp add: run_loop_def fs)
    then obtain p where "buildPath g (prev w') st nb c (usedM w' ! nat st) k = Some (Ok p)" "pCost p = c"
      using buildPath_returns c(1) by fastforce
    then show ?thesis using S w(1) ne fs lp c by simp
  qed
qed

section \<open>How consistent the heuristic is\<close>

text \<open>
  The safety model's side of the contract: an edge costs at least its length and a turn nothing
  negative.  The map's side: no edge is shorter than the straight line between its ends, but for
  some \<open>slack\<close>.
\<close>

definition cost_floor :: "graph \<Rightarrow> options \<Rightarrow> bool" where
  "cost_floor g opt \<longleftrightarrow> (\<forall>e<NumEdges g. LengthM g ! e \<le> EdgeCost opt g e) \<and>
     (\<forall>e<NumEdges g. \<forall>f<NumEdges g. 0 \<le> turn_cost opt g e f)"

definition straight :: "graph \<Rightarrow> real \<Rightarrow> bool" where
  "straight g slack \<longleftrightarrow> 0 \<le> slack \<and> (\<forall>e<NumEdges g.
     DistanceM (node_pos g (From g ! e)) (node_pos g (To g ! e)) \<le> LengthM g ! e + slack)"

lemma eps_consistent_plain:
  assumes ok: "search_ok g opt" and "NoHeuristic opt" and floor: "cost_floor g opt"
    and fr: "free_route g opt start goal r"
  shows "eps_consistent g opt goal 0 r"
proof -
  have r: "\<forall>e\<in>set r. e < NumEdges g" using fr by (simp add: free_route_def route_def)
  have "0 \<le> EdgeCost opt g f + turn_cost opt g e f" if "e \<in> set r" "f \<in> set r" for e f
  proof -
    have "0 \<le> LengthM g ! f" "LengthM g ! f \<le> EdgeCost opt g f" "0 \<le> turn_cost opt g e f"
      using r that floor search_ok_facts(5) [OF ok] by (auto simp: cost_floor_def)
    then show ?thesis by simp
  qed
  then show ?thesis
    using \<open>NoHeuristic opt\<close> by (simp add: eps_consistent_def h_lo_def h_hi_def successively_conv_nth)
qed

lemma eps_consistent_guided:
  assumes floor: "cost_floor g opt" and st: "straight g slack"
    and D: "\<forall>n<NumNodes g. goal_dist g goal n \<le> D" "1 \<le> D" and wf: "wf_graph g"
    and fr: "free_route g opt start goal r"
  shows "eps_consistent g opt goal (slack + D / 2 ^ 23) r"
proof -
  have r: "\<forall>e\<in>set r. e < NumEdges g" and con: "successively (\<lambda>e f. To g ! e = From g ! f) r"
    using fr by (simp_all add: free_route_def route_def)
  have small: "2 powr (- 126) \<le> D"
    using D(2) powr_mono [of "- 126" 0 2] by (simp add: order_trans [of _ "1::real"])
  have d: "goal_dist g goal (To g ! e) \<le> D" if "e \<in> set r" for e
    using D(1) r that wf_endpoints(2) [OF wf_graph_arrays [OF wf]] by simp
  have err: "\<bar>f32 (goal_dist g goal (To g ! e)) - goal_dist g goal (To g ! e)\<bar> \<le> D / 2 ^ 24"
    if "e \<in> set r" for e
    using f32_error_at_scale [OF _ small] d [OF that] by simp
  have hi: "h_hi g opt goal e \<le> (if NoHeuristic opt then 0 else goal_dist g goal (To g ! e)) + D / 2 ^ 24"
    and lo: "(if NoHeuristic opt then 0 else goal_dist g goal (To g ! e)) - D / 2 ^ 24 \<le> h_lo g opt goal e"
    if "e \<in> set r" for e
    using err [OF that] D(2) by (auto simp: h_hi_def h_lo_def min_def max_def abs_le_iff)
  have s0: "0 \<le> slack" using st by (simp add: straight_def)
  have "h_hi g opt goal e \<le> h_lo g opt goal e + (slack + D / 2 ^ 23)" if "e \<in> set r" for e
    using hi [OF that] lo [OF that] s0 by simp
  moreover have "h_hi g opt goal e \<le>
      EdgeCost opt g f + turn_cost opt g e f + h_lo g opt goal f + (slack + D / 2 ^ 23)"
    if e: "e \<in> set r" and f: "f \<in> set r" and ef: "To g ! e = From g ! f" for e f
  proof -
    have "goal_dist g goal (To g ! e) \<le>
        DistanceM (node_pos g (From g ! f)) (node_pos g (To g ! f)) + goal_dist g goal (To g ! f)"
      unfolding goal_dist_def ef by (rule great_circle.d_triangle)
    moreover have "DistanceM (node_pos g (From g ! f)) (node_pos g (To g ! f)) \<le> LengthM g ! f + slack"
      "LengthM g ! f \<le> EdgeCost opt g f" "0 \<le> turn_cost opt g e f"
      using st floor r e f by (auto simp: straight_def cost_floor_def)
    moreover have "0 \<le> DistanceM (node_pos g (From g ! f)) (node_pos g (To g ! f))"
      by (rule great_circle.d_nonneg)
    ultimately show ?thesis using hi [OF e] lo [OF f] by (simp split: if_splits)
  qed
  ultimately show ?thesis
    using con s0 D(2) by (auto simp: eps_consistent_def successively_conv_nth)
qed

end
