(* ===== verification/Safety_Cost.thy ===== *)
theory Safety_Cost
  imports Safety_LTS Search_Optimal
begin

text \<open>
  \<open>internal/safety\<close>: the rider profiles (\<open>profile.go\<close>), the cost of an edge and the summary of a
  route (\<open>cost.go\<close>), the cost of a turn (\<open>turn.go\<close>) and their constants (\<open>params.go\<close>).  The
  contract the search needs, that a metre never costs less than a metre and a turn never pays, is
  the locale \<open>edge_pricing\<close>; every profile that passes \<open>Validate\<close> satisfies it, and the four
  built-in profiles do.
\<close>

section \<open>Constants\<close>

definition LTSPenalty :: "real list" where "LTSPenalty = [3, 0, 35 / 100, 16 / 10, 5]"
definition OverThresholdPenalty :: real where "OverThresholdPenalty = 12"
definition CrashPenaltyScale :: real where "CrashPenaltyScale = 25 / 10"
definition UnlitPenalty :: real where "UnlitPenalty = 8 / 10"
definition HazardPenaltyScale :: real where "HazardPenaltyScale = 15 / 10"

fun SurfacePenalty :: "surface \<Rightarrow> real" where
  "SurfacePenalty SurfaceUnknown = 0"
| "SurfacePenalty SurfacePaved = 0"
| "SurfacePenalty SurfaceCompacted = 25 / 100"
| "SurfacePenalty SurfaceLoose = 12 / 10"
| "SurfacePenalty SurfaceBad = 4"

definition GradeDeadbandPct :: real where "GradeDeadbandPct = 3"
definition ClimbPenaltyPerPct :: real where "ClimbPenaltyPerPct = 12 / 100"
definition DescentPenaltyPerPct :: real where "DescentPenaltyPerPct = 6 / 100"
definition SteepDescentPct :: real where "SteepDescentPct = 8"
definition SteepDescentPenalty :: real where "SteepDescentPenalty = 6 / 10"

definition TurnStraightM :: real where "TurnStraightM = 4"
definition TurnRightM :: real where "TurnRightM = 10"
definition TurnLeftM :: real where "TurnLeftM = 40"
definition TurnUTurnM :: real where "TurnUTurnM = 300"
definition StraightAngleDeg :: real where "StraightAngleDeg = 35"

definition CrossingStressFactor :: "real list" where
  "CrossingStressFactor = [15 / 10, 3 / 10, 6 / 10, 15 / 10, 4]"

fun ControlFactor :: "control \<Rightarrow> real" where
  "ControlFactor ControlNone = 1"
| "ControlFactor ControlSignal = 25 / 100"
| "ControlFactor ControlStop = 7 / 10"
| "ControlFactor ControlYield = 85 / 100"
| "ControlFactor ControlCrossing = 5 / 10"
| "ControlFactor ControlRoundabout = 8 / 10"

definition ProtectedContinuationFactor :: real where "ProtectedContinuationFactor = 15 / 100"

lemmas cost_constants = LTSPenalty_def OverThresholdPenalty_def CrashPenaltyScale_def
  UnlitPenalty_def HazardPenaltyScale_def GradeDeadbandPct_def ClimbPenaltyPerPct_def
  DescentPenaltyPerPct_def SteepDescentPct_def SteepDescentPenalty_def

lemmas turn_constants = TurnStraightM_def TurnRightM_def TurnLeftM_def TurnUTurnM_def
  StraightAngleDeg_def CrossingStressFactor_def ProtectedContinuationFactor_def

section \<open>Profiles\<close>

record Profile =
  Name :: string
  MaxLTS :: nat
  StressBudgetM :: real
  WeightLTS :: real
  WeightCrash :: real
  WeightGrade :: real
  WeightSurface :: real
  WeightLight :: real
  WeightTurn :: real
  WeightHazard :: real
  MaxDetourRatio :: real
  Night :: bool

definition Cautious :: Profile where
  "Cautious = \<lparr>Name = ''cautious'', MaxLTS = 2, StressBudgetM = 400, WeightLTS = 15 / 10,
     WeightCrash = 12 / 10, WeightGrade = 1, WeightSurface = 12 / 10, WeightLight = 1,
     WeightTurn = 15 / 10, WeightHazard = 15 / 10, MaxDetourRatio = 25 / 10, Night = False\<rparr>"

definition Comfortable :: Profile where
  "Comfortable = \<lparr>Name = ''comfortable'', MaxLTS = 3, StressBudgetM = 800, WeightLTS = 1,
     WeightCrash = 1, WeightGrade = 1, WeightSurface = 1, WeightLight = 1, WeightTurn = 1,
     WeightHazard = 1, MaxDetourRatio = 18 / 10, Night = False\<rparr>"

definition Confident :: Profile where
  "Confident = \<lparr>Name = ''confident'', MaxLTS = 4, StressBudgetM = 2000, WeightLTS = 35 / 100,
     WeightCrash = 6 / 10, WeightGrade = 5 / 10, WeightSurface = 6 / 10, WeightLight = 5 / 10,
     WeightTurn = 5 / 10, WeightHazard = 6 / 10, MaxDetourRatio = 135 / 100, Night = False\<rparr>"

definition Shortest :: Profile where
  "Shortest = \<lparr>Name = ''shortest'', MaxLTS = 4, StressBudgetM = 0, WeightLTS = 0,
     WeightCrash = 0, WeightGrade = 0, WeightSurface = 0, WeightLight = 0, WeightTurn = 0,
     WeightHazard = 0, MaxDetourRatio = 1, Night = False\<rparr>"

definition ProfileByName :: "string \<Rightarrow> Profile option" where
  "ProfileByName name =
     (if name = ''cautious'' then Some Cautious
      else if name = ''comfortable'' \<or> name = '''' then Some Comfortable
      else if name = ''confident'' then Some Confident
      else if name = ''shortest'' then Some Shortest
      else None)"

text \<open>
  \<open>Validate\<close> checks the weights in the order in which Go happens to walk a map, so which of
  several bad weights is named is not determined: \<open>ws\<close> is that order.
\<close>

datatype profile_error = BadMaxLTS nat | NegativeWeight string real | LargeWeight string real
  | BadDetour real | BadBudget real

definition profile_weights :: "Profile \<Rightarrow> (string \<times> real) list" where
  "profile_weights p =
     [(''weight_lts'', WeightLTS p), (''weight_crash'', WeightCrash p),
      (''weight_grade'', WeightGrade p), (''weight_surface'', WeightSurface p),
      (''weight_light'', WeightLight p), (''weight_turn'', WeightTurn p),
      (''weight_hazard'', WeightHazard p)]"

fun check_weights :: "(string \<times> real) list \<Rightarrow> profile_error option" where
  "check_weights [] = None"
| "check_weights ((name, w) # ws) =
     (if w < 0 then Some (NegativeWeight name w)
      else if w > 10 then Some (LargeWeight name w)
      else check_weights ws)"

definition Validate :: "(string \<times> real) list \<Rightarrow> Profile \<Rightarrow> profile_error option" where
  "Validate ws p =
     (if MaxLTS p < 1 \<or> MaxLTS p > 4 then Some (BadMaxLTS (MaxLTS p))
      else case check_weights ws of Some e \<Rightarrow> Some e
      | None \<Rightarrow>
          if MaxDetourRatio p < 1 \<or> MaxDetourRatio p > 10 then Some (BadDetour (MaxDetourRatio p))
          else if StressBudgetM p < 0 \<or> StressBudgetM p > 20000 then Some (BadBudget (StressBudgetM p))
          else None)"

definition profile_ok :: "Profile \<Rightarrow> bool" where
  "profile_ok p \<longleftrightarrow> 1 \<le> MaxLTS p \<and> MaxLTS p \<le> 4 \<and>
     (\<forall>w\<in>snd ` set (profile_weights p). 0 \<le> w \<and> w \<le> 10) \<and>
     1 \<le> MaxDetourRatio p \<and> MaxDetourRatio p \<le> 10 \<and>
     0 \<le> StressBudgetM p \<and> StressBudgetM p \<le> 20000"

lemma check_weights_None: "check_weights ws = None \<longleftrightarrow> (\<forall>w\<in>snd ` set ws. 0 \<le> w \<and> w \<le> 10)"
  by (induction ws rule: check_weights.induct) auto

lemma Validate_iff:
  assumes "mset ws = mset (profile_weights p)"
  shows "Validate ws p = None \<longleftrightarrow> profile_ok p"
proof -
  have "set ws = set (profile_weights p)" using assms by (rule mset_eq_setD)
  then have "check_weights ws = None \<longleftrightarrow> (\<forall>w\<in>snd ` set (profile_weights p). 0 \<le> w \<and> w \<le> 10)"
    by (simp add: check_weights_None)
  then show ?thesis
    by (cases "check_weights ws") (auto simp: Validate_def profile_ok_def not_less)
qed

lemma builtin_ok:
  "profile_ok Cautious" "profile_ok Comfortable" "profile_ok Confident" "profile_ok Shortest"
  by (simp_all add: profile_ok_def profile_weights_def Cautious_def Comfortable_def Confident_def
      Shortest_def)

lemma ProfileByName_ok: "ProfileByName name = Some p \<Longrightarrow> profile_ok p"
  by (auto simp: ProfileByName_def builtin_ok split: if_splits)

lemma profile_ok_weights:
  assumes "profile_ok p"
  shows "0 \<le> WeightLTS p" "0 \<le> WeightCrash p" "0 \<le> WeightGrade p" "0 \<le> WeightSurface p"
    "0 \<le> WeightLight p" "0 \<le> WeightTurn p" "0 \<le> WeightHazard p"
  using assms by (simp_all add: profile_ok_def profile_weights_def)

section \<open>The cost of an edge\<close>

record Model =
  mProfile :: Profile
  Hazards :: "real list"

definition NewModel :: "Profile \<Rightarrow> Model" where
  "NewModel p = \<lparr>mProfile = p, Hazards = []\<rparr>"

definition WithHazards :: "Model \<Rightarrow> real list \<Rightarrow> Model" where
  "WithHazards m scores = m\<lparr>Hazards := scores\<rparr>"

definition hazardScore :: "Model \<Rightarrow> nat \<Rightarrow> real" where
  "hazardScore m e = (if e \<ge> length (Hazards m) then 0 else Hazards m ! e)"

definition gradePenalty :: "real \<Rightarrow> real" where
  "gradePenalty pct =
     (let a = \<bar>pct\<bar>
      in if a \<le> GradeDeadbandPct then 0
         else let excess = a - GradeDeadbandPct
           in if pct > 0 then excess * ClimbPenaltyPerPct
              else let penalty = excess * DescentPenaltyPerPct
                in if a \<ge> SteepDescentPct then penalty + SteepDescentPenalty else penalty)"

definition Multiplier :: "Model \<Rightarrow> graph \<Rightarrow> nat \<Rightarrow> real" where
  "Multiplier m g e =
     (let p = mProfile m; lts = LTS g ! e; cs = CrashScore g ! e; hs = hazardScore m e;
          mult = 1;
          mult = (if lts < length LTSPenalty then mult + WeightLTS p * LTSPenalty ! lts else mult);
          mult = (if cs > 0 then mult + WeightCrash p * CrashPenaltyScale * cs else mult);
          mult = (if lts > MaxLTS p then mult + WeightLTS p * OverThresholdPenalty else mult);
          mult = mult + WeightSurface p * SurfacePenalty (Surface g ! e);
          mult = mult + WeightGrade p * gradePenalty (GradePct g ! e);
          mult = (if hs > 0 then mult + WeightHazard p * HazardPenaltyScale * hs else mult)
      in if Night p \<and> Lit g ! e = LitNo then mult + WeightLight p * UnlitPenalty else mult)"

definition Model_EdgeCost :: "Model \<Rightarrow> graph \<Rightarrow> nat \<Rightarrow> real" where
  "Model_EdgeCost m g e = LengthM g ! e * Multiplier m g e"

definition Model_Over :: "Model \<Rightarrow> graph \<Rightarrow> nat \<Rightarrow> bool" where
  "Model_Over m g e = (let lts = LTS g ! e in lts \<noteq> 0 \<and> lts > MaxLTS (mProfile m))"

definition Model_Allow :: "Model \<Rightarrow> graph \<Rightarrow> nat \<Rightarrow> bool" where
  "Model_Allow m g e = (if StressBudgetM (mProfile m) > 0 then True else \<not> Model_Over m g e)"

definition OverThresholdM :: "Model \<Rightarrow> graph \<Rightarrow> nat list \<Rightarrow> real" where
  "OverThresholdM m g edges =
     fold (\<lambda>e total. if Model_Over m g e then total + LengthM g ! e else total) edges 0"

lemma gradePenalty_nonneg: "0 \<le> gradePenalty pct"
  by (auto simp: gradePenalty_def cost_constants Let_def)

lemma SurfacePenalty_nonneg: "0 \<le> SurfacePenalty s"
  by (cases s) auto

lemma LTSPenalty_nonneg: "lts < length LTSPenalty \<Longrightarrow> 0 \<le> LTSPenalty ! lts"
  by (auto simp: LTSPenalty_def less_Suc_eq nth_Cons split: nat.splits)

text \<open>Every term of the multiplier is non-negative, so it is at least one.\<close>

lemma Multiplier_ge_1:
  assumes "profile_ok (mProfile m)"
  shows "1 \<le> Multiplier m g e"
proof -
  note w = profile_ok_weights [OF assms]
  have t: "0 \<le> WeightLTS (mProfile m) * OverThresholdPenalty"
    "0 \<le> WeightSurface (mProfile m) * SurfacePenalty (Surface g ! e)"
    "0 \<le> WeightGrade (mProfile m) * gradePenalty (GradePct g ! e)"
    "0 \<le> WeightLight (mProfile m) * UnlitPenalty"
    "0 < CrashScore g ! e \<Longrightarrow> 0 \<le> WeightCrash (mProfile m) * CrashPenaltyScale * CrashScore g ! e"
    "0 < hazardScore m e \<Longrightarrow> 0 \<le> WeightHazard (mProfile m) * HazardPenaltyScale * hazardScore m e"
    "LTS g ! e < length LTSPenalty \<Longrightarrow> 0 \<le> WeightLTS (mProfile m) * LTSPenalty ! (LTS g ! e)"
    using w gradePenalty_nonneg SurfacePenalty_nonneg LTSPenalty_nonneg
    by (simp_all add: OverThresholdPenalty_def UnlitPenalty_def CrashPenaltyScale_def HazardPenaltyScale_def)
  show ?thesis
    unfolding Multiplier_def Let_def using t by (simp add: algebra_simps)
qed

lemma Model_EdgeCost_ge_length:
  assumes "profile_ok (mProfile m)" and "0 \<le> LengthM g ! e"
  shows "LengthM g ! e \<le> Model_EdgeCost m g e"
  using mult_left_mono [OF Multiplier_ge_1 [OF assms(1), of g e] assms(2)]
  by (simp add: Model_EdgeCost_def)

text \<open>Among scored edges alike in the rest, more stress never costs less.\<close>

lemma LTSPenalty_mono: "1 \<le> a \<Longrightarrow> a \<le> b \<Longrightarrow> b \<le> 4 \<Longrightarrow> LTSPenalty ! a \<le> LTSPenalty ! b"
proof -
  assume "1 \<le> a" "a \<le> b" "b \<le> 4"
  then have "a \<in> {1, 2, 3, 4}" "b \<in> {1, 2, 3, 4}" by auto
  with \<open>a \<le> b\<close> show ?thesis by (auto simp: LTSPenalty_def)
qed

lemma Multiplier_mono_LTS:
  assumes ok: "profile_ok (mProfile m)"
    and l: "1 \<le> LTS g ! e" "LTS g ! e \<le> LTS g ! f" "LTS g ! f \<le> 4"
    and same: "CrashScore g ! e = CrashScore g ! f" "Surface g ! e = Surface g ! f"
      "GradePct g ! e = GradePct g ! f" "Lit g ! e = Lit g ! f" "hazardScore m e = hazardScore m f"
  shows "Multiplier m g e \<le> Multiplier m g f"
proof -
  note w = profile_ok_weights [OF ok]
  have len: "LTS g ! e < length LTSPenalty" "LTS g ! f < length LTSPenalty"
    using l by (simp_all add: LTSPenalty_def)
  have pen: "WeightLTS (mProfile m) * LTSPenalty ! (LTS g ! e) \<le> WeightLTS (mProfile m) * LTSPenalty ! (LTS g ! f)"
    using w(1) LTSPenalty_mono [OF l] by (rule mult_left_mono [rotated])
  have over: "0 \<le> WeightLTS (mProfile m) * OverThresholdPenalty"
    using w(1) by (simp add: OverThresholdPenalty_def)
  show ?thesis
    using pen over l len unfolding Multiplier_def Let_def same by simp
qed

section \<open>The cost of a turn\<close>

datatype TurnKind = TurnStraight | TurnRight | TurnLeft | TurnUTurn

definition TurnKind_String :: "TurnKind \<Rightarrow> string" where
  "TurnKind_String t = (case t of TurnRight \<Rightarrow> ''right'' | TurnLeft \<Rightarrow> ''left''
     | TurnUTurn \<Rightarrow> ''u-turn'' | _ \<Rightarrow> ''straight'')"

definition ClassifyTurn :: "graph \<Rightarrow> nat \<Rightarrow> nat \<Rightarrow> TurnKind" where
  "ClassifyTurn g i out =
     (if IsReverseOf g i out then TurnUTurn
      else let angle = TurnAngleDeg (BearingEnd g ! i) (BearingStart g ! out)
        in if angle \<le> - StraightAngleDeg then TurnLeft
           else if angle \<ge> StraightAngleDeg then TurnRight
           else TurnStraight)"

definition isSeparated :: "infra \<Rightarrow> bool" where
  "isSeparated i \<longleftrightarrow> i = InfraProtectedTrack \<or> i = InfraPath"

definition turn_base :: "TurnKind \<Rightarrow> real" where
  "turn_base kind = (case kind of TurnLeft \<Rightarrow> TurnLeftM | TurnRight \<Rightarrow> TurnRightM | _ \<Rightarrow> TurnStraightM)"

definition Model_TurnCost :: "Model \<Rightarrow> graph \<Rightarrow> nat \<Rightarrow> nat \<Rightarrow> real" where
  "Model_TurnCost m g i out =
     (let kind = ClassifyTurn g i out
      in if kind = TurnUTurn then WeightTurn (mProfile m) * TurnUTurnM
         else
           let base = turn_base kind;
               node = To g ! i;
               stress = (if NodeMaxLTS g ! node < length CrossingStressFactor
                         then CrossingStressFactor ! (NodeMaxLTS g ! node)
                         else CrossingStressFactor ! 0);
               control = ControlFactor (NodeControl g ! node);
               cost = base * stress * control;
               cost = (if isSeparated (Infra g ! i) \<and> isSeparated (Infra g ! out)
                       then cost * ProtectedContinuationFactor else cost)
           in WeightTurn (mProfile m) * cost)"

lemma ControlFactor_range: "25 / 100 \<le> ControlFactor c \<and> ControlFactor c \<le> 1"
  by (cases c) auto

lemma CrossingStressFactor_range:
  "n < length CrossingStressFactor \<Longrightarrow> 3 / 10 \<le> CrossingStressFactor ! n \<and> CrossingStressFactor ! n \<le> 4"
  by (auto simp: CrossingStressFactor_def less_Suc_eq nth_Cons split: nat.splits)

lemma turn_base_range: "4 \<le> turn_base k \<and> turn_base k \<le> 40"
  by (cases k) (auto simp: turn_base_def turn_constants)

lemma Model_TurnCost_range:
  assumes "profile_ok (mProfile m)"
  shows "0 \<le> Model_TurnCost m g i out \<and> Model_TurnCost m g i out \<le> WeightTurn (mProfile m) * 300"
proof (cases "ClassifyTurn g i out = TurnUTurn")
  case True
  then show ?thesis
    using profile_ok_weights(6) [OF assms] by (simp add: Model_TurnCost_def TurnUTurnM_def)
next
  case False
  let ?n = "NodeMaxLTS g ! (To g ! i)"
  define stress where "stress = (if ?n < length CrossingStressFactor
    then CrossingStressFactor ! ?n else CrossingStressFactor ! 0)"
  define cost where "cost = turn_base (ClassifyTurn g i out) * stress * ControlFactor (NodeControl g ! (To g ! i))"
  have s: "3 / 10 \<le> stress" "stress \<le> 4"
    using CrossingStressFactor_range [of ?n] CrossingStressFactor_range [of 0]
    by (auto simp: stress_def CrossingStressFactor_def)
  have b: "0 \<le> turn_base (ClassifyTurn g i out)" "turn_base (ClassifyTurn g i out) \<le> 40"
    using turn_base_range [of "ClassifyTurn g i out"] by auto
  have c: "0 \<le> ControlFactor (NodeControl g ! (To g ! i))" "ControlFactor (NodeControl g ! (To g ! i)) \<le> 1"
    using ControlFactor_range [of "NodeControl g ! (To g ! i)"] by auto
  have bs: "turn_base (ClassifyTurn g i out) * stress \<le> 40 * 4"
    using b s by (intro mult_mono) auto
  have bs0: "0 \<le> turn_base (ClassifyTurn g i out) * stress" using b s by simp
  have cost: "0 \<le> cost" "cost \<le> 160"
    using mult_mono [OF bs c(2)] bs0 c by (simp_all add: cost_def)
  define total where "total = (if isSeparated (Infra g ! i) \<and> isSeparated (Infra g ! out)
    then cost * ProtectedContinuationFactor else cost)"
  have t: "0 \<le> total" "total \<le> 300"
    using cost by (auto simp: total_def ProtectedContinuationFactor_def)
  have "Model_TurnCost m g i out = WeightTurn (mProfile m) * total"
    using False by (simp add: Model_TurnCost_def Let_def total_def cost_def stress_def)
  then show ?thesis
    using mult_left_mono [OF t(2) profile_ok_weights(6) [OF assms]] t(1) profile_ok_weights(6) [OF assms]
    by simp
qed

section \<open>What the search relies on\<close>

locale edge_pricing =
  fixes price :: "graph \<Rightarrow> nat \<Rightarrow> real" and turn :: "graph \<Rightarrow> nat \<Rightarrow> nat \<Rightarrow> real"
  assumes price_floor: "0 \<le> LengthM g ! e \<Longrightarrow> LengthM g ! e \<le> price g e"
    and turn_nonneg: "0 \<le> turn g e f"
begin

definition priced :: "options \<Rightarrow> bool" where
  "priced opt \<longleftrightarrow> EdgeCost opt = price \<and> TurnCost opt = Some turn"

lemma priced_cost_floor:
  assumes "priced opt" and "\<forall>e<NumEdges g. 0 \<le> LengthM g ! e"
  shows "cost_floor g opt"
  using assms price_floor turn_nonneg by (simp add: cost_floor_def priced_def turn_cost_def)

text \<open>A route costs at least its length: effective metres.\<close>

lemma path_cost_ge_length:
  assumes "priced opt" and "\<forall>e\<in>set es. 0 \<le> LengthM g ! e"
  shows "path_length g es \<le> path_cost g opt es"
  using assms(2)
proof (induction es rule: induct_list012)
  case (2 e)
  then show ?case using assms(1) price_floor [of g e] by (simp add: path_length_def priced_def)
next
  case (3 e f es)
  then have "path_length g (f # es) \<le> path_cost g opt (f # es)" by simp
  moreover have "LengthM g ! e \<le> EdgeCost opt g e" "0 \<le> turn_cost opt g e f"
    using 3 assms(1) price_floor turn_nonneg by (auto simp: priced_def turn_cost_def)
  ultimately show ?case by (simp add: path_length_def)
qed (simp add: path_length_def)

end

locale valid_model =
  fixes m :: Model
  assumes valid_profile: "profile_ok (mProfile m)"

sublocale valid_model \<subseteq> edge_pricing "Model_EdgeCost m" "Model_TurnCost m"
  by unfold_locales (use valid_profile in \<open>simp_all add: Model_EdgeCost_ge_length Model_TurnCost_range\<close>)

interpretation cautious: valid_model "WithHazards (NewModel Cautious) scores" for scores
  by unfold_locales (simp add: WithHazards_def NewModel_def builtin_ok)

interpretation comfortable: valid_model "WithHazards (NewModel Comfortable) scores" for scores
  by unfold_locales (simp add: WithHazards_def NewModel_def builtin_ok)

interpretation confident: valid_model "WithHazards (NewModel Confident) scores" for scores
  by unfold_locales (simp add: WithHazards_def NewModel_def builtin_ok)

interpretation shortest: valid_model "WithHazards (NewModel Shortest) scores" for scores
  by unfold_locales (simp add: WithHazards_def NewModel_def builtin_ok)

lemma valid_model_pricing:
  "profile_ok (mProfile m) \<Longrightarrow> edge_pricing (Model_EdgeCost m) (Model_TurnCost m)"
  by unfold_locales (simp_all add: Model_EdgeCost_ge_length Model_TurnCost_range)

text \<open>
  Among scored edges alike in everything else, the one with the higher stress level never has the lower multiplier, whichever side of the rider's threshold they fall on.
\<close>

lemma more_stress_costs_more:
  assumes "profile_ok (mProfile m)" and "1 \<le> LTS g ! e" "LTS g ! e \<le> LTS g ! f" "LTS g ! f \<le> 4"
    and "CrashScore g ! e = CrashScore g ! f" "Surface g ! e = Surface g ! f"
      "GradePct g ! e = GradePct g ! f" "Lit g ! e = Lit g ! f" "hazardScore m e = hazardScore m f"
  shows "Multiplier m g e \<le> Multiplier m g f \<and> (Model_Over m g e \<longrightarrow> Model_Over m g f)"
  using Multiplier_mono_LTS [OF assms] assms(2,3) by (simp add: Model_Over_def Let_def)

text \<open>
  A profile validates, in any order of checking, exactly when its threshold is a stress level, its weights lie in [0, 10], its detour ratio in [1, 10] and its budget in [0, 20000]; and every profile known by name validates.
\<close>

lemma profile_validation:
  assumes "mset ws = mset (profile_weights p)"
  shows "(Validate ws p = None \<longleftrightarrow> 1 \<le> MaxLTS p \<and> MaxLTS p \<le> 4 \<and>
      list_all (\<lambda>w. 0 \<le> w \<and> w \<le> 10) [WeightLTS p, WeightCrash p, WeightGrade p, WeightSurface p,
        WeightLight p, WeightTurn p, WeightHazard p] \<and>
      1 \<le> MaxDetourRatio p \<and> MaxDetourRatio p \<le> 10 \<and> 0 \<le> StressBudgetM p \<and> StressBudgetM p \<le> 20000) \<and>
    (ProfileByName name = Some p \<longrightarrow> Validate ws p = None)"
  using Validate_iff [OF assms] ProfileByName_ok [of name p]
  by (auto simp: profile_ok_def profile_weights_def)

end
