(* ===== verification/Safety_Report.thy ===== *)
theory Safety_Report
  imports Safety_Cost
begin

text \<open>
  The route summaries of \<open>internal/safety/cost.go\<close>: \<open>Score\<close>, one number from 0 to 100, and
  \<open>Summarise\<close>, the breakdown of a route by stress level and facility.  The theorems bound the score
  and show that the breakdown accounts for every metre.
\<close>

section \<open>The score\<close>

definition ltsQuality :: "real list" where
  "ltsQuality = [3 / 10, 1, 8 / 10, 35 / 100, 0]"

definition quality_of :: "graph \<Rightarrow> nat \<Rightarrow> real" where
  "quality_of g e = (let lts = LTS g ! e; lts = (if lts \<ge> length ltsQuality then 0 else lts)
     in ltsQuality ! lts)"

definition score_step :: "graph \<Rightarrow> nat \<Rightarrow> real \<times> real \<Rightarrow> real \<times> real" where
  "score_step g e s =
     (let (total, weighted) = s; l = LengthM g ! e in (total + l, weighted + l * quality_of g e))"

definition Score :: "graph \<Rightarrow> nat list \<Rightarrow> real" where
  "Score g edges =
     (let (total, weighted) = fold (score_step g) edges (0, 0)
      in if total = 0 then 0 else 100 * weighted / total)"

lemma quality_of_range: "0 \<le> quality_of g e \<and> quality_of g e \<le> 1"
proof -
  have "n < 5 \<Longrightarrow> 0 \<le> ltsQuality ! n \<and> ltsQuality ! n \<le> 1" for n
    by (auto simp: ltsQuality_def less_Suc_eq numeral_eq_Suc nth_Cons split: nat.splits)
  then show ?thesis by (auto simp: quality_of_def Let_def ltsQuality_def)
qed

lemma score_fold_eq:
  "fold (score_step g) edges (t, w) =
     (t + path_length g edges, w + sum_list (map (\<lambda>e. LengthM g ! e * quality_of g e) edges))"
  by (induction edges arbitrary: t w) (auto simp: score_step_def path_length_def Let_def)

lemma path_length_nonneg: "\<forall>e\<in>set es. 0 \<le> LengthM g ! e \<Longrightarrow> 0 \<le> path_length g es"
  unfolding path_length_def by (rule sum_list_nonneg) auto

lemma Score_eq:
  "path_length g edges \<noteq> 0 \<Longrightarrow> Score g edges =
     100 * sum_list (map (\<lambda>e. LengthM g ! e * quality_of g e) edges) / path_length g edges"
  by (simp add: Score_def score_fold_eq)

lemma weighted_range:
  assumes "\<forall>e\<in>set es. 0 \<le> LengthM g ! e" and "\<forall>e\<in>set es. a \<le> quality_of g e \<and> quality_of g e \<le> b"
  shows "a * path_length g es \<le> sum_list (map (\<lambda>e. LengthM g ! e * quality_of g e) es)"
    and "sum_list (map (\<lambda>e. LengthM g ! e * quality_of g e) es) \<le> b * path_length g es"
  using assms
proof (induction es)
  case (Cons e es)
  {
    case 1
    then have "LengthM g ! e * a \<le> LengthM g ! e * quality_of g e" by (simp add: mult_left_mono)
    with 1 Cons.IH(1) show ?case by (simp add: path_length_def algebra_simps)
  next
    case 2
    then have "LengthM g ! e * quality_of g e \<le> LengthM g ! e * b" by (simp add: mult_left_mono)
    with 2 Cons.IH(2) show ?case by (simp add: path_length_def algebra_simps)
  }
qed (simp_all add: path_length_def)

lemma Score_between:
  assumes len: "\<forall>e\<in>set es. 0 \<le> LengthM g ! e" and pos: "path_length g es \<noteq> 0"
    and q: "\<forall>e\<in>set es. a \<le> quality_of g e \<and> quality_of g e \<le> b"
  shows "100 * a \<le> Score g es \<and> Score g es \<le> 100 * b"
proof -
  have "0 < path_length g es" using path_length_nonneg [OF len] pos by simp
  then show ?thesis
    using weighted_range [OF len q] by (simp add: Score_eq [OF pos] field_simps)
qed

lemma Score_range:
  assumes "\<forall>e\<in>set es. 0 \<le> LengthM g ! e"
  shows "0 \<le> Score g es \<and> Score g es \<le> 100"
proof (cases "path_length g es = 0")
  case True
  then show ?thesis by (simp add: Score_def score_fold_eq)
next
  case False
  then show ?thesis using Score_between [OF assms False, of 0 1] quality_of_range by simp
qed

section \<open>The breakdown\<close>

record Breakdown =
  ByLTS :: "string \<rightharpoonup> real"
  ByInfra :: "string \<rightharpoonup> real"
  CrashExposureM :: real
  ClimbM :: real
  DescentM :: real
  SteepM :: real
  HazardM :: real

definition ltsNames :: "string list" where
  "ltsNames = [''unknown'', ''lts1'', ''lts2'', ''lts3'', ''lts4'']"

text \<open>\<open>m[k] += v\<close>: a missing key reads as zero.\<close>

definition add_to :: "(string \<rightharpoonup> real) \<Rightarrow> string \<Rightarrow> real \<Rightarrow> (string \<rightharpoonup> real)" where
  "add_to m k v = m(k \<mapsto> (case m k of None \<Rightarrow> 0 | Some x \<Rightarrow> x) + v)"

definition tenth :: "real \<Rightarrow> real" where
  "tenth v = of_int (math_Round (v * 10)) / 10"

definition lts_name :: "graph \<Rightarrow> nat \<Rightarrow> string" where
  "lts_name g e = (let lts = LTS g ! e; lts = (if lts \<ge> length ltsNames then 0 else lts)
     in ltsNames ! lts)"

definition empty_breakdown :: Breakdown where
  "empty_breakdown = \<lparr>ByLTS = Map.empty, ByInfra = Map.empty, CrashExposureM = 0, ClimbM = 0,
     DescentM = 0, SteepM = 0, HazardM = 0\<rparr>"

definition summarise_step :: "Model \<Rightarrow> graph \<Rightarrow> nat \<Rightarrow> Breakdown \<Rightarrow> Breakdown" where
  "summarise_step m g e b =
     (let l = LengthM g ! e;
          rise = GradePct g ! e / 100 * l
      in \<lparr>ByLTS = add_to (ByLTS b) (lts_name g e) l,
          ByInfra = add_to (ByInfra b) (infra_String (Infra g ! e)) l,
          CrashExposureM = CrashExposureM b + l * CrashScore g ! e,
          ClimbM = (if rise > 0 then ClimbM b + rise else ClimbM b),
          DescentM = (if rise > 0 then DescentM b else DescentM b + - rise),
          SteepM = (if \<bar>GradePct g ! e\<bar> > GradeDeadbandPct then SteepM b + l else SteepM b),
          HazardM = (if hazardScore m e > 0 then HazardM b + l else HazardM b)\<rparr>)"

definition round_breakdown :: "Breakdown \<Rightarrow> Breakdown" where
  "round_breakdown b =
     \<lparr>ByLTS = (\<lambda>k. map_option tenth (ByLTS b k)), ByInfra = (\<lambda>k. map_option tenth (ByInfra b k)),
      CrashExposureM = tenth (CrashExposureM b), ClimbM = tenth (ClimbM b),
      DescentM = tenth (DescentM b), SteepM = tenth (SteepM b), HazardM = tenth (HazardM b)\<rparr>"

definition Summarise :: "Model \<Rightarrow> graph \<Rightarrow> nat list \<Rightarrow> Breakdown" where
  "Summarise m g edges = round_breakdown (fold (summarise_step m g) edges empty_breakdown)"

section \<open>Every metre is accounted for\<close>

definition entry :: "(string \<rightharpoonup> real) \<Rightarrow> string \<Rightarrow> real" where
  "entry m k = (case m k of None \<Rightarrow> 0 | Some x \<Rightarrow> x)"

lemma entry_add_to: "entry (add_to m k v) j = entry m j + (if j = k then v else 0)"
  by (auto simp: entry_def add_to_def split: option.splits)

definition length_where :: "graph \<Rightarrow> (nat \<Rightarrow> bool) \<Rightarrow> nat list \<Rightarrow> real" where
  "length_where g P es = path_length g (filter P es)"

lemma length_where_Cons:
  "length_where g P (e # es) = (if P e then LengthM g ! e else 0) + length_where g P es"
  by (simp add: length_where_def path_length_def)

lemma summarise_fold:
  "let b' = fold (summarise_step m g) es b in
     (\<forall>k. entry (ByLTS b') k = entry (ByLTS b) k + length_where g (\<lambda>e. lts_name g e = k) es) \<and>
     (\<forall>k. entry (ByInfra b') k = entry (ByInfra b) k + length_where g (\<lambda>e. infra_String (Infra g ! e) = k) es) \<and>
     SteepM b' = SteepM b + length_where g (\<lambda>e. \<bar>GradePct g ! e\<bar> > GradeDeadbandPct) es \<and>
     HazardM b' = HazardM b + length_where g (\<lambda>e. hazardScore m e > 0) es \<and>
     ClimbM b' - DescentM b' = ClimbM b - DescentM b + sum_list (map (\<lambda>e. GradePct g ! e / 100 * LengthM g ! e) es)"
proof (induction es arbitrary: b)
  case Nil
  then show ?case by (simp add: length_where_def path_length_def)
next
  case (Cons e es)
  show ?case
    using Cons.IH [of "summarise_step m g e b"]
    by (simp add: Let_def length_where_Cons)
      (auto simp: summarise_step_def Let_def entry_add_to)
qed

lemma tenth_error: "\<bar>tenth v - v\<bar> \<le> 5 / 100"
  using math_Round_error [of "v * 10"] by (simp add: tenth_def abs_le_iff field_simps)

lemma tenth_zero [simp]: "tenth 0 = 0"
  using math_Round_of_int [of 0] by (simp add: tenth_def)

lemma entry_round: "entry (\<lambda>k. map_option tenth (m k)) k = tenth (entry m k)"
  by (simp add: entry_def split: option.splits)

lemma summarise_entries:
  "entry (ByLTS (Summarise m g es)) k = tenth (length_where g (\<lambda>e. lts_name g e = k) es)"
  "entry (ByInfra (Summarise m g es)) k = tenth (length_where g (\<lambda>e. infra_String (Infra g ! e) = k) es)"
  "SteepM (Summarise m g es) = tenth (length_where g (\<lambda>e. \<bar>GradePct g ! e\<bar> > GradeDeadbandPct) es)"
  "HazardM (Summarise m g es) = tenth (length_where g (\<lambda>e. hazardScore m e > 0) es)"
  using summarise_fold [of m g es empty_breakdown]
  by (simp_all add: Summarise_def round_breakdown_def entry_round Let_def)
    (simp_all add: empty_breakdown_def entry_def)

lemma lts_name_mem: "lts_name g e \<in> set ltsNames"
proof -
  have "0 < length ltsNames" by (simp add: ltsNames_def)
  then show ?thesis by (auto simp: lts_name_def Let_def intro: nth_mem)
qed

text \<open>A list of lengths split by a key with finitely many values.\<close>

lemma partition_sum:
  assumes "distinct ks" and "\<forall>e\<in>set es. key e \<in> set ks"
  shows "sum_list (map (\<lambda>k. length_where g (\<lambda>e. key e = k) es) ks) = path_length g es"
  using assms(2)
proof (induction es)
  case Nil
  then show ?case by (simp add: length_where_def path_length_def)
next
  case (Cons e es)
  have "sum_list (map (\<lambda>k. if key e = k then LengthM g ! e else 0) ks) = LengthM g ! e"
    using Cons.prems assms(1) by (simp add: sum_list_distinct_conv_sum_set)
  then show ?case
    using Cons by (simp add: length_where_Cons sum_list_addf path_length_def)
qed

lemma tenth_sum_error:
  "\<bar>sum_list (map (\<lambda>k. tenth (f k)) ks) - sum_list (map f ks)\<bar> \<le> real (length ks) * (5 / 100)"
proof (induction ks)
  case (Cons k ks)
  have "real (length (k # ks)) * (5 / 100) = real (length ks) * (5 / 100) + 5 / 100"
    by (simp add: algebra_simps)
  then show ?case using Cons tenth_error [of "f k"] unfolding list.map sum_list.Cons by linarith
qed simp

lemma by_lts_total:
  "\<bar>sum_list (map (entry (ByLTS (Summarise m g es))) ltsNames) - path_length g es\<bar> \<le> 25 / 100"
proof -
  let ?f = "\<lambda>k. length_where g (\<lambda>e. lts_name g e = k) es"
  have d: "distinct ltsNames" "length ltsNames = 5" by (simp_all add: ltsNames_def)
  have eq: "sum_list (map (entry (ByLTS (Summarise m g es))) ltsNames) = sum_list (map (\<lambda>k. tenth (?f k)) ltsNames)"
    by (intro arg_cong [where f = sum_list] map_cong refl summarise_entries(1))
  have "sum_list (map ?f ltsNames) = path_length g es"
    by (rule partition_sum [OF d(1)]) (simp add: lts_name_mem)
  then show ?thesis unfolding eq using tenth_sum_error [of ?f ltsNames] d(2) by simp
qed

lemma by_lts_keys: "ByLTS (Summarise m g es) k \<noteq> None \<longleftrightarrow> (\<exists>e\<in>set es. lts_name g e = k)"
proof -
  have "ByLTS (fold (summarise_step m g) es b) k \<noteq> None \<longleftrightarrow> ByLTS b k \<noteq> None \<or> (\<exists>e\<in>set es. lts_name g e = k)" for b
    by (induction es arbitrary: b) (auto simp: summarise_step_def add_to_def Let_def)
  then show ?thesis by (simp add: Summarise_def round_breakdown_def empty_breakdown_def)
qed

section \<open>The baseline profile and the budget\<close>

lemma shortest_cost:
  "Model_EdgeCost (WithHazards (NewModel Shortest) scores) g e = LengthM g ! e"
  "Model_TurnCost (WithHazards (NewModel Shortest) scores) g e f = 0"
  by (simp_all add: Model_EdgeCost_def Multiplier_def Model_TurnCost_def WithHazards_def NewModel_def
      Shortest_def Let_def)

lemma OverThresholdM_exposure:
  assumes "Over opt = Some (Model_Over m)"
  shows "OverThresholdM m g es = exposure opt g es"
proof -
  have "fold (\<lambda>e total. if Model_Over m g e then total + LengthM g ! e else total) es t =
      t + exposure opt g es" for t
    using assms by (induction es arbitrary: t) (auto simp: exposure_def path_length_def is_over_def)
  then show ?thesis by (simp add: OverThresholdM_def)
qed

lemma score_is_a_percentage:
  assumes "\<forall>e\<in>set es. 0 \<le> LengthM g ! e"
  shows "0 \<le> Score g es \<and> Score g es \<le> 100 \<and>
    (path_length g es \<noteq> 0 \<and> (\<forall>e\<in>set es. LTS g ! e = 1) \<longrightarrow> Score g es = 100)"
proof -
  have "Score g es = 100" if "path_length g es \<noteq> 0" "\<forall>e\<in>set es. LTS g ! e = 1"
    using Score_between [OF assms that(1), of 1 1] that(2)
    by (simp add: quality_of_def ltsQuality_def Let_def)
  then show ?thesis using Score_range [OF assms] by blast
qed

text \<open>The profile called shortest is the distance baseline.\<close>

lemma shortest_profile_is_distance:
  "Model_EdgeCost (WithHazards (NewModel Shortest) scores) = LengthOnlyCost \<and>
   Model_TurnCost (WithHazards (NewModel Shortest) scores) g e f = 0"
  by (simp add: fun_eq_iff shortest_cost LengthOnlyCost_def)

end
