(* ===== verification/Search_Pool.thy ===== *)
theory Search_Pool
  imports Search_Sound
begin

text \<open>
  The pooled workspace of \<open>workspace.go\<close> carries the contents of earlier searches, and \<open>usedM\<close>
  is handed out without a reset.  A search reads \<open>usedM\<close> only at states it has reached, so two
  workspaces that differ elsewhere give the same result: the pool cannot be observed.
\<close>

definition agree :: "workspace \<Rightarrow> workspace \<Rightarrow> bool" where
  "agree w w' \<longleftrightarrow> w' = w\<lparr>usedM := usedM w'\<rparr> \<and>
     length (usedM w) = length (dist w) \<and> length (usedM w') = length (dist w) \<and>
     (\<forall>i<length (dist w). dist w ! i \<noteq> None \<longrightarrow> usedM w ! i = usedM w' ! i)"

lemma agree_fields:
  assumes "agree w w'"
  shows "dist w' = dist w" "prev w' = prev w" "settled w' = settled w" "hcache w' = hcache w"
    "queue w' = queue w"
  using assms unfolding agree_def by (metis workspace.select_convs workspace.surjective
      workspace.update_convs)+

lemma agree_used:
  "agree w w' \<Longrightarrow> i < length (dist w) \<Longrightarrow> dist w ! i = Some c \<Longrightarrow> usedM w ! i = usedM w' ! i"
  by (simp add: agree_def)

lemma agreeI:
  assumes "dist w' = dist w" "prev w' = prev w" "settled w' = settled w" "hcache w' = hcache w"
    "queue w' = queue w" "length (usedM w) = length (dist w)" "length (usedM w') = length (dist w)"
    and "\<And>i c. i < length (dist w) \<Longrightarrow> dist w ! i = Some c \<Longrightarrow> usedM w ! i = usedM w' ! i"
  shows "agree w w'"
  using assms by (auto simp: agree_def)

lemma agree_lengths:
  "agree w w' \<Longrightarrow> length (usedM w) = length (dist w) \<and> length (usedM w') = length (dist w)"
  by (simp add: agree_def)

lemma agree_write:
  assumes a: "agree w w'"
  shows "agree (w\<lparr>dist := (dist w)[i := Some c], usedM := (usedM w)[i := u], prev := p\<rparr>)
     (w'\<lparr>dist := (dist w')[i := Some c], usedM := (usedM w')[i := u], prev := p\<rparr>)"
  by (rule agreeI)
    (use agree_fields [OF a] agree_lengths [OF a] agree_used [OF a] in
      \<open>auto simp: nth_update_eq_if split: if_splits\<close>)

lemma agree_enqueue:
  assumes a: "agree w w'"
  shows "agree (enqueue g opt goal e st c w) (enqueue g opt goal e st c w')"
  by (rule agreeI)
    (use agree_fields [OF a] agree_lengths [OF a] agree_used [OF a] in
      \<open>auto simp: enqueue_def heur_def Let_def split: prod.splits if_splits\<close>)

lemma agree_seed_step:
  assumes a: "agree w w'"
  shows "rel_outcome (=) agree (seed_step g opt goal nb stepM e w) (seed_step g opt goal nb stepM e w')"
proof -
  have p: "agree (w\<lparr>dist := (dist w)[i := Some c], usedM := (usedM w)[i := u]\<rparr>)
      (w'\<lparr>dist := (dist w)[i := Some c], usedM := (usedM w')[i := u]\<rparr>)" for i c u
    by (rule agreeI)
      (use agree_fields [OF a] agree_lengths [OF a] agree_used [OF a] in
        \<open>auto simp: nth_update_eq_if split: if_splits\<close>)
  show ?thesis
    using a agree_fields [OF a] p by (simp add: seed_step_def Let_def in_states_def agree_enqueue)
qed

lemma agree_relax_step:
  assumes a: "agree w w'"
  shows "rel_outcome (=) agree (relax_step g opt goal nb stepM st e spent f w)
    (relax_step g opt goal nb stepM st e spent f w')"
  using a agree_fields [OF a] agree_write [OF a]
  by (simp add: relax_step_def Let_def in_states_def agree_enqueue split: option.splits)

lemma foldM_agree:
  assumes "\<And>x w w'. agree w w' \<Longrightarrow> rel_outcome (=) agree (f x w) (f x w')"
  shows "agree w w' \<Longrightarrow> rel_outcome (=) agree (foldM f xs w) (foldM f xs w')"
proof (induction xs arbitrary: w w')
  case (Cons x xs)
  then show ?case using assms [OF Cons.prems, of x] by (auto elim!: outcome.rel_cases)
qed simp

lemma agree_drop_top:
  assumes a: "agree w w'"
  shows "agree (drop_top w) (drop_top w')"
  by (rule agreeI) (use agree_fields [OF a] agree_lengths [OF a] agree_used [OF a] in auto)

lemma agree_settle_top:
  assumes a: "agree w w'"
  shows "agree (settle_top w) (settle_top w')"
proof -
  have "top_state w' = top_state w" using agree_fields [OF a] by (simp add: top_state_def)
  then show ?thesis
    by (intro agreeI)
      (use agree_fields [OF a] agree_lengths [OF a] agree_used [OF a] in auto)
qed

lemma agree_top:
  assumes a: "agree w w'" and "search_inv g opt start nb w" "queue w \<noteq> []"
  shows "top_state w' = top_state w" "top_edge nb w' = top_edge nb w"
    "usedM w' ! nat (top_state w) = usedM w ! nat (top_state w)"
    "\<not> top_state w < 0" "\<not> int (length (settled w)) \<le> top_state w"
proof -
  show "\<not> top_state w < 0" "\<not> int (length (settled w)) \<le> top_state w"
    using top_state_facts [OF assms(2,3)] by auto
  show t: "top_state w' = top_state w" using agree_fields [OF a] by (simp add: top_state_def)
  then show "top_edge nb w' = top_edge nb w" by (simp add: top_edge_def)
  show "usedM w' ! nat (top_state w) = usedM w ! nat (top_state w)"
    using top_state_facts [OF assms(2,3)] agree_used [OF a] by metis
qed

definition same_end :: "(search_err, int \<times> int \<times> workspace) outcome \<Rightarrow>
    (search_err, int \<times> int \<times> workspace) outcome \<Rightarrow> bool" where
  "same_end = rel_outcome (=) (rel_prod (=) (rel_prod (=) agree))"

lemma search_loop_agree:
  assumes ok: "search_ok g opt" and start: "start < NumNodes g"
    and nb: "(nb, stepM) = budgetBuckets opt"
    and inv: "search_inv g opt start nb w" and a: "agree w w'"
  shows "same_end (search_loop g opt goal nb stepM maxExp n w) (search_loop g opt goal nb stepM maxExp n w')"
proof -
  define R where "R = search_loop g opt goal nb stepM maxExp n w'"
  let ?I = "\<lambda>n w. search_inv g opt start nb w \<and>
    (\<exists>w'. agree w w' \<and> search_loop g opt goal nb stepM maxExp n w' = R)"
  have "(\<lambda>r. same_end r R) (search_loop g opt goal nb stepM maxExp n w)"
  proof (rule search_loop_rule [where I = ?I])
    show "?I n w" using inv a R_def by blast
  next
    fix n w
    assume "?I n w" "queue w \<noteq> []"
    then show "0 \<le> top_state w \<and> top_state w < int (length (settled w))"
      using top_state_facts [of g opt start nb w] by auto
  next
    fix n w
    assume I: "?I n w" and ne: "queue w \<noteq> []" and s: "settled w ! nat (top_state w)"
    from I obtain w' where w': "agree w w'" "search_loop g opt goal nb stepM maxExp n w' = R"
      and inv: "search_inv g opt start nb w" by blast
    note eq = agree_fields [OF w'(1)] agree_top [OF w'(1) inv ne] top_state_facts [OF inv ne]
    have "search_loop g opt goal nb stepM maxExp n w' = search_loop g opt goal nb stepM maxExp n (drop_top w')"
      by (subst search_loop_unfold) (use eq ne s in simp)
    with w'(2) have "search_loop g opt goal nb stepM maxExp n (drop_top w') = R" by simp
    then show "?I n (drop_top w)" using agree_drop_top [OF w'(1)] inv_drop_top [OF inv ne] by blast
  next
    fix n w
    assume I: "?I n w" and ne: "queue w \<noteq> []" and s: "\<not> settled w ! nat (top_state w)"
      and n: "n + 1 \<le> maxExp" and ng: "To g ! top_edge nb w \<noteq> goal"
    from I obtain w' where w': "agree w w'" "search_loop g opt goal nb stepM maxExp n w' = R"
      and inv: "search_inv g opt start nb w" by blast
    note eq = agree_fields [OF w'(1)] agree_top [OF w'(1) inv ne] top_state_facts [OF inv ne]
    obtain d where d: "dist w ! nat (top_state w) = Some d" using eq by blast
    obtain w1 where w1: "relax_all g opt goal nb stepM w = Ok w1" "search_inv g opt start nb w1"
      using relax_all_rule [OF ok start nb inv ne d, of "\<lambda>_ _. True"] by blast
    have "rel_outcome (=) agree (relax_all g opt goal nb stepM w) (relax_all g opt goal nb stepM w')"
      unfolding relax_all_def eq using agree_settle_top [OF w'(1)] agree_relax_step
      by (intro foldM_agree) auto
    then obtain w1' where w1': "relax_all g opt goal nb stepM w' = Ok w1'" "agree w1 w1'"
      using w1(1) by (auto elim: outcome.rel_cases)
    have "search_loop g opt goal nb stepM maxExp n w' = search_loop g opt goal nb stepM maxExp (n + 1) w1'"
      by (subst search_loop_unfold) (use eq ne s n ng w1'(1) in simp)
    with w'(2) have "search_loop g opt goal nb stepM maxExp (n + 1) w1' = R" by simp
    then show "\<exists>w'. relax_all g opt goal nb stepM w = Ok w' \<and> ?I (n + 1) w'" using w1 w1' by blast
  next
    fix n w
    assume I: "?I n w" and ne: "queue w \<noteq> []" and s: "\<not> settled w ! nat (top_state w)"
      and n: "n + 1 \<le> maxExp" and g: "To g ! top_edge nb w = goal"
    from I obtain w' where w': "agree w w'" "search_loop g opt goal nb stepM maxExp n w' = R"
      and inv: "search_inv g opt start nb w" by blast
    note eq = agree_fields [OF w'(1)] agree_top [OF w'(1) inv ne] top_state_facts [OF inv ne]
    have "search_loop g opt goal nb stepM maxExp n w' = Ok (top_state w, n + 1, settle_top w')"
      by (subst search_loop_unfold) (use eq ne s n g in simp)
    with w'(2) have "R = Ok (top_state w, n + 1, settle_top w')" by simp
    then show "same_end (Ok (top_state w, n + 1, settle_top w)) R"
      using agree_settle_top [OF w'(1)] by (simp add: same_end_def)
  next
    fix n w
    assume I: "?I n w" and e: "queue w = []"
    then obtain w' where w': "agree w w'" "search_loop g opt goal nb stepM maxExp n w' = R" by blast
    have "search_loop g opt goal nb stepM maxExp n w' = Err ErrUnroutable"
      by (subst search_loop_unfold) (use e agree_fields [OF w'(1)] in simp)
    with w'(2) have "R = Err ErrUnroutable" by simp
    then show "same_end (Err ErrUnroutable) R" by (simp add: same_end_def)
  next
    fix n w
    assume I: "?I n w" and ne: "queue w \<noteq> []" and s: "\<not> settled w ! nat (top_state w)"
      and n: "maxExp < n + 1"
    from I obtain w' where w': "agree w w'" "search_loop g opt goal nb stepM maxExp n w' = R"
      and inv: "search_inv g opt start nb w" by blast
    note eq = agree_fields [OF w'(1)] agree_top [OF w'(1) inv ne] top_state_facts [OF inv ne]
    have "search_loop g opt goal nb stepM maxExp n w' = Err ErrUnroutable"
      by (subst search_loop_unfold) (use eq ne s n in simp)
    with w'(2) have "R = Err ErrUnroutable" by simp
    then show "same_end (Err ErrUnroutable) R" by (simp add: same_end_def)
  qed
  then show ?thesis by (simp add: R_def)
qed

lemma agree_getWorkspace: "agree (getWorkspace p n k) (getWorkspace q n k)"
  by (rule agreeI)
    (auto intro!: nth_equalityI simp: getWorkspace_fields)

lemma Search_pool:
  assumes ok: "search_ok g opt"
  shows "Search g p start goal opt = Search g q start goal opt"
proof (cases "start = goal \<or> validate g start goal \<noteq> None")
  case True
  then show ?thesis by (auto simp: Search_def split: option.splits)
next
  case False
  then have ne: "start \<noteq> goal" and v: "validate g start goal = None" by auto
  note fits = search_ok_facts(4) [OF ok]
  have start: "nat start < NumNodes g" using validate_None [OF fits v] by simp
  let ?nb = "fst (budgetBuckets opt)"
  note S = Search_unfold [OF fits ne v]
  obtain w where w: "run_seed g opt p (nat start) (nat goal) = Ok w" "search_inv g opt (nat start) ?nb w"
    using run_seed_returns [OF ok start] by blast
  have "rel_outcome (=) agree (run_seed g opt p (nat start) (nat goal)) (run_seed g opt q (nat start) (nat goal))"
    unfolding run_seed_def seed_all_def by (intro foldM_agree agree_seed_step agree_getWorkspace)
  then obtain w' where w': "run_seed g opt q (nat start) (nat goal) = Ok w'" "agree w w'"
    using w(1) by (auto elim: outcome.rel_cases)
  have same: "same_end (run_loop g opt (nat goal) w) (run_loop g opt (nat goal) w')"
    unfolding run_loop_def by (rule search_loop_agree [OF ok start _ w(2) w'(2)]) simp
  have ret: "run_loop g opt (nat goal) w = Err ErrUnroutable \<or> (\<exists>x. run_loop g opt (nat goal) w = Ok x \<and>
      goal_state g opt (nat start) (nat goal) ?nb x)"
    unfolding run_loop_def
    using search_loop_returns [OF ok start _ w(2), of "snd (budgetBuckets opt)" "nat goal" "expansion_limit opt" 0]
    by auto
  show ?thesis
  proof (cases "run_loop g opt (nat goal) w")
    case (Ok x)
    obtain st n w1 where x: "x = (st, n, w1)" by (metis prod.exhaust)
    from same Ok x obtain w2 where w2: "run_loop g opt (nat goal) w' = Ok (st, n, w2)" "agree w1 w2"
      by (auto simp: same_end_def elim!: outcome.rel_cases)
    have gs: "goal_state g opt (nat start) (nat goal) ?nb (st, n, w1)" using ret Ok x by auto
    then obtain c where c: "dist w1 ! nat st = Some c" by (auto simp: goal_state_def)
    have "nat st < length (dist w1)"
      using gs by (auto simp: goal_state_def search_inv_def sized_def)
    then have "usedM w1 ! nat st = usedM w2 ! nat st" using agree_used [OF w2(2) _ c] by simp
    then show ?thesis using S w w' Ok x w2 c agree_fields [OF w2(2)] by simp
  next
    case (Err e)
    then show ?thesis using same S w w' by (auto simp: same_end_def elim!: outcome.rel_cases)
  next
    case Panic
    then show ?thesis using ret by simp
  qed
qed

end
