(* ===== verification/Alternatives.thy ===== *)
theory Alternatives
  imports Search_Pool Search_Optimal
begin

text \<open>
  \<open>internal/routing/alternatives.go\<close>: iterative penalisation.  After the best route, up to six
  more searches run with the used edges made dearer, and a result is kept when it is not much
  worse and shares little with the routes kept before it.  \<open>pool k\<close> is the workspace the pool
  hands to a search; \<open>Search_Pool\<close> shows that it does not matter.
\<close>

section \<open>The code\<close>

definition AlternativePenalty :: real where "AlternativePenalty = 2"
definition MaxOverlap :: real where "MaxOverlap = 7 / 10"
definition MaxCostRatio :: real where "MaxCostRatio = 16 / 10"
definition maxAttempts :: nat where "maxAttempts = 6"

definition mark_reverse :: "graph \<Rightarrow> nat \<Rightarrow> nat set \<Rightarrow> nat set" where
  "mark_reverse g e s = fold (\<lambda>f s. if IsReverseOf g e f then insert f s else s)
     (out_list g (To g ! e)) s"

definition markUsed :: "graph \<Rightarrow> path \<Rightarrow> nat set \<Rightarrow> nat set" where
  "markUsed g p s = fold (\<lambda>e s. mark_reverse g e (insert e s)) (pEdges p) s"

definition shared_length :: "graph \<Rightarrow> path \<Rightarrow> path \<Rightarrow> real" where
  "shared_length g cand r =
     fold (\<lambda>e shared. if e \<in> set (pEdges r) then shared + LengthM g ! e else shared) (pEdges cand) 0"

definition isDistinct :: "graph \<Rightarrow> path \<Rightarrow> path list \<Rightarrow> bool" where
  "isDistinct g cand accepted =
     (let candLen = pLengthM cand
      in if candLen \<le> 0 then False
         else list_all (\<lambda>r. \<not> (shared_length g cand r / candLen > MaxOverlap)) accepted)"

definition scorePath :: "graph \<Rightarrow> options \<Rightarrow> nat list \<Rightarrow> real" where
  "scorePath g opt edges =
     fold (\<lambda>i total.
       let total = total + EdgeCost opt g (edges ! i)
       in if i > 0 \<and> TurnCost opt \<noteq> None then total + turn_cost opt g (edges ! (i - 1)) (edges ! i)
          else total) [0..<length edges] 0"

definition penalised_options :: "options \<Rightarrow> nat set \<Rightarrow> options" where
  "penalised_options opt s = opt\<lparr>EdgeCost := (\<lambda>g e.
     let c = EdgeCost opt g e in if e \<in> s then c * AlternativePenalty else c)\<rparr>"

fun alternatives_loop :: "nat \<Rightarrow> graph \<Rightarrow> (nat \<Rightarrow> workspace option) \<Rightarrow> int \<Rightarrow> int \<Rightarrow> options \<Rightarrow> path \<Rightarrow>
    int \<Rightarrow> path list \<Rightarrow> nat set \<Rightarrow> (search_err, path list) outcome option" where
  "alternatives_loop 0 g pool start goal opt primary n routes s = Some (Ok routes)"
| "alternatives_loop (Suc k) g pool start goal opt primary n routes s =
     (if \<not> int (length routes) < n + 1 then Some (Ok routes)
      else case Search g (pool k) start goal (penalised_options opt s) of
        None \<Rightarrow> None
      | Some Panic \<Rightarrow> Some Panic
      | Some (Err x) \<Rightarrow> Some (Ok routes)
      | Some (Ok cand) \<Rightarrow>
          if pEdges cand = [] then Some (Ok routes)
          else
            let trueCost = scorePath g opt (pEdges cand)
            in if trueCost > pCost primary * MaxCostRatio then Some (Ok routes)
               else if \<not> isDistinct g cand routes
               then alternatives_loop k g pool start goal opt primary n routes (markUsed g cand s)
               else alternatives_loop k g pool start goal opt primary n
                      (routes @ [cand\<lparr>pCost := trueCost\<rparr>]) (markUsed g cand s))"

definition Alternatives :: "graph \<Rightarrow> (nat \<Rightarrow> workspace option) \<Rightarrow> int \<Rightarrow> int \<Rightarrow> options \<Rightarrow> int \<Rightarrow>
    (search_err, path list) outcome option" where
  "Alternatives g pool start goal opt n =
     (case Search g (pool maxAttempts) start goal opt of
        None \<Rightarrow> None
      | Some Panic \<Rightarrow> Some Panic
      | Some (Err x) \<Rightarrow> Some (Err x)
      | Some (Ok primary) \<Rightarrow>
          if n \<le> 0 \<or> pEdges primary = [] then Some (Ok [primary])
          else alternatives_loop maxAttempts g pool start goal opt primary n [primary]
                 (markUsed g primary {}))"

section \<open>Its parts\<close>

lemma mark_reverse_eq:
  "mark_reverse g e s = s \<union> {f \<in> set (out_list g (To g ! e)). IsReverseOf g e f}"
proof -
  have "fold (\<lambda>f s. if IsReverseOf g e f then insert f s else s) fs s = s \<union> {f \<in> set fs. IsReverseOf g e f}"
    for fs by (induction fs arbitrary: s) auto
  then show ?thesis by (simp add: mark_reverse_def)
qed

lemma markUsed_eq:
  "markUsed g p s = s \<union> set (pEdges p) \<union>
     {f. \<exists>e\<in>set (pEdges p). f \<in> set (out_list g (To g ! e)) \<and> IsReverseOf g e f}"
proof -
  have "fold (\<lambda>e s. mark_reverse g e (insert e s)) es s =
      s \<union> set es \<union> {f. \<exists>e\<in>set es. f \<in> set (out_list g (To g ! e)) \<and> IsReverseOf g e f}" for es
    by (induction es arbitrary: s) (auto simp: mark_reverse_eq)
  then show ?thesis by (simp add: markUsed_def)
qed

lemma shared_length_eq:
  "shared_length g cand r = path_length g (filter (\<lambda>e. e \<in> set (pEdges r)) (pEdges cand))"
proof -
  have "fold (\<lambda>e shared. if e \<in> set (pEdges r) then shared + LengthM g ! e else shared) es t
      = t + path_length g (filter (\<lambda>e. e \<in> set (pEdges r)) es)" for es t
    by (induction es arbitrary: t) (auto simp: path_length_def)
  then show ?thesis by (simp add: shared_length_def)
qed

lemma scorePath_eq: "scorePath g opt es = path_cost g opt es"
proof -
  let ?f = "\<lambda>i total. let total = total + EdgeCost opt g (es ! i)
    in if i > 0 \<and> TurnCost opt \<noteq> None then total + turn_cost opt g (es ! (i - 1)) (es ! i) else total"
  have "k \<le> length es \<Longrightarrow> fold ?f [0..<k] 0 = path_cost g opt (take k es)" for k
  proof (induction k)
    case (Suc k)
    show ?case
    proof (cases k)
      case 0
      then show ?thesis using Suc by (cases es) auto
    next
      case (Suc j)
      have "take (Suc k) es = take j es @ [es ! j, es ! k]" "take k es = take j es @ [es ! j]"
        using \<open>Suc k \<le> length es\<close> Suc by (simp_all add: take_Suc_conv_app_nth)
      then have "path_cost g opt (take (Suc k) es) =
          path_cost g opt (take k es) + EdgeCost opt g (es ! k) + turn_cost opt g (es ! j) (es ! k)"
        by (simp add: path_cost_snoc)
      moreover have "fold ?f [0..<Suc k] 0 =
          fold ?f [0..<k] 0 + EdgeCost opt g (es ! k) + turn_cost opt g (es ! j) (es ! k)"
        using Suc by (simp add: Let_def turn_cost_def)
      ultimately show ?thesis using Suc.IH \<open>Suc k \<le> length es\<close> by simp
    qed
  qed simp
  then show ?thesis by (simp add: scorePath_def)
qed

lemma penalised_fields [simp]:
  "allowed (penalised_options opt s) = allowed opt" "is_over (penalised_options opt s) = is_over opt"
  "turn_cost (penalised_options opt s) = turn_cost opt"
  "BudgetM (penalised_options opt s) = BudgetM opt"
  "expansion_limit (penalised_options opt s) = expansion_limit opt"
  "budgetBuckets (penalised_options opt s) = budgetBuckets opt"
  by (simp_all add: penalised_options_def allowed_def is_over_def turn_cost_def expansion_limit_def
      budgetBuckets_def fun_eq_iff)

lemma search_ok_penalised [simp]: "search_ok g (penalised_options opt s) = search_ok g opt"
  by (simp add: search_ok_def fits_def)

lemma route_penalised [simp]: "route g (penalised_options opt s) = route g opt"
  by (simp add: route_def fun_eq_iff)

text \<open>The penalised search still never prices an edge below its length.\<close>

lemma cost_floor_penalised:
  assumes "cost_floor g opt" and "\<forall>e<NumEdges g. 0 \<le> LengthM g ! e"
  shows "cost_floor g (penalised_options opt s)"
  using assms by (fastforce simp: cost_floor_def penalised_options_def turn_cost_def
      AlternativePenalty_def Let_def)

section \<open>What is offered\<close>

definition offered :: "graph \<Rightarrow> options \<Rightarrow> nat \<Rightarrow> nat \<Rightarrow> path \<Rightarrow> bool" where
  "offered g opt start goal p \<longleftrightarrow> route g opt start goal (pEdges p) \<and>
     pCost p = path_cost g opt (pEdges p) \<and> pLengthM p = path_length g (pEdges p)"

text \<open>The routes after the first: near the first in cost, and apart from each one before.\<close>

definition acceptable :: "graph \<Rightarrow> path \<Rightarrow> path list \<Rightarrow> bool" where
  "acceptable g primary routes \<longleftrightarrow>
     (\<forall>j<length routes. 0 < j \<longrightarrow> pCost (routes ! j) \<le> MaxCostRatio * pCost primary \<and>
        (\<forall>i<j. shared_length g (routes ! j) (routes ! i) \<le> MaxOverlap * pLengthM (routes ! j)))"

lemma found_path_route:
  assumes ok: "search_ok g opt" and start: "start < NumNodes g" and f: "found_path g opt start goal p"
  shows "route g opt start goal (pEdges p) \<and> pCost p = path_cost g opt (pEdges p) \<and>
    pLengthM p = path_length g (pEdges p)"
proof -
  from f have r: "reaches g opt start (rev (pEdges p)) (pCost p) (pBudgetUsedM p)"
    by (simp add: found_path_def)
  have "pEdges p \<noteq> []" using reaches_used_nonneg [OF ok start r] by simp
  then have "hd (rev (pEdges p)) = last (pEdges p)" by (simp add: hd_rev)
  with reaches_route [OF ok start r] f show ?thesis by (simp add: found_path_def)
qed

lemma isDistinct_shared:
  "isDistinct g cand routes \<Longrightarrow> r \<in> set routes \<Longrightarrow> shared_length g cand r \<le> MaxOverlap * pLengthM cand"
  by (auto simp: isDistinct_def Let_def list_all_iff not_less field_simps split: if_splits)

lemma acceptable_snoc:
  assumes "acceptable g primary routes" and "pCost cand \<le> MaxCostRatio * pCost primary"
    and "isDistinct g cand' routes" and "pEdges cand = pEdges cand'" "pLengthM cand = pLengthM cand'"
  shows "acceptable g primary (routes @ [cand])"
  unfolding acceptable_def
proof (intro allI impI)
  fix j
  assume j: "j < length (routes @ [cand])" "0 < j"
  show "pCost ((routes @ [cand]) ! j) \<le> MaxCostRatio * pCost primary \<and>
      (\<forall>i<j. shared_length g ((routes @ [cand]) ! j) ((routes @ [cand]) ! i)
        \<le> MaxOverlap * pLengthM ((routes @ [cand]) ! j))"
  proof (cases "j < length routes")
    case True
    then show ?thesis using assms(1) j by (simp add: acceptable_def nth_append)
  next
    case False
    then have jl: "j = length routes" using j by simp
    have "shared_length g cand r = shared_length g cand' r" for r
      using assms(4) by (simp add: shared_length_eq)
    then show ?thesis using jl assms(2,5) isDistinct_shared [OF assms(3)] by (simp add: nth_append)
  qed
qed

lemma alternatives_loop_ok:
  assumes ok: "search_ok g opt" and ne: "start \<noteq> goal"
    and "int (length routes) \<le> n + 1" "routes \<noteq> []" "acceptable g primary routes"
    and "\<forall>r\<in>set routes. offered g opt (nat start) (nat goal) r"
  shows "\<exists>more. alternatives_loop k g pool start goal opt primary n routes s = Some (Ok (routes @ more)) \<and>
    int (length (routes @ more)) \<le> n + 1 \<and> acceptable g primary (routes @ more) \<and>
    (\<forall>r\<in>set (routes @ more). offered g opt (nat start) (nat goal) r)"
  using assms(3-6)
proof (induction k arbitrary: routes s)
  case 0
  then show ?case by simp
next
  case (Suc k)
  have stay: "\<exists>more. Some (Ok routes) = Some (Ok (routes @ more)) \<and>
      int (length (routes @ more)) \<le> n + 1 \<and> acceptable g primary (routes @ more) \<and>
      (\<forall>r\<in>set (routes @ more). offered g opt (nat start) (nat goal) r)"
    using Suc.prems by (intro exI [of _ "[]"]) simp
  let ?opt = "penalised_options opt s"
  have ok': "search_ok g ?opt" using ok by simp
  show ?case
  proof (cases "int (length routes) < n + 1")
    case False
    then show ?thesis using stay by simp
  next
    case room: True
    from Search_returns [OF ok', of start goal "pool k"] ne
    consider x where "Search g (pool k) start goal ?opt = Some (Err x)"
      | cand where "Search g (pool k) start goal ?opt = Some (Ok cand)"
        "found_path g ?opt (nat start) (nat goal) cand" "nat start < NumNodes g" by blast
    then show ?thesis
    proof cases
      case 1
      then show ?thesis using stay room by simp
    next
      case 2
      let ?c = "scorePath g opt (pEdges cand)"
      have r: "route g opt (nat start) (nat goal) (pEdges cand)" "pLengthM cand = path_length g (pEdges cand)"
        using found_path_route [OF ok' 2(3,2)] by simp_all
      then have edges: "pEdges cand \<noteq> []" by (simp add: route_def)
      show ?thesis
      proof (cases "?c > pCost primary * MaxCostRatio")
        case True
        then show ?thesis using stay room 2(1) edges by simp
      next
        case cheap: False
        show ?thesis
        proof (cases "isDistinct g cand routes")
          case False
          have "\<exists>more. alternatives_loop k g pool start goal opt primary n routes (markUsed g cand s)
                = Some (Ok (routes @ more)) \<and>
              int (length (routes @ more)) \<le> n + 1 \<and> acceptable g primary (routes @ more) \<and>
              (\<forall>r\<in>set (routes @ more). offered g opt (nat start) (nat goal) r)"
            by (rule Suc.IH) (use Suc.prems in auto)
          then show ?thesis using room 2(1) edges cheap False by simp
        next
          case True
          let ?r = "routes @ [cand\<lparr>pCost := ?c\<rparr>]"
          have "acceptable g primary ?r"
            by (rule acceptable_snoc [OF Suc.prems(3) _ True]) (use cheap in \<open>simp_all add: mult.commute\<close>)
          moreover have "offered g opt (nat start) (nat goal) (cand\<lparr>pCost := ?c\<rparr>)"
            using r by (simp add: offered_def scorePath_eq)
          ultimately have "\<exists>more. alternatives_loop k g pool start goal opt primary n ?r (markUsed g cand s)
                = Some (Ok (?r @ more)) \<and>
              int (length (?r @ more)) \<le> n + 1 \<and> acceptable g primary (?r @ more) \<and>
              (\<forall>r\<in>set (?r @ more). offered g opt (nat start) (nat goal) r)"
            using Suc.prems room by (intro Suc.IH) auto
          then obtain more where "alternatives_loop k g pool start goal opt primary n ?r (markUsed g cand s)
                = Some (Ok (?r @ more))" "int (length (?r @ more)) \<le> n + 1" "acceptable g primary (?r @ more)"
              "\<forall>r\<in>set (?r @ more). offered g opt (nat start) (nat goal) r" by blast
          then show ?thesis using room 2(1) edges cheap True
            by (intro exI [of _ "cand\<lparr>pCost := ?c\<rparr> # more"]) simp
        qed
      qed
    qed
  qed
qed

lemma Alternatives_returns:
  assumes ok: "search_ok g opt" and ne: "start \<noteq> goal"
  shows "(\<exists>x. Alternatives g pool start goal opt n = Some (Err x) \<and>
      Search g (pool maxAttempts) start goal opt = Some (Err x)) \<or>
    (\<exists>primary more. Alternatives g pool start goal opt n = Some (Ok (primary # more)) \<and>
      Search g (pool maxAttempts) start goal opt = Some (Ok primary) \<and>
      int (length more) \<le> max 0 n \<and> acceptable g primary (primary # more) \<and>
      (\<forall>r\<in>set (primary # more). offered g opt (nat start) (nat goal) r))"
proof -
  from Search_returns [OF ok, of start goal "pool maxAttempts"] ne
  consider x where "Search g (pool maxAttempts) start goal opt = Some (Err x)"
    | p where "Search g (pool maxAttempts) start goal opt = Some (Ok p)"
      "found_path g opt (nat start) (nat goal) p" "nat start < NumNodes g" by blast
  then show ?thesis
  proof cases
    case 1
    then show ?thesis by (simp add: Alternatives_def)
  next
    case 2
    have off: "offered g opt (nat start) (nat goal) p" and edges: "pEdges p \<noteq> []"
      using found_path_route [OF ok 2(3,2)] by (auto simp: offered_def route_def)
    have acc: "acceptable g p [p]" by (simp add: acceptable_def)
    show ?thesis
    proof (cases "n \<le> 0")
      case True
      then show ?thesis using 2(1) off acc
        by (intro disjI2 exI [of _ p] exI [of _ "[]"]) (simp add: Alternatives_def)
    next
      case False
      then have "\<exists>more. alternatives_loop maxAttempts g pool start goal opt p n [p] (markUsed g p {})
          = Some (Ok ([p] @ more)) \<and> int (length ([p] @ more)) \<le> n + 1 \<and> acceptable g p ([p] @ more) \<and>
          (\<forall>r\<in>set ([p] @ more). offered g opt (nat start) (nat goal) r)"
        using off acc by (intro alternatives_loop_ok [OF ok ne]) auto
      then obtain more where "alternatives_loop maxAttempts g pool start goal opt p n [p] (markUsed g p {})
          = Some (Ok (p # more))" "int (length more) \<le> n" "acceptable g p (p # more)"
          "\<forall>r\<in>set (p # more). offered g opt (nat start) (nat goal) r" by auto
      then show ?thesis using False 2(1) edges
        by (intro disjI2 exI [of _ p] exI [of _ more]) (simp add: Alternatives_def)
    qed
  qed
qed

end
