(* ===== verification/Example_Map.thy ===== *)
theory Example_Map
  imports Safety_Report Search_Pool Alternatives
begin

text \<open>
  A small map on which the general theorems are applied: three junctions, a quiet way round from
  the first to the last in two edges, and a direct arterial.
\<close>

definition demo :: graph where
  "demo = \<lparr>NodeLat = [30, 30, 30], NodeLon = [- 97, - 97, - 97],
     NodeControl = [ControlNone, ControlSignal, ControlNone], NodeMaxLTS = [4, 1, 4],
     From = [0, 0, 1], To = [1, 2, 2], LengthM = [100, 150, 100], DBID = [0, 1, 2],
     Infra = [InfraPath, InfraNone, InfraPath],
     Highway = [HwyCycleway, HwyPrimary, HwyCycleway],
     Surface = [SurfacePaved, SurfacePaved, SurfacePaved],
     MaxSpeed = [- 1, 45, - 1], Lanes = [- 1, 4, - 1], Lit = [- 1, - 1, - 1],
     LTS = [1, 4, 1], CrashScore = [0, 0, 0], GradePct = [0, 0, 0],
     BearingStart = [0, 90, 0], BearingEnd = [0, 90, 0], Offs = [0, 2, 3, 3], dbIndex = [0, 1, 2]\<rparr>"

definition demo_options :: "Model \<Rightarrow> bool \<Rightarrow> options" where
  "demo_options m plain = \<lparr>EdgeCost = Model_EdgeCost m, TurnCost = Some (Model_TurnCost m),
     Allow = Some (Model_Allow m), Over = Some (Model_Over m),
     BudgetM = StressBudgetM (mProfile m), BudgetSteps = 0, MaxExpansions = 0, NoHeuristic = plain\<rparr>"

lemma demo_sizes [simp]: "NumNodes demo = 3" "NumEdges demo = 3"
  by (simp_all add: demo_def NumNodes_def NumEdges_def)

lemma all_less_3: "(\<forall>e<3. P e) \<longleftrightarrow> P 0 \<and> P 1 \<and> P (2::nat)"
  by (auto simp: numeral_eq_Suc less_Suc_eq)

lemma demo_wf: "wf_graph demo"
proof -
  have "wf_arrays demo"
    by (simp add: wf_arrays_def all_less_3) (simp add: demo_def)
  moreover have "wf_offs demo"
    unfolding wf_offs_def demo_sizes all_less_3
    by (auto simp: demo_def numeral_eq_Suc less_Suc_eq)
  ultimately show ?thesis by (simp add: wf_graph_def) (simp add: demo_def)
qed

lemma demo_lengths: "\<forall>e<NumEdges demo. 0 \<le> LengthM demo ! e"
  by (simp add: all_less_3) (simp add: demo_def)

lemma demo_ok: "search_ok demo (demo_options m plain)"
proof -
  have "fst (budgetBuckets (demo_options m plain)) \<le> 16" using budgetBuckets_range by simp
  then show ?thesis using demo_wf demo_lengths by (simp add: search_ok_def fits_def)
qed

lemma demo_floor: "profile_ok (mProfile m) \<Longrightarrow> cost_floor demo (demo_options m plain)"
  using demo_lengths
  by (simp add: cost_floor_def demo_options_def turn_cost_def Model_EdgeCost_ge_length Model_TurnCost_range)

lemma demo_quiet_route:
  "free_route demo (demo_options (NewModel Cautious) plain) 0 2 [0, 2]"
  by (simp add: free_route_def route_def free_def allowed_def is_over_def demo_options_def
      Model_Allow_def Model_Over_def NewModel_def Cautious_def)
    (simp add: demo_def)

lemma demo_straight: "straight demo (pi * EarthRadiusM)"
proof -
  have "DistanceM a b \<le> l + pi * EarthRadiusM" if "0 \<le> l" for a b l
    using DistanceM_le [of a b] that by linarith
  moreover have "0 \<le> pi * EarthRadiusM" using less_imp_le [OF EarthRadiusM_pos] by simp
  ultimately show ?thesis using demo_lengths by (simp add: straight_def)
qed

lemma demo_reach: "goal_dist demo goal n \<le> pi * EarthRadiusM"
  by (simp add: goal_dist_def DistanceM_le)

text \<open>The limit on expansions is far from these searches, so each finds its route.\<close>

lemma demo_limit:
  "\<not> expansion_limit (demo_options m plain)
     < int (NumEdges demo) * fst (budgetBuckets (demo_options m plain))"
  using budgetBuckets_range [of "demo_options m plain"]
  by (simp add: expansion_limit_def demo_options_def defaultMaxExpansions_def)

lemma demo_cautious_floor: "cost_floor demo (demo_options (NewModel Cautious) plain)"
  by (rule demo_floor) (simp add: NewModel_def builtin_ok)

lemma demo_cautious_found:
  "\<exists>p. Search demo None 0 2 (demo_options (NewModel Cautious) True) = Some (Ok p)"
proof -
  have "eps_consistent demo (demo_options (NewModel Cautious) True) 2 0 [0, 2]"
    by (rule eps_consistent_plain [OF demo_ok _ demo_cautious_floor demo_quiet_route])
      (simp add: demo_options_def)
  from Search_rival [OF demo_ok _ _ demo_quiet_route this, of None] demo_limit show ?thesis by auto
qed

text \<open>Query results for two nodes and the one edge between them, and the graph loaded from them.\<close>

definition demo_nodes :: "node_row cursor" where
  "demo_nodes = \<lparr>rows = [
     Some \<lparr>nr_id = 0, nr_lon = - 97, nr_lat = 30, nr_control = ''signal''\<rparr>,
     Some \<lparr>nr_id = 1, nr_lon = - 98, nr_lat = 31, nr_control = ''''\<rparr>], rows_err = False\<rparr>"

definition demo_edges :: "edge_row cursor" where
  "demo_edges = \<lparr>rows = [
     Some \<lparr>er_id = 0, er_from = 0, er_to = 1, er_length = 100, er_highway = ''primary'',
       er_infra = ''none'', er_speed = Some 45, er_lanes = None, er_lit = None, er_lts = Some 4,
       er_crash = None, er_grade = None, er_surface = ''asphalt'', er_bstart = 0, er_bend = 0\<rparr>],
     rows_err = False\<rparr>"

lemma demo_load:
  "\<exists>g. graph_Load (Some 2) (Some demo_nodes) (Some 1) (Some demo_edges) = Ok g \<and>
     NodeMaxLTS g = [4, 4] \<and> DBID g = [0]"
proof -
  obtain g1 where g1: "loadNodes (Some 2) (Some demo_nodes) empty_graph = Ok g1" "NumNodes g1 = 2"
    by (simp add: loadNodes_def demo_nodes_def empty_graph_def Let_def NumNodes_def)
  obtain g2 where g2: "loadEdges (Some 1) (Some demo_edges) g1 = Ok g2" "NumNodes g2 = 2" "From g2 = [0]"
    "To g2 = [1]" "DBID g2 = [0]" "LTS g2 = [4]"
    using g1(2) by (simp add: loadEdges_def demo_edges_def Let_def append_edge_def int32_id NumNodes_def
        optInt16_def wrap_u_id)
  have "endpoints_ok g2" "sorted (From g2)" using g2 by (simp_all add: endpoints_ok_def NumEdges_def)
  then obtain x where x: "buildOffsets g2 = Ok (g2\<lparr>Offs := x\<rparr>)" using buildOffsets_Ok by metis
  obtain g3 where g3: "buildOffsets g2 = Ok g3" "NumNodes g3 = 2" "From g3 = [0]" "To g3 = [1]"
    "DBID g3 = [0]" "LTS g3 = [4]"
    using g2 x by (simp add: NumNodes_def)
  obtain g where g: "buildDBIndex (ComputeNodeMaxLTS g3) = Ok g"
    using g3 by (simp add: buildDBIndex_def index_step_def ComputeNodeMaxLTS_def Let_def)
  have load: "graph_Load (Some 2) (Some demo_nodes) (Some 1) (Some demo_edges) = Ok g"
    by (simp add: graph_Load_def g1 g2 g3 g)
  have "NodeMaxLTS (ComputeNodeMaxLTS g3) = [4, 4]" "DBID (ComputeNodeMaxLTS g3) = [0]"
    using g3 by (simp_all add: ComputeNodeMaxLTS_def NumEdges_def raise_lts_def numeral_2_eq_2)
  moreover obtain y where "g = ComputeNodeMaxLTS g3\<lparr>dbIndex := y\<rparr>" using buildDBIndex_frame [OF g] by blast
  ultimately show ?thesis using load by simp
qed

end
