(* ===== verification/Components.thy ===== *)
theory Components
  imports Graph_Facts
begin

text \<open>
  \<open>internal/graph/components.go\<close>: the disjoint-set forest with path halving and union by rank,
  the statistics of the weakly connected components, and the mask of the largest one.  The
  contract of a disjoint-set structure is the locale \<open>disjoint_sets\<close>; the forest implements it,
  and so two nodes have one representative exactly when a path of kept edges, followed in either
  direction, joins them.
\<close>

section \<open>The code\<close>

record unionFind =
  parent :: "nat list"
  rank :: "nat list"

definition newUnionFind :: "nat \<Rightarrow> unionFind" where
  "newUnionFind n = \<lparr>parent = [0..<n], rank = replicate n 0\<rparr>"

text \<open>
  \<open>find\<close> returns the root and the forest with the path halved; on a parent array with a cycle it
  would not return.
\<close>

partial_function (option) uf_find :: "nat \<Rightarrow> unionFind \<Rightarrow> (nat \<times> unionFind) option" where
  "uf_find x uf =
     (if parent uf ! x = x then Some (x, uf)
      else
        let p = (parent uf)[x := parent uf ! (parent uf ! x)]
        in uf_find (p ! x) (uf\<lparr>parent := p\<rparr>))"

definition uf_link :: "nat \<Rightarrow> nat \<Rightarrow> unionFind \<Rightarrow> unionFind" where
  "uf_link ra rb uf =
     (let (ra, rb) = (if rank uf ! ra < rank uf ! rb then (rb, ra) else (ra, rb));
          uf = uf\<lparr>parent := (parent uf)[rb := ra]\<rparr>
      in if rank uf ! ra = rank uf ! rb
         then uf\<lparr>rank := (rank uf)[ra := (rank uf ! ra + 1) mod 256]\<rparr> else uf)"

definition uf_union :: "nat \<Rightarrow> nat \<Rightarrow> unionFind \<Rightarrow> unionFind option" where
  "uf_union a b uf =
     (case uf_find a uf of None \<Rightarrow> None | Some (ra, uf) \<Rightarrow>
      case uf_find b uf of None \<Rightarrow> None | Some (rb, uf) \<Rightarrow>
        Some (if ra = rb then uf else uf_link ra rb uf))"

fun fold_opt :: "('a \<Rightarrow> 's \<Rightarrow> 's option) \<Rightarrow> 'a list \<Rightarrow> 's \<Rightarrow> 's option" where
  "fold_opt f [] s = Some s"
| "fold_opt f (x # xs) s = (case f x s of None \<Rightarrow> None | Some s' \<Rightarrow> fold_opt f xs s')"

definition union_edge :: "graph \<Rightarrow> (nat \<Rightarrow> bool) \<Rightarrow> nat \<Rightarrow> unionFind \<Rightarrow> unionFind option" where
  "union_edge g keep e uf = (if keep e then uf_union (From g ! e) (To g ! e) uf else Some uf)"

definition build_forest :: "graph \<Rightarrow> (nat \<Rightarrow> bool) \<Rightarrow> unionFind option" where
  "build_forest g keep = fold_opt (union_edge g keep) [0..<NumEdges g] (newUnionFind (NumNodes g))"

definition count_node :: "nat \<Rightarrow> unionFind \<times> (nat \<rightharpoonup> nat) \<Rightarrow> (unionFind \<times> (nat \<rightharpoonup> nat)) option" where
  "count_node n s =
     (case uf_find n (fst s) of None \<Rightarrow> None | Some (r, uf) \<Rightarrow>
        Some (uf, (snd s)(r \<mapsto> (case snd s r of None \<Rightarrow> 0 | Some k \<Rightarrow> k) + 1)))"

record ComponentStats =
  cCount :: nat
  cLargestSize :: nat
  cLargestPct :: real
  cIsolated :: nat
  cTopSizes :: "nat list"

text \<open>Go walks the map of sizes in any order; the sizes are sorted, so the order is immaterial.\<close>

definition stats_of :: "nat \<Rightarrow> nat list \<Rightarrow> ComponentStats" where
  "stats_of n all_sizes =
     (let sorted_sizes = rev (sort all_sizes)
      in \<lparr>cCount = length all_sizes,
          cLargestSize = (if sorted_sizes \<noteq> [] then sorted_sizes ! 0 else 0),
          cLargestPct = (if sorted_sizes \<noteq> [] then 100 * real (sorted_sizes ! 0) / real n else 0),
          cIsolated = length (filter (\<lambda>s. s = 1) all_sizes),
          cTopSizes = (if length sorted_sizes > 10 then take 10 sorted_sizes else sorted_sizes)\<rparr>)"

definition componentsWhere :: "graph \<Rightarrow> (nat \<Rightarrow> bool) \<Rightarrow> ComponentStats option" where
  "componentsWhere g keep =
     (case build_forest g keep of None \<Rightarrow> None | Some uf \<Rightarrow>
      case fold_opt count_node [0..<NumNodes g] (uf, Map.empty) of None \<Rightarrow> None | Some (_, sizes) \<Rightarrow>
        Some (stats_of (NumNodes g)
          (map (\<lambda>r. the (sizes r)) (filter (\<lambda>r. sizes r \<noteq> None) [0..<NumNodes g]))))"

definition WeaklyConnectedComponents :: "graph \<Rightarrow> ComponentStats option" where
  "WeaklyConnectedComponents g = componentsWhere g (\<lambda>_. True)"

definition ComponentsUpToLTS :: "graph \<Rightarrow> nat \<Rightarrow> ComponentStats option" where
  "ComponentsUpToLTS g maxLTS =
     componentsWhere g (\<lambda>e. let lts = LTS g ! e in lts = 0 \<or> lts \<le> maxLTS)"

definition vote_node :: "nat \<Rightarrow> unionFind \<times> (nat \<rightharpoonup> nat) \<times> nat \<times> nat \<Rightarrow>
    (unionFind \<times> (nat \<rightharpoonup> nat) \<times> nat \<times> nat) option" where
  "vote_node n s =
     (case s of (uf, sizes, best, bestSize) \<Rightarrow>
      case uf_find n uf of None \<Rightarrow> None | Some (r, uf) \<Rightarrow>
        let k = (case sizes r of None \<Rightarrow> 0 | Some k \<Rightarrow> k) + 1;
            sizes = sizes(r \<mapsto> k)
        in Some (if k > bestSize then (uf, sizes, r, k) else (uf, sizes, best, bestSize)))"

definition mask_node :: "nat \<Rightarrow> nat \<Rightarrow> unionFind \<times> bool list \<Rightarrow> (unionFind \<times> bool list) option" where
  "mask_node best n s =
     (case uf_find n (fst s) of None \<Rightarrow> None | Some (r, uf) \<Rightarrow>
        Some (uf, (snd s)[n := (r = best)]))"

definition LargestComponent :: "graph \<Rightarrow> bool list option" where
  "LargestComponent g =
     (case build_forest g (\<lambda>_. True) of None \<Rightarrow> None | Some uf \<Rightarrow>
      case fold_opt vote_node [0..<NumNodes g] (uf, Map.empty, 0, 0) of None \<Rightarrow> None
      | Some (uf, sizes, best, bestSize) \<Rightarrow>
          map_option snd (fold_opt (mask_node best) [0..<NumNodes g] (uf, replicate (NumNodes g) False)))"

lemma fold_opt_rule:
  assumes "P [] s"
    and "\<And>ys x zs s. xs = ys @ x # zs \<Longrightarrow> P ys s \<Longrightarrow> \<exists>s'. f x s = Some s' \<and> P (ys @ [x]) s'"
  shows "\<exists>s'. fold_opt f xs s = Some s' \<and> P xs s'"
proof -
  have "\<exists>s'. fold_opt f zs s = Some s' \<and> P (ys @ zs) s'" if "xs = ys @ zs" "P ys s" for ys zs s
    using that
  proof (induction zs arbitrary: ys s)
    case (Cons x zs)
    obtain s' where s': "f x s = Some s'" "P (ys @ [x]) s'" using assms(2) [OF Cons.prems] by blast
    obtain s'' where "fold_opt f zs s' = Some s''" "P ((ys @ [x]) @ zs) s''"
      using Cons.IH [of "ys @ [x]" s'] Cons.prems(1) s'(2) by auto
    then show ?case using s'(1) by simp
  qed simp
  then show ?thesis using assms(1) by (metis append_Nil)
qed

section \<open>Forests\<close>

text \<open>The root above a node.\<close>

inductive uf_root :: "nat list \<Rightarrow> nat \<Rightarrow> nat \<Rightarrow> bool" for p where
  top: "x < length p \<Longrightarrow> p ! x = x \<Longrightarrow> uf_root p x x"
| up: "x < length p \<Longrightarrow> p ! x \<noteq> x \<Longrightarrow> uf_root p (p ! x) r \<Longrightarrow> uf_root p x r"

text \<open>
  A forest: parents are nodes and some height grows along them.  The ranks play no part in this,
  so that they wrap at 256 cannot break it.
\<close>

definition heights :: "nat list \<Rightarrow> (nat \<Rightarrow> nat) \<Rightarrow> bool" where
  "heights p h \<longleftrightarrow> (\<forall>x<length p. p ! x < length p \<and> (p ! x \<noteq> x \<longrightarrow> h x < h (p ! x)))"

definition forest :: "nat list \<Rightarrow> bool" where
  "forest p \<longleftrightarrow> (\<exists>h. heights p h)"

lemma uf_root_at_top: "uf_root p x r \<Longrightarrow> p ! x = x \<Longrightarrow> r = x"
  by (erule uf_root.cases) simp_all

lemma uf_root_above: "uf_root p x r \<Longrightarrow> p ! x \<noteq> x \<Longrightarrow> uf_root p (p ! x) r"
  by (erule uf_root.cases) simp_all

lemma uf_root_unique: "uf_root p x r \<Longrightarrow> uf_root p x s \<Longrightarrow> r = s"
proof (induction arbitrary: s rule: uf_root.induct)
  case (top x)
  then show ?case using uf_root_at_top by blast
next
  case (up x r)
  then show ?case using uf_root_above by blast
qed

lemma uf_root_top: "uf_root p x r \<Longrightarrow> r < length p \<and> p ! r = r"
  by (induction rule: uf_root.induct) auto

lemma uf_root_range: "uf_root p x r \<Longrightarrow> x < length p"
  by (erule uf_root.cases) auto

definition max_height :: "nat list \<Rightarrow> (nat \<Rightarrow> nat) \<Rightarrow> nat" where
  "max_height p h = Max (insert 0 (h ` {..<length p}))"

lemma max_height: "x < length p \<Longrightarrow> h x \<le> max_height p h"
  by (simp add: max_height_def)

lemma uf_root_exists:
  assumes "heights p h" and "x < length p"
  shows "\<exists>r. uf_root p x r"
  using assms(2)
proof (induction "max_height p h - h x" arbitrary: x rule: less_induct)
  case less
  show ?case
  proof (cases "p ! x = x")
    case True
    then show ?thesis using less.prems by (blast intro: uf_root.top)
  next
    case False
    then have "h x < h (p ! x)" "p ! x < length p" using assms(1) less.prems by (auto simp: heights_def)
    moreover have "h (p ! x) \<le> max_height p h" using calculation(2) by (rule max_height)
    ultimately obtain r where "uf_root p (p ! x) r" using less.hyps [of "p ! x"] by (meson diff_less_mono2 less_le_trans)
    then show ?thesis using False less.prems by (blast intro: uf_root.up)
  qed
qed

text \<open>Path halving keeps the heights and every root.\<close>

lemma halve_heights:
  assumes "heights p h" and x: "x < length p" "p ! x \<noteq> x"
  shows "heights (p[x := p ! (p ! x)]) h"
proof -
  have px: "p ! x < length p" "h x < h (p ! x)" using assms by (auto simp: heights_def)
  then have "p ! (p ! x) < length p" "h (p ! x) \<le> h (p ! (p ! x))"
    using assms(1) by (auto simp: heights_def le_less)
  then show ?thesis using assms px by (auto simp: heights_def nth_list_update)
qed

lemma halve_root:
  assumes h: "heights p h" and x: "x < length p" "p ! x \<noteq> x"
  shows "uf_root p y r \<Longrightarrow> uf_root (p[x := p ! (p ! x)]) y r"
proof (induction rule: uf_root.induct)
  case (top y)
  then have "y \<noteq> x" using x by auto
  then show ?case using top by (intro uf_root.top) auto
next
  case (up y r)
  let ?p = "p[x := p ! (p ! x)]"
  have px: "p ! x < length p" "h x < h (p ! x)" using h x by (auto simp: heights_def)
  then have hp: "h (p ! x) \<le> h (p ! (p ! x))" using h by (auto simp: heights_def le_less)
  show ?case
  proof (cases "y = x")
    case False
    then show ?thesis by - (rule uf_root.up, use up in auto)
  next
    case True
    have ne: "?p ! x \<noteq> x" using px(2) hp x(1) by auto
    have at: "?p ! (p ! x) = p ! (p ! x)" using x(2) by simp
    have "uf_root ?p (p ! (p ! x)) r"
    proof (cases "p ! (p ! x) = p ! x")
      case True
      then show ?thesis using up.IH \<open>y = x\<close> by simp
    next
      case False
      then show ?thesis using uf_root_above [of ?p "p ! x" r] up.IH \<open>y = x\<close> at by simp
    qed
    then show ?thesis by - (rule uf_root.up, use ne True x(1) in auto)
  qed
qed

text \<open>What \<open>find\<close> keeps: the nodes and their roots.\<close>

definition same_roots :: "nat list \<Rightarrow> nat list \<Rightarrow> bool" where
  "same_roots p q \<longleftrightarrow> length q = length p \<and> (\<forall>x r. uf_root p x r \<longrightarrow> uf_root q x r)"

lemma same_roots_refl [simp]: "same_roots p p"
  by (simp add: same_roots_def)

lemma same_roots_trans: "same_roots p q \<Longrightarrow> same_roots q s \<Longrightarrow> same_roots p s"
  by (simp add: same_roots_def)

lemma uf_find_ok:
  assumes "heights (parent uf) h" and "uf_root (parent uf) x r"
  shows "\<exists>uf'. uf_find x uf = Some (r, uf') \<and> heights (parent uf') h \<and>
    same_roots (parent uf) (parent uf') \<and> rank uf' = rank uf"
  using assms
proof (induction "max_height (parent uf) h - h x" arbitrary: x uf rule: less_induct)
  case less
  let ?p = "parent uf"
  have x: "x < length ?p" using uf_root_range [OF less.prems(2)] .
  show ?case
  proof (cases "?p ! x = x")
    case True
    then have "r = x" using uf_root_unique [OF less.prems(2) uf_root.top [OF x True]] by simp
    moreover have "uf_find x uf = Some (x, uf)" using True by (subst uf_find.simps) simp
    ultimately show ?thesis using less.prems by auto
  next
    case False
    let ?q = "?p[x := ?p ! (?p ! x)]"
    let ?uf = "uf\<lparr>parent := ?q\<rparr>"
    have hq: "heights ?q h" by (rule halve_heights [OF less.prems(1) x False])
    have sr: "same_roots ?p ?q" using halve_root [OF less.prems(1) x False] by (simp add: same_roots_def)
    have px: "?p ! x < length ?p" "h x < h (?p ! x)" using less.prems(1) x False by (auto simp: heights_def)
    then have gp: "?p ! (?p ! x) < length ?p" "h (?p ! x) \<le> h (?p ! (?p ! x))"
      using less.prems(1) by (auto simp: heights_def le_less)
    have qx: "?q ! x = ?p ! (?p ! x)" using x by simp
    have "uf_root ?q x r" using sr less.prems(2) by (simp add: same_roots_def)
    moreover have "?q ! x \<noteq> x" using qx px gp by auto
    ultimately have rt: "uf_root (parent ?uf) (?q ! x) r" by (simp add: uf_root_above)
    have "max_height ?q h = max_height ?p h" by (simp add: max_height_def)
    moreover have "h (?q ! x) \<le> max_height ?p h" "h x < h (?q ! x)"
      using max_height [OF gp(1), of h] px gp qx by auto
    ultimately have "max_height (parent ?uf) h - h (?q ! x) < max_height ?p h - h x"
      by simp
    from less.hyps [OF this _ rt] hq obtain uf' where uf': "uf_find (?q ! x) ?uf = Some (r, uf')"
      "heights (parent uf') h" "same_roots ?q (parent uf')" "rank uf' = rank uf" by auto
    have "uf_find x uf = uf_find (?q ! x) ?uf" using False by (subst uf_find.simps) (simp add: Let_def)
    then show ?thesis using uf' same_roots_trans [OF sr] by auto
  qed
qed

section \<open>Union\<close>

lemma link_heights:
  assumes h: "heights p h" and ra: "ra < length p" "p ! ra = ra" and rb: "rb < length p" "p ! rb = rb"
    and ne: "ra \<noteq> rb"
  shows "forest (p[rb := ra])"
proof -
  let ?h = "h(ra := max (h ra) (h rb + 1))"
  have "heights (p[rb := ra]) ?h"
    unfolding heights_def
  proof (intro allI impI)
    fix x
    assume x: "x < length (p[rb := ra])"
    show "p[rb := ra] ! x < length (p[rb := ra]) \<and> (p[rb := ra] ! x \<noteq> x \<longrightarrow> ?h x < ?h (p[rb := ra] ! x))"
    proof (cases "x = rb")
      case True
      then show ?thesis using rb ra ne by simp
    next
      case False
      then have "p ! x < length p" "p ! x \<noteq> x \<Longrightarrow> h x < h (p ! x)" using h x by (auto simp: heights_def)
      then show ?thesis using False ra(2) by (cases "x = ra") auto
    qed
  qed
  then show ?thesis by (auto simp: forest_def)
qed

lemma link_root:
  assumes ra: "ra < length p" "p ! ra = ra" and rb: "rb < length p" "p ! rb = rb" and ne: "ra \<noteq> rb"
  shows "uf_root p x r \<Longrightarrow> uf_root (p[rb := ra]) x (if r = rb then ra else r)"
proof (induction rule: uf_root.induct)
  case (top x)
  have "uf_root (p[rb := ra]) ra ra" by (rule uf_root.top) (use ra ne in auto)
  then have "uf_root (p[rb := ra]) rb ra" by - (rule uf_root.up, use rb ne in auto)
  then show ?case using top by (auto intro: uf_root.top)
next
  case (up x r)
  then have "x \<noteq> rb" using rb by auto
  then show ?case using up by - (rule uf_root.up, auto)
qed

definition same_set :: "unionFind \<Rightarrow> nat \<Rightarrow> nat \<Rightarrow> bool" where
  "same_set uf x y \<longleftrightarrow> (\<exists>r. uf_root (parent uf) x r \<and> uf_root (parent uf) y r)"

definition uf_ok :: "unionFind \<Rightarrow> bool" where
  "uf_ok uf \<longleftrightarrow> forest (parent uf)"

definition uf_size :: "unionFind \<Rightarrow> nat" where
  "uf_size uf = length (parent uf)"

lemma uf_ok_root: "uf_ok uf \<Longrightarrow> x < uf_size uf \<Longrightarrow> \<exists>r. uf_root (parent uf) x r"
  using uf_root_exists by (auto simp: uf_ok_def forest_def uf_size_def)

lemma same_set_root:
  assumes "uf_root (parent uf) x r"
  shows "same_set uf x y \<longleftrightarrow> uf_root (parent uf) y r"
  unfolding same_set_def using assms uf_root_unique by metis

lemma same_set_iff:
  assumes "uf_root (parent uf) x r" and "uf_root (parent uf) y s"
  shows "same_set uf x y \<longleftrightarrow> r = s"
  using same_set_root [OF assms(1), of y] uf_root_unique [OF assms(2), of r] assms(2) by auto

lemma same_roots_same_set:
  assumes "same_roots (parent uf) (parent uf')" and "uf_ok uf" "x < uf_size uf" "y < uf_size uf"
  shows "same_set uf' x y \<longleftrightarrow> same_set uf x y"
proof -
  obtain r s where r: "uf_root (parent uf) x r" "uf_root (parent uf) y s"
    using uf_ok_root [OF assms(2)] assms(3,4) by blast
  then have r': "uf_root (parent uf') x r" "uf_root (parent uf') y s"
    using assms(1) by (simp_all add: same_roots_def)
  show ?thesis
    using r r' uf_root_unique by (metis same_set_root)
qed

lemma uf_find_total:
  assumes ok: "uf_ok uf" and x: "x < uf_size uf"
  shows "\<exists>r uf'. uf_find x uf = Some (r, uf') \<and> uf_ok uf' \<and> uf_size uf' = uf_size uf \<and>
    same_roots (parent uf) (parent uf') \<and> uf_root (parent uf) x r"
proof -
  obtain r where r: "uf_root (parent uf) x r" using uf_ok_root [OF ok x] by blast
  obtain h where h: "heights (parent uf) h" using ok by (auto simp: uf_ok_def forest_def)
  show ?thesis using uf_find_ok [OF h r] r
    by (auto simp: uf_ok_def forest_def uf_size_def same_roots_def)
qed

lemma uf_link_ok:
  assumes ok: "uf_ok uf" and ra: "uf_root (parent uf) a ra" and rb: "uf_root (parent uf) b rb"
    and ne: "ra \<noteq> rb"
  shows "uf_ok (uf_link ra rb uf) \<and> uf_size (uf_link ra rb uf) = uf_size uf \<and>
    (\<forall>x<uf_size uf. \<forall>y<uf_size uf. same_set (uf_link ra rb uf) x y \<longleftrightarrow>
      same_set uf x y \<or> (same_set uf x a \<and> same_set uf b y) \<or> (same_set uf x b \<and> same_set uf a y))"
proof -
  let ?p = "parent uf"
  obtain c d where cd: "parent (uf_link ra rb uf) = ?p[d := c]" "(c = ra \<and> d = rb) \<or> (c = rb \<and> d = ra)"
  proof (cases "rank uf ! ra < rank uf ! rb")
    case True
    then show ?thesis by (intro that [where c = rb and d = ra]) (simp_all add: uf_link_def Let_def)
  next
    case False
    then show ?thesis by (intro that [where c = ra and d = rb]) (simp_all add: uf_link_def Let_def)
  qed
  have c: "c < length ?p" "?p ! c = c" and d: "d < length ?p" "?p ! d = d" and cdn: "c \<noteq> d"
    using cd(2) uf_root_top [OF ra] uf_root_top [OF rb] ne by auto
  obtain h where h: "heights ?p h" using ok by (auto simp: uf_ok_def forest_def)
  have fo: "forest (?p[d := c])" by (rule link_heights [OF h c d cdn])
  have "same_set (uf_link ra rb uf) x y \<longleftrightarrow>
      same_set uf x y \<or> (same_set uf x a \<and> same_set uf b y) \<or> (same_set uf x b \<and> same_set uf a y)"
    if x: "x < uf_size uf" and y: "y < uf_size uf" for x y
  proof -
    obtain rx ry where rx: "uf_root ?p x rx" and ry: "uf_root ?p y ry" using uf_ok_root [OF ok] x y by blast
    let ?m = "\<lambda>r. if r = d then c else r"
    have nx: "uf_root (?p[d := c]) x (?m rx)" and ny: "uf_root (?p[d := c]) y (?m ry)"
      using link_root [OF c d cdn] rx ry by blast+
    have "same_set (uf_link ra rb uf) x y \<longleftrightarrow> ?m rx = ?m ry"
      by (rule same_set_iff) (use nx ny cd(1) in simp_all)
    moreover have "same_set uf x y \<longleftrightarrow> rx = ry" "same_set uf x a \<longleftrightarrow> rx = ra" "same_set uf b y \<longleftrightarrow> rb = ry"
      "same_set uf x b \<longleftrightarrow> rx = rb" "same_set uf a y \<longleftrightarrow> ra = ry"
      using rx ry ra rb same_set_iff by blast+
    ultimately show ?thesis using cd(2) by auto
  qed
  then show ?thesis using fo cd(1) by (simp add: uf_ok_def uf_size_def)
qed

lemma uf_union_ok:
  assumes ok: "uf_ok uf" and a: "a < uf_size uf" and b: "b < uf_size uf"
  shows "\<exists>uf'. uf_union a b uf = Some uf' \<and> uf_ok uf' \<and> uf_size uf' = uf_size uf \<and>
    (\<forall>x<uf_size uf. \<forall>y<uf_size uf. same_set uf' x y \<longleftrightarrow>
      same_set uf x y \<or> (same_set uf x a \<and> same_set uf b y) \<or> (same_set uf x b \<and> same_set uf a y))"
proof -
  obtain ra u1 where f1: "uf_find a uf = Some (ra, u1)" "uf_ok u1" "uf_size u1 = uf_size uf"
    "same_roots (parent uf) (parent u1)" "uf_root (parent uf) a ra" using uf_find_total [OF ok a] by blast
  obtain rb u2 where f2: "uf_find b u1 = Some (rb, u2)" "uf_ok u2" "uf_size u2 = uf_size u1"
    "same_roots (parent u1) (parent u2)" "uf_root (parent u1) b rb"
    using uf_find_total [OF f1(2), of b] b f1(3) by auto
  have ra: "uf_root (parent u2) a ra" and rb: "uf_root (parent u2) b rb"
    using f1(4,5) f2(4,5) by (simp_all add: same_roots_def)
  have eq: "same_set u2 x y \<longleftrightarrow> same_set uf x y" if "x < uf_size uf" "y < uf_size uf" for x y
    using same_roots_same_set [OF same_roots_trans [OF f1(4) f2(4)] ok that] .
  have un: "uf_union a b uf = Some (if ra = rb then u2 else uf_link ra rb u2)"
    by (simp add: uf_union_def f1(1) f2(1))
  show ?thesis
  proof (cases "ra = rb")
    case True
    then have ab: "same_set uf a b" using eq [OF a b] ra rb by (auto simp: same_set_def)
    have trans: "same_set uf x y \<Longrightarrow> same_set uf y z \<Longrightarrow> same_set uf x z" for x y z
      unfolding same_set_def using uf_root_unique by metis
    have "same_set uf b a" using ab by (auto simp: same_set_def)
    then have tr: "same_set uf x a \<Longrightarrow> same_set uf b y \<Longrightarrow> same_set uf x y"
      "same_set uf x b \<Longrightarrow> same_set uf a y \<Longrightarrow> same_set uf x y" for x y
      using trans ab by blast+
    have "\<forall>x<uf_size uf. \<forall>y<uf_size uf. same_set u2 x y \<longleftrightarrow>
      same_set uf x y \<or> (same_set uf x a \<and> same_set uf b y) \<or> (same_set uf x b \<and> same_set uf a y)"
      using eq tr by blast
    then show ?thesis using True un f1(3) f2(2,3) by (intro exI [of _ u2]) simp
  next
    case False
    have "uf_size u2 = uf_size uf" using f1 f2 by simp
    with uf_link_ok [OF f2(2) ra rb False] show ?thesis using False un eq a b by simp
  qed
qed

section \<open>The contract\<close>

definition sym_clo :: "(nat \<times> nat) set \<Rightarrow> (nat \<times> nat) set" where
  "sym_clo E = (E \<union> E\<inverse>)\<^sup>*"

lemma sym_clo_sym: "(x, y) \<in> sym_clo E \<Longrightarrow> (y, x) \<in> sym_clo E"
proof -
  have "sym ((E \<union> E\<inverse>)\<^sup>*)" by (intro sym_rtrancl sym_Un_converse)
  then show "(x, y) \<in> sym_clo E \<Longrightarrow> (y, x) \<in> sym_clo E" by (auto simp: sym_clo_def sym_def)
qed

lemma sym_clo_trans: "(x, y) \<in> sym_clo E \<Longrightarrow> (y, z) \<in> sym_clo E \<Longrightarrow> (x, z) \<in> sym_clo E"
  by (simp add: sym_clo_def)

lemma sym_clo_insert: "(x, y) \<in> sym_clo (insert (a, b) E) \<longleftrightarrow> (x, y) \<in> sym_clo E \<or>
    ((x, a) \<in> sym_clo E \<and> (b, y) \<in> sym_clo E) \<or> ((x, b) \<in> sym_clo E \<and> (a, y) \<in> sym_clo E)"
proof -
  have eq: "insert (a, b) E \<union> (insert (a, b) E)\<inverse> = insert (a, b) (insert (b, a) (E \<union> E\<inverse>))" by auto
  have refl: "(z, z) \<in> sym_clo E" for z by (simp add: sym_clo_def)
  show ?thesis
    unfolding sym_clo_def [of "insert (a, b) E"] eq rtrancl_insert
    using refl sym_clo_trans [of _ _ E] by (auto simp: sym_clo_def [symmetric])
qed

locale disjoint_sets =
  fixes inv :: "'u \<Rightarrow> bool" and size_of :: "'u \<Rightarrow> nat" and same :: "'u \<Rightarrow> nat \<Rightarrow> nat \<Rightarrow> bool"
    and merge :: "nat \<Rightarrow> nat \<Rightarrow> 'u \<Rightarrow> 'u option"
  assumes merge_ok: "inv u \<Longrightarrow> a < size_of u \<Longrightarrow> b < size_of u \<Longrightarrow>
    \<exists>u'. merge a b u = Some u' \<and> inv u' \<and> size_of u' = size_of u \<and>
      (\<forall>x<size_of u. \<forall>y<size_of u. same u' x y \<longleftrightarrow>
        same u x y \<or> (same u x a \<and> same u b y) \<or> (same u x b \<and> same u a y))"
begin

text \<open>Merging along the pairs of a list joins what the pairs connect.\<close>

definition joins :: "(nat \<times> nat) set \<Rightarrow> 'u \<Rightarrow> bool" where
  "joins E u \<longleftrightarrow> (\<forall>x<size_of u. \<forall>y<size_of u. same u x y \<longleftrightarrow> (x, y) \<in> sym_clo E)"

lemma merge_joins:
  assumes "inv u" "a < size_of u" "b < size_of u" "joins E u"
  shows "\<exists>u'. merge a b u = Some u' \<and> inv u' \<and> size_of u' = size_of u \<and> joins (insert (a, b) E) u'"
  using merge_ok [OF assms(1-3)] assms(2-4) by (fastforce simp: joins_def sym_clo_insert)

end

interpretation uf: disjoint_sets uf_ok uf_size same_set uf_union
  by unfold_locales (rule uf_union_ok)

section \<open>Connected nodes\<close>

definition kept :: "graph \<Rightarrow> (nat \<Rightarrow> bool) \<Rightarrow> nat list \<Rightarrow> (nat \<times> nat) set" where
  "kept g keep es = {(From g ! e, To g ! e) | e. e \<in> set es \<and> keep e}"

text \<open>Joined by kept edges, direction ignored.\<close>

definition connected :: "graph \<Rightarrow> (nat \<Rightarrow> bool) \<Rightarrow> nat \<Rightarrow> nat \<Rightarrow> bool" where
  "connected g keep x y \<longleftrightarrow> (x, y) \<in> sym_clo (kept g keep [0..<NumEdges g])"

definition component :: "graph \<Rightarrow> (nat \<Rightarrow> bool) \<Rightarrow> nat \<Rightarrow> nat set" where
  "component g keep x = {y. y < NumNodes g \<and> connected g keep x y}"

definition components :: "graph \<Rightarrow> (nat \<Rightarrow> bool) \<Rightarrow> nat set set" where
  "components g keep = component g keep ` {..<NumNodes g}"

lemma new_same_set: "x < n \<Longrightarrow> y < n \<Longrightarrow> same_set (newUnionFind n) x y \<longleftrightarrow> x = y"
proof -
  assume "x < n" "y < n"
  then have "uf_root [0..<n] x x" "uf_root [0..<n] y y" by (auto intro: uf_root.top)
  then show ?thesis by (intro same_set_iff) (simp_all add: newUnionFind_def)
qed

lemma new_uf_ok: "uf_ok (newUnionFind n)"
  unfolding uf_ok_def forest_def newUnionFind_def by (rule exI [of _ "\<lambda>_. 0"]) (simp add: heights_def)

lemma build_forest_ok:
  assumes wf: "wf_arrays g"
  shows "\<exists>uf. build_forest g keep = Some uf \<and> uf_ok uf \<and> uf_size uf = NumNodes g \<and>
    uf.joins (kept g keep [0..<NumEdges g]) uf"
  unfolding build_forest_def
proof (rule fold_opt_rule [where P = "\<lambda>ys uf. uf_ok uf \<and> uf_size uf = NumNodes g \<and> uf.joins (kept g keep ys) uf"])
  have "kept g keep [] = {}" by (simp add: kept_def)
  moreover have "uf.joins {} (newUnionFind (NumNodes g))"
    by (simp add: uf.joins_def uf_size_def newUnionFind_def sym_clo_def new_same_set [unfolded newUnionFind_def])
  ultimately show "uf_ok (newUnionFind (NumNodes g)) \<and> uf_size (newUnionFind (NumNodes g)) = NumNodes g \<and>
      uf.joins (kept g keep []) (newUnionFind (NumNodes g))"
    using new_uf_ok by (simp add: uf_size_def newUnionFind_def)
next
  fix ys e zs uf
  assume split: "[0..<NumEdges g] = ys @ e # zs"
    and I: "uf_ok uf \<and> uf_size uf = NumNodes g \<and> uf.joins (kept g keep ys) uf"
  have "e \<in> set [0..<NumEdges g]" unfolding split by simp
  then have ends: "From g ! e < uf_size uf" "To g ! e < uf_size uf"
    using wf_endpoints [OF wf, of e] I by simp_all
  have eq: "kept g keep (ys @ [e]) = (if keep e then insert (From g ! e, To g ! e) (kept g keep ys) else kept g keep ys)"
    by (auto simp: kept_def)
  show "\<exists>uf'. union_edge g keep e uf = Some uf' \<and> uf_ok uf' \<and> uf_size uf' = NumNodes g \<and>
      uf.joins (kept g keep (ys @ [e])) uf'"
  proof (cases "keep e")
    case True
    then show ?thesis using uf.merge_joins [of uf "From g ! e" "To g ! e" "kept g keep ys"] I ends eq
      by (auto simp: union_edge_def)
  next
    case False
    then show ?thesis using I eq by (simp add: union_edge_def)
  qed
qed

section \<open>Counting\<close>

definition tally :: "nat list \<Rightarrow> nat list \<Rightarrow> nat \<Rightarrow> nat" where
  "tally p ys r = length (filter (\<lambda>x. uf_root p x r) ys)"

definition counted :: "nat list \<Rightarrow> nat list \<Rightarrow> (nat \<rightharpoonup> nat) \<Rightarrow> bool" where
  "counted p ys sizes \<longleftrightarrow> (\<forall>r. sizes r = (if tally p ys r = 0 then None else Some (tally p ys r)))"

definition walked :: "nat \<Rightarrow> nat list \<Rightarrow> unionFind \<Rightarrow> bool" where
  "walked n p uf \<longleftrightarrow> uf_ok uf \<and> uf_size uf = n \<and> same_roots p (parent uf)"

lemma tally_snoc: "tally p (ys @ [x]) r = tally p ys r + (if uf_root p x r then 1 else 0)"
  by (simp add: tally_def)

lemma walked_find:
  assumes "walked n (parent uf0) uf" and "uf_ok uf0" "uf_size uf0 = n" and "x < n"
  shows "\<exists>r uf'. uf_find x uf = Some (r, uf') \<and> walked n (parent uf0) uf' \<and> uf_root (parent uf0) x r"
proof -
  obtain r uf' where f: "uf_find x uf = Some (r, uf')" "uf_ok uf'" "uf_size uf' = uf_size uf"
    "same_roots (parent uf) (parent uf')" "uf_root (parent uf) x r"
    using uf_find_total [of uf x] assms by (auto simp: walked_def)
  obtain s where s: "uf_root (parent uf0) x s" using uf_ok_root [OF assms(2)] assms(3,4) by blast
  then have "uf_root (parent uf) x s" using assms(1) by (simp add: walked_def same_roots_def)
  then have "s = r" using f(5) uf_root_unique by blast
  then show ?thesis using f s assms(1) same_roots_trans by (auto simp: walked_def)
qed

lemma counted_step:
  assumes "counted p ys sizes" and "uf_root p x r"
  shows "counted p (ys @ [x]) (sizes(r \<mapsto> (case sizes r of None \<Rightarrow> 0 | Some k \<Rightarrow> k) + 1))"
    and "(case sizes r of None \<Rightarrow> 0 | Some k \<Rightarrow> k) + 1 = tally p (ys @ [x]) r"
proof -
  have k: "(case sizes r of None \<Rightarrow> 0 | Some k \<Rightarrow> k) = tally p ys r" using assms(1) by (simp add: counted_def)
  then show "(case sizes r of None \<Rightarrow> 0 | Some k \<Rightarrow> k) + 1 = tally p (ys @ [x]) r"
    using assms(2) by (simp add: tally_snoc)
  have "\<not> uf_root p x s" if "s \<noteq> r" for s using assms(2) uf_root_unique that by blast
  then show "counted p (ys @ [x]) (sizes(r \<mapsto> (case sizes r of None \<Rightarrow> 0 | Some k \<Rightarrow> k) + 1))"
    using assms k by (auto simp: counted_def tally_snoc)
qed

lemma count_nodes_ok:
  assumes ok: "uf_ok uf" "uf_size uf = n"
  shows "\<exists>uf' sizes. fold_opt count_node [0..<n] (uf, Map.empty) = Some (uf', sizes) \<and>
    counted (parent uf) [0..<n] sizes"
proof -
  let ?P = "\<lambda>ys s. walked n (parent uf) (fst s) \<and> counted (parent uf) ys (snd s)"
  have "\<exists>s. fold_opt count_node [0..<n] (uf, Map.empty) = Some s \<and> ?P [0..<n] s"
  proof (rule fold_opt_rule [where P = ?P])
    show "?P [] (uf, Map.empty)" using ok by (simp add: walked_def counted_def tally_def)
  next
    fix ys x zs s
    assume split: "[0..<n] = ys @ x # zs" and I: "?P ys s"
    have "x \<in> set [0..<n]" unfolding split by simp
    then obtain r uf' where f: "uf_find x (fst s) = Some (r, uf')" "walked n (parent uf) uf'" "uf_root (parent uf) x r"
      using walked_find [of n uf "fst s" x] I ok by auto
    then show "\<exists>s'. count_node x s = Some s' \<and> ?P (ys @ [x]) s'"
      using counted_step(1) [OF _ f(3)] I by (simp add: count_node_def)
  qed
  then show ?thesis by (metis prod.collapse)
qed

text \<open>The roots stand for the components, and the tallies are their sizes.\<close>

definition members :: "nat list \<Rightarrow> nat \<Rightarrow> nat \<Rightarrow> nat set" where
  "members p n r = {x. x < n \<and> uf_root p x r}"

lemma tally_card: "tally p [0..<n] r = card (members p n r)"
proof -
  have "distinct (filter (\<lambda>x. uf_root p x r) [0..<n])" by simp
  then have "tally p [0..<n] r = card (set (filter (\<lambda>x. uf_root p x r) [0..<n]))"
    unfolding tally_def by (rule distinct_card [symmetric])
  also have "set (filter (\<lambda>x. uf_root p x r) [0..<n]) = members p n r" by (auto simp: members_def)
  finally show ?thesis .
qed

lemma members_component:
  assumes j: "uf.joins (kept g keep [0..<NumEdges g]) uf" and size: "uf_size uf = NumNodes g"
    and r: "uf_root (parent uf) x r" and x: "x < NumNodes g"
  shows "members (parent uf) (NumNodes g) r = component g keep x"
proof -
  have "uf_root (parent uf) y r \<longleftrightarrow> connected g keep x y" if "y < NumNodes g" for y
  proof -
    have "same_set uf x y \<longleftrightarrow> connected g keep x y"
      using j size x that by (simp add: uf.joins_def connected_def)
    then show ?thesis using same_set_root [OF r, of y] by simp
  qed
  then show ?thesis by (auto simp: members_def component_def)
qed

lemma finite_members [simp]: "finite (members p n r)"
  by (simp add: members_def)

lemma roots_components:
  assumes j: "uf.joins (kept g keep [0..<NumEdges g]) uf" and ok: "uf_ok uf" and size: "uf_size uf = NumNodes g"
    and c: "counted (parent uf) [0..<NumNodes g] sizes"
  shows "bij_betw (members (parent uf) (NumNodes g)) {r. r < NumNodes g \<and> sizes r \<noteq> None} (components g keep)"
proof -
  let ?n = "NumNodes g" and ?p = "parent uf"
  have some: "sizes r \<noteq> None \<longleftrightarrow> members ?p ?n r \<noteq> {}" for r
    using c by (simp add: counted_def tally_card)
  have "members ?p ?n r \<in> components g keep" if "sizes r \<noteq> None" for r
  proof -
    have "members ?p ?n r \<noteq> {}" using that some by simp
    then obtain x where "x \<in> members ?p ?n r" by blast
    then have x: "x < ?n" "uf_root ?p x r" by (simp_all add: members_def)
    show ?thesis
      unfolding members_component [OF j size x(2,1)] components_def using x(1) by simp
  qed
  moreover have "component g keep x \<in> members ?p ?n ` {r. r < ?n \<and> sizes r \<noteq> None}"
    if x: "x < ?n" for x
  proof -
    obtain r where r: "uf_root ?p x r" using uf_ok_root [OF ok] size x by auto
    then have "x \<in> members ?p ?n r" using x by (simp add: members_def)
    moreover have "r < ?n" using uf_root_top [OF r] size by (simp add: uf_size_def)
    ultimately have "r \<in> {r. r < ?n \<and> sizes r \<noteq> None}" using some by blast
    then show ?thesis unfolding members_component [OF j size r x, symmetric] by (rule imageI)
  qed
  moreover have "inj_on (members ?p ?n) {r. r < ?n \<and> sizes r \<noteq> None}"
  proof (rule inj_onI)
    fix r s
    assume "r \<in> {r. r < ?n \<and> sizes r \<noteq> None}" and eq: "members ?p ?n r = members ?p ?n s"
    then obtain x where "x \<in> members ?p ?n r" using some by blast
    then have "uf_root ?p x r" "uf_root ?p x s" using eq by (auto simp: members_def)
    then show "r = s" by (rule uf_root_unique)
  qed
  ultimately show ?thesis unfolding bij_betw_def components_def by blast
qed

lemma componentsWhere_sizes:
  assumes wf: "wf_arrays g"
  shows "\<exists>sizes. componentsWhere g keep = Some (stats_of (NumNodes g) sizes) \<and>
    mset sizes = image_mset card (mset_set (components g keep))"
proof -
  obtain uf where uf: "build_forest g keep = Some uf" "uf_ok uf" "uf_size uf = NumNodes g"
    "uf.joins (kept g keep [0..<NumEdges g]) uf" using build_forest_ok [OF wf] by blast
  obtain uf' sizes where c: "fold_opt count_node [0..<NumNodes g] (uf, Map.empty) = Some (uf', sizes)"
    "counted (parent uf) [0..<NumNodes g] sizes" using count_nodes_ok [OF uf(2,3)] by blast
  let ?keys = "filter (\<lambda>r. sizes r \<noteq> None) [0..<NumNodes g]"
  let ?m = "members (parent uf) (NumNodes g)"
  have set: "set ?keys = {r. r < NumNodes g \<and> sizes r \<noteq> None}" by auto
  have bij: "bij_betw ?m (set ?keys) (components g keep)"
    unfolding set by (rule roots_components [OF uf(4,2,3) c(2)])
  have "mset (map (\<lambda>r. the (sizes r)) ?keys) = image_mset (\<lambda>r. the (sizes r)) (mset_set (set ?keys))"
    by (simp add: mset_set_set)
  also have "\<dots> = image_mset (\<lambda>r. card (?m r)) (mset_set (set ?keys))"
  proof (rule image_mset_cong)
    fix r
    assume "r \<in># mset_set (set ?keys)"
    then have "sizes r \<noteq> None" by simp
    then show "the (sizes r) = card (?m r)" using c(2) by (simp add: counted_def tally_card split: if_splits)
  qed
  also have "\<dots> = image_mset card (image_mset ?m (mset_set (set ?keys)))"
    by (simp add: multiset.map_comp o_def)
  also have "image_mset ?m (mset_set (set ?keys)) = mset_set (components g keep)"
    using bij by (metis bij_betw_def image_mset_mset_set)
  finally have m: "mset (map (\<lambda>r. the (sizes r)) ?keys) = image_mset card (mset_set (components g keep))" .
  have "componentsWhere g keep = Some (stats_of (NumNodes g) (map (\<lambda>r. the (sizes r)) ?keys))"
    using uf(1) c(1) by (simp add: componentsWhere_def)
  then show ?thesis using m by blast
qed

text \<open>The statistics, read off the set of components.\<close>

lemma finite_components [simp]: "finite (components g keep)"
  by (simp add: components_def)

lemma sorted_last: "sorted xs \<Longrightarrow> x \<in> set xs \<Longrightarrow> x \<le> last (xs :: nat list)"
  by (induction xs) auto

lemma stats_of_components:
  assumes m: "mset sizes = image_mset card (mset_set (components g keep))"
  shows "cCount (stats_of n sizes) = card (components g keep)"
    and "cIsolated (stats_of n sizes) = card {C \<in> components g keep. card C = 1}"
    and "components g keep \<noteq> {} \<Longrightarrow> cLargestSize (stats_of n sizes) = Max (card ` components g keep)"
    and "components g keep \<noteq> {} \<Longrightarrow>
      cLargestPct (stats_of n sizes) = 100 * real (Max (card ` components g keep)) / real n"
    and "length (cTopSizes (stats_of n sizes)) = min 10 (card (components g keep))"
    and "sorted (rev (cTopSizes (stats_of n sizes)))"
proof -
  have "size (mset sizes) = card (components g keep)" unfolding m by simp
  then have len: "length sizes = card (components g keep)" by simp
  then show "cCount (stats_of n sizes) = card (components g keep)" by (simp add: stats_of_def Let_def)
  have "length (filter (\<lambda>s. s = 1) sizes) = size (filter_mset (\<lambda>s. s = 1) (mset sizes))"
    by (metis mset_filter size_mset)
  also have "\<dots> = card {C \<in> components g keep. card C = 1}"
    unfolding m by (simp add: filter_mset_image_mset)
  finally show "cIsolated (stats_of n sizes) = card {C \<in> components g keep. card C = 1}"
    by (simp add: stats_of_def Let_def)
  have set: "set sizes = card ` components g keep"
    using arg_cong [OF m, of set_mset] by simp
  show "cLargestSize (stats_of n sizes) = Max (card ` components g keep)"
    and "cLargestPct (stats_of n sizes) = 100 * real (Max (card ` components g keep)) / real n"
    if "components g keep \<noteq> {}"
  proof -
    have ne: "sort sizes \<noteq> []" using that set by (metis image_is_empty set_empty set_sort)
    have "rev (sort sizes) ! 0 = last (sort sizes)"
      using ne by (metis hd_conv_nth hd_rev rev_is_Nil_conv)
    also have "\<dots> = Max (set sizes)"
    proof (rule Max_eqI [symmetric])
      show "last (sort sizes) \<in> set sizes" using last_in_set [OF ne] by simp
      show "x \<le> last (sort sizes)" if "x \<in> set sizes" for x
        by (rule sorted_last) (use that in simp_all)
    qed simp
    finally have top: "rev (sort sizes) ! 0 = Max (card ` components g keep)" using set by simp
    then show "cLargestSize (stats_of n sizes) = Max (card ` components g keep)"
      "cLargestPct (stats_of n sizes) = 100 * real (Max (card ` components g keep)) / real n"
      using ne by (simp_all add: stats_of_def Let_def)
  qed
  show "length (cTopSizes (stats_of n sizes)) = min 10 (card (components g keep))"
    by (simp add: stats_of_def Let_def len)
  have "sorted (rev (take 10 (rev (sort sizes))))" by (simp add: rev_take sorted_wrt_drop)
  then show "sorted (rev (cTopSizes (stats_of n sizes)))" by (simp add: stats_of_def Let_def)
qed

section \<open>The largest component\<close>

definition leading :: "nat list \<Rightarrow> nat list \<Rightarrow> nat \<Rightarrow> nat \<Rightarrow> bool" where
  "leading p ys best bestSize \<longleftrightarrow> (\<forall>r. tally p ys r \<le> bestSize) \<and>
     (if ys = [] then bestSize = 0 else tally p ys best = bestSize \<and> 0 < bestSize)"

lemma vote_nodes_ok:
  assumes ok: "uf_ok uf" "uf_size uf = n"
  shows "\<exists>uf' sizes best bestSize. fold_opt vote_node [0..<n] (uf, Map.empty, 0, 0) =
      Some (uf', sizes, best, bestSize) \<and> walked n (parent uf) uf' \<and> leading (parent uf) [0..<n] best bestSize"
proof -
  let ?P = "\<lambda>ys s. case s of (u, sizes, best, bestSize) \<Rightarrow>
    walked n (parent uf) u \<and> counted (parent uf) ys sizes \<and> leading (parent uf) ys best bestSize"
  have "\<exists>s. fold_opt vote_node [0..<n] (uf, Map.empty, 0, 0) = Some s \<and> ?P [0..<n] s"
  proof (rule fold_opt_rule [where P = ?P])
    show "?P [] (uf, Map.empty, 0, 0)" using ok by (simp add: walked_def counted_def tally_def leading_def)
  next
    fix ys x zs s
    assume split: "[0..<n] = ys @ x # zs" and P: "?P ys s"
    obtain u sizes best bestSize where s: "s = (u, sizes, best, bestSize)" by (metis prod.exhaust)
    then have I: "walked n (parent uf) u" "counted (parent uf) ys sizes" "leading (parent uf) ys best bestSize"
      using P by simp_all
    have "x \<in> set [0..<n]" unfolding split by simp
    then obtain r u' where f: "uf_find x u = Some (r, u')" "walked n (parent uf) u'" "uf_root (parent uf) x r"
      using walked_find [of n uf u x] I(1) ok by auto
    let ?k = "(case sizes r of None \<Rightarrow> 0 | Some k \<Rightarrow> k) + 1"
    note c = counted_step [OF I(2) f(3)]
    have other: "tally (parent uf) (ys @ [x]) q = tally (parent uf) ys q" if "q \<noteq> r" for q
      using f(3) uf_root_unique that by (auto simp: tally_snoc)
    have lead: "leading (parent uf) (ys @ [x]) (if ?k > bestSize then r else best) (max ?k bestSize)"
    proof -
      have "tally (parent uf) (ys @ [x]) q \<le> max ?k bestSize" for q
        using I(3) other [of q] c(2) by (cases "q = r") (auto simp: leading_def max_def intro: order_trans)
      moreover have "tally (parent uf) (ys @ [x]) (if ?k > bestSize then r else best) = max ?k bestSize"
      proof (cases "?k > bestSize")
        case True
        then show ?thesis using c(2) by simp
      next
        case False
        then have ys: "ys \<noteq> []" using c(2) I(2,3) by (auto simp: leading_def counted_def tally_def)
        then have b: "tally (parent uf) ys best = bestSize" using I(3) by (simp add: leading_def)
        have "best \<noteq> r"
          using b c(2) False by (auto simp: tally_snoc f(3))
        then show ?thesis using b False other by simp
      qed
      ultimately show ?thesis by (simp add: leading_def)
    qed
    show "\<exists>s'. vote_node x s = Some s' \<and> ?P (ys @ [x]) s'"
      using f c(1) lead by (auto simp: vote_node_def s Let_def max_def)
  qed
  then show ?thesis by auto
qed

lemma mask_nodes_ok:
  assumes w: "walked n (parent uf0) uf" and ok: "uf_ok uf0" "uf_size uf0 = n"
  shows "\<exists>uf' mask. fold_opt (mask_node best) [0..<n] (uf, replicate n False) = Some (uf', mask) \<and>
    length mask = n \<and> (\<forall>x<n. mask ! x \<longleftrightarrow> uf_root (parent uf0) x best)"
proof -
  let ?P = "\<lambda>ys s. walked n (parent uf0) (fst s) \<and> length (snd s) = n \<and>
    (\<forall>x\<in>set ys. snd s ! x \<longleftrightarrow> uf_root (parent uf0) x best)"
  have "\<exists>s. fold_opt (mask_node best) [0..<n] (uf, replicate n False) = Some s \<and> ?P [0..<n] s"
  proof (rule fold_opt_rule [where P = ?P])
    show "?P [] (uf, replicate n False)" using w by simp
  next
    fix ys x zs s
    assume split: "[0..<n] = ys @ x # zs" and I: "?P ys s"
    have x: "x < n" using arg_cong [OF split, of set] by auto
    then obtain r u' where f: "uf_find x (fst s) = Some (r, u')" "walked n (parent uf0) u'" "uf_root (parent uf0) x r"
      using walked_find [of n uf0 "fst s" x] I ok by auto
    have "distinct [0..<n]" by simp
    then have "x \<notin> set ys" unfolding split by simp
    moreover have "(r = best) = uf_root (parent uf0) x best" using f(3) uf_root_unique by blast
    ultimately show "\<exists>s'. mask_node best x s = Some s' \<and> ?P (ys @ [x]) s'"
      using f I x by (auto simp: mask_node_def nth_list_update)
  qed
  then show ?thesis by auto
qed

lemma LargestComponent_ok:
  assumes wf: "wf_arrays g" and ne: "0 < NumNodes g"
  shows "\<exists>mask. LargestComponent g = Some mask \<and> length mask = NumNodes g \<and>
    {x. x < NumNodes g \<and> mask ! x} \<in> components g (\<lambda>_. True) \<and>
    (\<forall>C\<in>components g (\<lambda>_. True). card C \<le> card {x. x < NumNodes g \<and> mask ! x})"
proof -
  let ?n = "NumNodes g"
  obtain uf where uf: "build_forest g (\<lambda>_. True) = Some uf" "uf_ok uf" "uf_size uf = ?n"
    "uf.joins (kept g (\<lambda>_. True) [0..<NumEdges g]) uf" using build_forest_ok [OF wf] by blast
  obtain u sizes best bestSize where v: "fold_opt vote_node [0..<?n] (uf, Map.empty, 0, 0) =
      Some (u, sizes, best, bestSize)" "walked ?n (parent uf) u" "leading (parent uf) [0..<?n] best bestSize"
    using vote_nodes_ok [OF uf(2,3)] by blast
  obtain u' mask where m: "fold_opt (mask_node best) [0..<?n] (u, replicate ?n False) = Some (u', mask)"
    "length mask = ?n" "\<forall>x<?n. mask ! x \<longleftrightarrow> uf_root (parent uf) x best"
    using mask_nodes_ok [OF v(2) uf(2,3)] by blast
  have eq: "{x. x < ?n \<and> mask ! x} = members (parent uf) ?n best" using m(3) by (auto simp: members_def)
  have "members (parent uf) ?n best \<noteq> {}"
  proof -
    have "0 < tally (parent uf) [0..<?n] best" using v(3) ne by (auto simp: leading_def)
    then show ?thesis by (auto simp: tally_card)
  qed
  then obtain x where "x \<in> members (parent uf) ?n best" by blast
  then have x: "x < ?n" "uf_root (parent uf) x best" by (simp_all add: members_def)
  have comp: "members (parent uf) ?n best \<in> components g (\<lambda>_. True)"
    unfolding members_component [OF uf(4,3) x(2,1)] components_def using x(1) by simp
  have "card C \<le> card (members (parent uf) ?n best)" if C: "C \<in> components g (\<lambda>_. True)" for C
  proof -
    obtain y where y: "y < ?n" "C = component g (\<lambda>_. True) y" using C by (auto simp: components_def)
    obtain s where s: "uf_root (parent uf) y s" using uf_ok_root [OF uf(2)] uf(3) y(1) by auto
    have "C = members (parent uf) ?n s" using members_component [OF uf(4,3) s y(1)] y(2) by simp
    moreover have "tally (parent uf) [0..<?n] s \<le> bestSize" "tally (parent uf) [0..<?n] best = bestSize"
      using v(3) ne by (auto simp: leading_def)
    ultimately show ?thesis by (simp add: tally_card)
  qed
  then show ?thesis using uf(1) v(1) m eq comp by (auto simp: LargestComponent_def)
qed

text \<open>
  The component statistics of a well-formed graph, over all edges or over those up to a stress level, are those of its weakly connected components: their number, the size of the largest and its share, the number of single nodes, and at most ten sizes in descending order.
\<close>

lemma component_statistics:
  assumes wf: "wf_graph g" and ne: "0 < NumNodes g"
  shows "\<exists>s. componentsWhere g keep = Some s \<and> cCount s = card (components g keep) \<and>
    cLargestSize s = Max (card ` components g keep) \<and>
    cLargestPct s = 100 * real (Max (card ` components g keep)) / real (NumNodes g) \<and>
    cIsolated s = card {C \<in> components g keep. card C = 1} \<and>
    length (cTopSizes s) = min 10 (card (components g keep)) \<and> sorted (rev (cTopSizes s))"
proof -
  have "components g keep \<noteq> {}" using ne by (auto simp: components_def)
  moreover obtain sizes where "componentsWhere g keep = Some (stats_of (NumNodes g) sizes)"
    "mset sizes = image_mset card (mset_set (components g keep))"
    using componentsWhere_sizes [OF wf_graph_arrays [OF wf], of keep] by blast
  ultimately show ?thesis using stats_of_components by (intro exI [of _ "stats_of (NumNodes g) sizes"]) simp
qed

end
