(* ===== verification/Snapping.thy ===== *)
theory Snapping
  imports Components Geo
begin

text \<open>
  \<open>internal/graph/snap.go\<close>: attaching a coordinate to a node of the graph.  The rows of the
  nearest-edges query are a parameter.
\<close>

section \<open>The code\<close>

definition MaxSnapDistanceM :: real where "MaxSnapDistanceM = 1000"

datatype snap_error = InvalidCoordinate | SnapQueryFailed | SnapScanFailed | SnapReadFailed
  | ErrNoNearbyRoad

record Snap =
  NodeID :: int
  SnapDistanceM :: real
  EdgeDBID :: int
  RoadName :: string

record snap_row =
  sr_edge :: int
  sr_from :: int
  sr_to :: int
  sr_dist :: real
  sr_frac :: real
  sr_name :: string

definition snap_of :: "snap_row \<Rightarrow> Snap" where
  "snap_of r = \<lparr>NodeID = (if sr_frac r \<ge> 1 / 2 then int32 (sr_to r) else int32 (sr_from r)),
     SnapDistanceM = sr_dist r, EdgeDBID = sr_edge r, RoadName = sr_name r\<rparr>"

definition snap_finish :: "Snap option \<Rightarrow> (snap_error, Snap) outcome" where
  "snap_finish fallback = (case fallback of Some s \<Rightarrow> Ok s | None \<Rightarrow> Err ErrNoNearbyRoad)"

text \<open>
  The loop over the rows; \<open>main = None\<close> is the nil mask.  Leaving the loop early means that no
  read error has occurred.
\<close>

fun snap_rows :: "bool list option \<Rightarrow> bool \<Rightarrow> snap_row option list \<Rightarrow> Snap option \<Rightarrow>
    (snap_error, Snap) outcome" where
  "snap_rows main read_err [] fallback = (if read_err then Err SnapReadFailed else snap_finish fallback)"
| "snap_rows main read_err (None # rs) fallback = Err SnapScanFailed"
| "snap_rows main read_err (Some r # rs) fallback =
     (if sr_dist r > MaxSnapDistanceM then snap_finish fallback
      else
        let cand = snap_of r;
            fallback = (case fallback of None \<Rightarrow> Some cand | Some f \<Rightarrow> Some f)
        in case main of
             None \<Rightarrow> Ok cand
           | Some marks \<Rightarrow>
               if NodeID cand < 0 \<or> NodeID cand \<ge> int (length marks) then Panic
               else if marks ! nat (NodeID cand) then Ok cand
               else snap_rows main read_err rs fallback)"

definition SnapPoint :: "bool list option \<Rightarrow> (real \<Rightarrow> real \<Rightarrow> snap_row cursor option) \<Rightarrow> LatLon \<Rightarrow>
    (snap_error, Snap) outcome" where
  "SnapPoint main query p =
     (if \<not> Valid p then Err InvalidCoordinate
      else case query (Lon p) (Lat p) of
        None \<Rightarrow> Err SnapQueryFailed
      | Some c \<Rightarrow> snap_rows main (rows_err c) (rows c) None)"

section \<open>What a snap is\<close>

definition near_rows :: "snap_row option list \<Rightarrow> snap_row list" where
  "near_rows rs = takeWhile (\<lambda>r. sr_dist r \<le> MaxSnapDistanceM)
     (map the (takeWhile (\<lambda>r. r \<noteq> None) rs))"

definition in_main :: "bool list option \<Rightarrow> Snap \<Rightarrow> bool" where
  "in_main main s = (case main of None \<Rightarrow> True
     | Some marks \<Rightarrow> 0 \<le> NodeID s \<and> NodeID s < int (length marks) \<and> marks ! nat (NodeID s))"

text \<open>
  The result is the first near row in the main component; failing that, the first near row of
  all, or what was the fallback before.
\<close>

lemma snap_rows_Ok:
  "snap_rows main read_err rs fallback = Ok s \<Longrightarrow>
     (case find (\<lambda>r. in_main main (snap_of r)) (near_rows rs) of
        Some r \<Rightarrow> s = snap_of r
      | None \<Rightarrow> (case fallback of Some f \<Rightarrow> s = f
                | None \<Rightarrow> near_rows rs \<noteq> [] \<and> s = snap_of (hd (near_rows rs))))"
proof (induction main read_err rs fallback rule: snap_rows.induct)
  case (1 main read_err fallback)
  then show ?case by (auto simp: near_rows_def snap_finish_def split: option.splits if_splits)
next
  case (2 main read_err rs fallback)
  then show ?case by simp
next
  case (3 main read_err r rs fallback)
  show ?case
  proof (cases "sr_dist r > MaxSnapDistanceM")
    case True
    then have "near_rows (Some r # rs) = []" by (simp add: near_rows_def)
    then show ?thesis using 3 True by (auto simp: snap_finish_def split: option.splits)
  next
    case False
    then have near: "near_rows (Some r # rs) = r # near_rows rs" by (simp add: near_rows_def)
    show ?thesis
    proof (cases "in_main main (snap_of r)")
      case True
      then show ?thesis using 3 False near
        by (auto simp: in_main_def Let_def split: option.splits if_splits)
    next
      case out: False
      then obtain marks where marks: "main = Some marks" by (auto simp: in_main_def split: option.splits)
      let ?f = "case fallback of None \<Rightarrow> Some (snap_of r) | Some f \<Rightarrow> Some f"
      have rec: "snap_rows main read_err rs ?f = Ok s" and rng: "0 \<le> NodeID (snap_of r)"
        "NodeID (snap_of r) < int (length marks)" "\<not> marks ! nat (NodeID (snap_of r))"
        using "3.prems" False out marks by (auto simp: in_main_def Let_def split: if_splits)
      have "case find (\<lambda>r. in_main main (snap_of r)) (near_rows rs) of
          Some r \<Rightarrow> s = snap_of r
        | None \<Rightarrow> (case ?f of Some f \<Rightarrow> s = f
                  | None \<Rightarrow> near_rows rs \<noteq> [] \<and> s = snap_of (hd (near_rows rs)))"
        by (rule "3.IH" [OF _ refl refl marks _ _ rec]) (use False rng in auto)
      then show ?thesis using near out by (auto split: option.splits)
    qed
  qed
qed

lemma SnapPoint_Ok:
  assumes "SnapPoint main query p = Ok s"
  shows "\<exists>c. query (Lon p) (Lat p) = Some c \<and> near_rows (rows c) \<noteq> [] \<and>
    s = snap_of (case find (\<lambda>r. in_main main (snap_of r)) (near_rows (rows c)) of
      Some r \<Rightarrow> r | None \<Rightarrow> hd (near_rows (rows c)))"
proof -
  obtain c where c: "query (Lon p) (Lat p) = Some c" "snap_rows main (rows_err c) (rows c) None = Ok s"
    using assms by (auto simp: SnapPoint_def split: if_splits option.splits)
  show ?thesis
  proof (cases "find (\<lambda>r. in_main main (snap_of r)) (near_rows (rows c))")
    case None
    then show ?thesis using snap_rows_Ok [OF c(2)] c(1) by auto
  next
    case (Some r)
    then have "near_rows (rows c) \<noteq> []" by auto
    then show ?thesis using snap_rows_Ok [OF c(2)] c(1) Some by auto
  qed
qed

text \<open>Never moved by more than the bound.\<close>

lemma near_rows_bound: "r \<in> set (near_rows rs) \<Longrightarrow> sr_dist r \<le> MaxSnapDistanceM"
  unfolding near_rows_def by (rule set_takeWhileD [THEN conjunct2])

lemma SnapPoint_bound:
  assumes "SnapPoint main query p = Ok s"
  shows "SnapDistanceM s \<le> MaxSnapDistanceM"
proof -
  obtain c :: "snap_row cursor" where c: "near_rows (rows c) \<noteq> []"
    "s = snap_of (case find (\<lambda>r. in_main main (snap_of r)) (near_rows (rows c)) of
      Some r \<Rightarrow> r | None \<Rightarrow> hd (near_rows (rows c)))"
    using SnapPoint_Ok [OF assms] by blast
  have "(case find (\<lambda>r. in_main main (snap_of r)) (near_rows (rows c)) of
      Some r \<Rightarrow> r | None \<Rightarrow> hd (near_rows (rows c))) \<in> set (near_rows (rows c))"
    using c(1) by (auto split: option.splits simp: find_Some_iff)
  then show ?thesis using near_rows_bound c(2) by (simp add: snap_of_def)
qed

end
