(* ===== verification/Path_Geometry.thy ===== *)
theory Path_Geometry
  imports Geo Road_Graph
begin

text \<open>
  \<open>internal/routing/geometry.go\<close>: the shape of a path from the shapes of its edges.  The rows of
  the geometry query and the JSON decoder are parameters.  The theorem about \<open>assemble\<close> is the
  indexing convention its callers slice by: edge \<open>i\<close> is \<open>pts[offs[i] : offs[i+1]+1]\<close>.
\<close>

section \<open>The code\<close>

datatype geometry_error = QueryFailed | ScanFailed | DecodeFailed | MalformedPair
  | ReadFailed | NoGeometry int

fun decode_coords :: "real list list \<Rightarrow> (geometry_error, LatLon list) outcome" where
  "decode_coords [] = Ok []"
| "decode_coords (c # cs) =
     (if length c < 2 then Err MalformedPair
      else obind (decode_coords cs) (\<lambda>pts. Ok (\<lparr>Lat = c ! 1, Lon = c ! 0\<rparr> # pts)))"

definition decodeLineString :: "(string \<Rightarrow> real list list option) \<Rightarrow> string \<Rightarrow>
    (geometry_error, LatLon list) outcome" where
  "decodeLineString unmarshal raw =
     (case unmarshal raw of None \<Rightarrow> Err DecodeFailed | Some cs \<Rightarrow> decode_coords cs)"

definition join_shape :: "LatLon list \<Rightarrow> LatLon list \<Rightarrow> LatLon list" where
  "join_shape out pts = out @ (if out \<noteq> [] \<and> pts \<noteq> [] then tl pts else pts)"

fun assemble_loop :: "(int \<rightharpoonup> LatLon list) \<Rightarrow> int list \<Rightarrow> LatLon list \<Rightarrow> int list \<Rightarrow>
    (geometry_error, LatLon list \<times> int list) outcome" where
  "assemble_loop shapes [] out offs = Ok (out, offs)"
| "assemble_loop shapes (i # ids) out offs =
     (case shapes i of
        None \<Rightarrow> Err (NoGeometry i)
      | Some pts \<Rightarrow>
          let out = join_shape out pts
          in if out = [] then assemble_loop shapes ids out (offs @ [0])
             else assemble_loop shapes ids out (offs @ [int32 (int (length out) - 1)]))"

definition assemble :: "int list \<Rightarrow> (int \<rightharpoonup> LatLon list) \<Rightarrow>
    (geometry_error, LatLon list \<times> int list) outcome" where
  "assemble ids shapes = assemble_loop shapes ids [] [0]"

fun read_shapes :: "(string \<Rightarrow> real list list option) \<Rightarrow> (int \<times> string) option list \<Rightarrow>
    (int \<rightharpoonup> LatLon list) \<Rightarrow> (geometry_error, int \<rightharpoonup> LatLon list) outcome" where
  "read_shapes unmarshal [] shapes = Ok shapes"
| "read_shapes unmarshal (None # rs) shapes = Err ScanFailed"
| "read_shapes unmarshal (Some (i, raw) # rs) shapes =
     obind (decodeLineString unmarshal raw) (\<lambda>pts. read_shapes unmarshal rs (shapes(i \<mapsto> pts)))"

text \<open>\<open>query\<close> is what the database returns for the ids, \<open>None\<close> when the query fails.\<close>

definition FetchGeometry :: "(string \<Rightarrow> real list list option) \<Rightarrow>
    (int list \<Rightarrow> (int \<times> string) cursor option) \<Rightarrow> graph \<Rightarrow> nat list \<Rightarrow>
    (geometry_error, LatLon list \<times> int list) outcome" where
  "FetchGeometry unmarshal query g edges =
     (if edges = [] then Ok ([], [])
      else
        let ids = map (\<lambda>e. DBID g ! e) edges
        in case query ids of
             None \<Rightarrow> Err QueryFailed
           | Some c \<Rightarrow> obind (read_shapes unmarshal (rows c) Map.empty) (\<lambda>shapes.
               if rows_err c then Err ReadFailed else assemble ids shapes))"

section \<open>Slices\<close>

text \<open>\<open>pts[offs[i] : offs[i+1]+1]\<close>, the points of edge \<open>i\<close>.\<close>

definition slice :: "LatLon list \<Rightarrow> int \<Rightarrow> int \<Rightarrow> LatLon list" where
  "slice pts lo hi = take (nat hi - nat lo) (drop (nat lo) pts)"

text \<open>Shapes that a route can be made of: each has points, and each starts where the last ended.\<close>

fun chained :: "LatLon list list \<Rightarrow> bool" where
  "chained [] = True"
| "chained [s] = (s \<noteq> [])"
| "chained (s # t # ss) = (s \<noteq> [] \<and> t \<noteq> [] \<and> last s = hd t \<and> chained (t # ss))"

fun joined :: "LatLon list \<Rightarrow> LatLon list list \<Rightarrow> LatLon list" where
  "joined out [] = out"
| "joined out (s # ss) = joined (join_shape out s) ss"

fun ends :: "LatLon list \<Rightarrow> LatLon list list \<Rightarrow> int list" where
  "ends out [] = []"
| "ends out (s # ss) = int (length (join_shape out s) - 1) # ends (join_shape out s) ss"

lemma joined_extends: "\<exists>more. joined out ss = out @ more"
  by (induction ss arbitrary: out) (auto simp: join_shape_def, metis append.assoc)

lemma length_ends [simp]: "length (ends out ss) = length ss"
  by (induction ss arbitrary: out) auto

lemma assemble_loop_ok:
  assumes "map shapes ids = map Some ss" and "length (joined out ss) < 2147483648"
  shows "assemble_loop shapes ids out offs = Ok (joined out ss, offs @ ends out ss)"
  using assms
proof (induction ids arbitrary: ss out offs)
  case Nil
  then show ?case by simp
next
  case (Cons i ids)
  then obtain s ss' where ss: "ss = s # ss'" "shapes i = Some s" "map shapes ids = map Some ss'"
    by (cases ss) auto
  let ?o = "join_shape out s"
  obtain more where "joined ?o ss' = ?o @ more" using joined_extends by blast
  then have len: "length ?o < 2147483648" using Cons.prems(2) ss by simp
  have IH: "assemble_loop shapes ids ?o offs' = Ok (joined ?o ss', offs' @ ends ?o ss')" for offs'
    by (rule Cons.IH [OF ss(3)]) (use Cons.prems(2) ss in simp)
  show ?case
  proof (cases "?o = []")
    case True
    then show ?thesis using IH [of "offs @ [0]"] ss by (simp add: Let_def)
  next
    case False
    then have "int32 (int (length ?o) - 1) = int (length ?o - 1)"
      using len by (simp add: int32_id of_nat_diff Suc_leI)
    then show ?thesis using IH ss False by (simp add: Let_def)
  qed
qed

text \<open>One more edge: its slice is its shape.\<close>

lemma join_slice:
  assumes "s \<noteq> []" and "out \<noteq> [] \<Longrightarrow> last out = hd s"
  shows "slice (join_shape out s) (int (length out - 1)) (int (length (join_shape out s) - 1) + 1) = s"
proof (cases "out = []")
  case True
  then show ?thesis using assms(1) by (simp add: slice_def join_shape_def nat_add_distrib)
next
  case False
  then have out: "out = butlast out @ [hd s]" using assms(2) by (metis append_butlast_last_id)
  have len: "length out - 1 = length (butlast out)" by simp
  have "join_shape out s = butlast out @ s"
    using False assms(1) out by (simp add: join_shape_def) (metis append.assoc append_Cons append_Nil list.collapse)
  moreover have "length (butlast out) + length s - 1 + 1 = length (butlast out) + length s"
    using assms(1) by (cases s) auto
  ultimately show ?thesis
    unfolding slice_def len by (simp add: nat_add_distrib)
qed

lemma slice_append: "nat hi \<le> length pts \<Longrightarrow> slice (pts @ rest) lo hi = slice pts lo hi"
  by (simp add: slice_def)

lemma chained_tl: "chained (s # ss) \<Longrightarrow> chained ss"
  by (cases ss) auto

lemma ends_slice:
  assumes "chained ss" and "out \<noteq> [] \<Longrightarrow> ss \<noteq> [] \<Longrightarrow> last out = hd (hd ss)" and "i < length ss"
  shows "slice (joined out ss) ((int (length out - 1) # ends out ss) ! i) (ends out ss ! i + 1) = ss ! i"
  using assms
proof (induction ss arbitrary: out i)
  case Nil
  then show ?case by simp
next
  case (Cons s ss)
  let ?o = "join_shape out s"
  have s: "s \<noteq> []" using Cons.prems(1) by (cases ss) auto
  have o: "?o \<noteq> []" using s by (auto simp: join_shape_def)
  have last: "last ?o = last s"
  proof (cases "out = []")
    case True
    then show ?thesis by (simp add: join_shape_def)
  next
    case False
    then have "last out = hd s" using Cons.prems(2) by simp
    then show ?thesis using False s
      by (cases s) (auto simp: join_shape_def last_append)
  qed
  show ?case
  proof (cases i)
    case 0
    obtain more where m: "joined ?o ss = ?o @ more" using joined_extends by blast
    have "slice ?o (int (length out - 1)) (int (length ?o - 1) + 1) = s"
      by (rule join_slice [OF s]) (use Cons.prems(2) in simp)
    moreover have "nat (int (length ?o - 1) + 1) \<le> length ?o" using o by (cases ?o) auto
    ultimately show ?thesis using 0 m by (simp add: slice_append)
  next
    case (Suc j)
    have "slice (joined ?o ss) ((int (length ?o - 1) # ends ?o ss) ! j) (ends ?o ss ! j + 1) = ss ! j"
    proof (rule Cons.IH [OF chained_tl [OF Cons.prems(1)]])
      show "?o \<noteq> [] \<Longrightarrow> ss \<noteq> [] \<Longrightarrow> last ?o = hd (hd ss)"
        using last Cons.prems(1) by (cases ss) auto
      show "j < length ss" using Cons.prems(3) Suc by simp
    qed
    then show ?thesis using Suc by simp
  qed
qed

lemma assemble_slices:
  assumes ss: "map shapes ids = map Some ss" and ch: "chained ss"
    and small: "length (concat ss) < 2147483648"
  shows "\<exists>pts offs. assemble ids shapes = Ok (pts, offs) \<and> length offs = length ids + 1 \<and>
    (\<forall>i<length ids. slice pts (offs ! i) (offs ! (i + 1) + 1) = ss ! i)"
proof -
  have len: "length (joined out ss) \<le> length out + length (concat ss)" for out
  proof (induction ss arbitrary: out)
    case (Cons s ss)
    have "length (join_shape out s) \<le> length out + length s" by (simp add: join_shape_def)
    then show ?case using Cons [of "join_shape out s"] by simp
  qed simp
  have "assemble ids shapes = Ok (joined [] ss, [0] @ ends [] ss)"
    unfolding assemble_def
    by (rule assemble_loop_ok [OF ss]) (use len [of "[]"] small in auto)
  moreover have "length ids = length ss" using ss by (metis length_map)
  moreover have "slice (joined [] ss) (([0] @ ends [] ss) ! i) (([0] @ ends [] ss) ! (i + 1) + 1) = ss ! i"
    if "i < length ss" for i
    using ends_slice [OF ch _ that, of "[]"] by simp
  ultimately show ?thesis by auto
qed

text \<open>An edge with no shape is an error, not a gap in the line.\<close>

lemma assemble_missing:
  "i \<in> set ids \<Longrightarrow> shapes i = None \<Longrightarrow> \<exists>j. assemble ids shapes = Err (NoGeometry j) \<and> shapes j = None"
proof -
  have "i \<in> set ids \<Longrightarrow> shapes i = None \<Longrightarrow>
      \<exists>j. assemble_loop shapes ids out offs = Err (NoGeometry j) \<and> shapes j = None" for out offs
  proof (induction ids arbitrary: out offs)
    case (Cons k ids)
    then show ?case by (cases "shapes k") (auto simp: Let_def)
  qed simp
  then show "i \<in> set ids \<Longrightarrow> shapes i = None \<Longrightarrow> \<exists>j. assemble ids shapes = Err (NoGeometry j) \<and> shapes j = None"
    by (simp add: assemble_def)
qed

end
