(* ===== verification/Go_Strings.thy ===== *)
theory Go_Strings
  imports Float32
begin

text \<open>
  What the code uses of Go's packages \<open>strings\<close> and \<open>strconv\<close>.  A Go string is the list of its
  bytes.  Case folding and white space are those of ASCII; bytes of longer UTF-8 sequences are
  left as they are.  \<open>ParseFloat\<close> follows the grammar of \<open>strconv\<close>: sign, decimal or
  hexadecimal digits with underscores between them, exponent, \<open>inf\<close> and \<open>nan\<close>.  Its value is
  exact, and a magnitude that would round to an infinite \<open>float64\<close> is a range error.

  Shown here: a decimal number reads back as it was written (\<open>ParseFloat_FormatFloat\<close>,
  \<open>FormatInt_read\<close>), and the text written holds digits, a sign and a point only.
\<close>

section \<open>Characters\<close>

definition is_space :: "char \<Rightarrow> bool" where
  "is_space c \<longleftrightarrow> c \<in> {CHR 0x09, CHR 0x0A, CHR 0x0B, CHR 0x0C, CHR 0x0D, CHR '' ''}"

definition is_digit :: "char \<Rightarrow> bool" where
  "is_digit c \<longleftrightarrow> 48 \<le> (of_char c :: nat) \<and> (of_char c :: nat) \<le> 57"

definition lower_char :: "char \<Rightarrow> char" where
  "lower_char c = (if 65 \<le> (of_char c :: nat) \<and> (of_char c :: nat) \<le> 90 then char_of ((of_char c :: nat) + 32) else c)"

definition ToLower :: "string \<Rightarrow> string" where "ToLower = map lower_char"

definition digit_value :: "char \<Rightarrow> int" where
  "digit_value c = (let n = int (of_char (lower_char c)) in if n \<le> 57 then n - 48 else n - 87)"

definition is_hex_letter :: "char \<Rightarrow> bool" where
  "is_hex_letter c \<longleftrightarrow> 97 \<le> (of_char (lower_char c) :: nat) \<and> (of_char (lower_char c) :: nat) \<le> 102"

section \<open>Searching and trimming\<close>

definition TrimLeft :: "(char \<Rightarrow> bool) \<Rightarrow> string \<Rightarrow> string" where
  "TrimLeft p s = dropWhile p s"

definition TrimBoth :: "(char \<Rightarrow> bool) \<Rightarrow> string \<Rightarrow> string" where
  "TrimBoth p s = rev (dropWhile p (rev (dropWhile p s)))"

definition TrimSpace :: "string \<Rightarrow> string" where "TrimSpace = TrimBoth is_space"

definition HasPrefix :: "string \<Rightarrow> string \<Rightarrow> bool" where
  "HasPrefix s p \<longleftrightarrow> take (length p) s = p"

fun Contains :: "string \<Rightarrow> string \<Rightarrow> bool" where
  "Contains [] p \<longleftrightarrow> p = []"
| "Contains (c # s) p \<longleftrightarrow> HasPrefix (c # s) p \<or> Contains s p"

text \<open>The text before the first of the given characters, all of it where there is none.\<close>

definition before_any :: "string \<Rightarrow> string \<Rightarrow> string" where
  "before_any cs s = takeWhile (\<lambda>c. c \<notin> set cs) s"

text \<open>
  \<open>strings.NewReplacer(p1, "", p2, "", ...).Replace\<close>: at each place the first of the patterns
  that matches is cut out; \<open>k\<close> counts the characters of a match still to be passed over.
\<close>

fun remove_all :: "string list \<Rightarrow> nat \<Rightarrow> string \<Rightarrow> string" where
  "remove_all pats k [] = []"
| "remove_all pats (Suc k) (c # s) = remove_all pats k s"
| "remove_all pats 0 (c # s) =
     (case find (\<lambda>p. p \<noteq> [] \<and> HasPrefix (c # s) p) pats of
        None \<Rightarrow> c # remove_all pats 0 s
      | Some p \<Rightarrow> remove_all pats (length p - 1) s)"

text \<open>The first of \<open>strings.Fields\<close>; \<open>None\<close> where there is no field, and indexing panics.\<close>

definition first_field :: "string \<Rightarrow> string option" where
  "first_field s = (let t = dropWhile is_space s
     in if t = [] then None else Some (takeWhile (\<lambda>c. \<not> is_space c) t))"

section \<open>Reading a floating-point number\<close>

datatype float_text = Fin real | Inf bool | NaN

record mantissa =
  m_val :: int
  m_frac :: nat
  m_dot :: bool
  m_digits :: bool

fun scan_mantissa :: "bool \<Rightarrow> string \<Rightarrow> mantissa \<Rightarrow> mantissa \<times> string" where
  "scan_mantissa hex [] m = (m, [])"
| "scan_mantissa hex (c # s) m =
     (if c = CHR ''_'' then scan_mantissa hex s m
      else if c = CHR ''.'' then
        if m_dot m then (m, c # s) else scan_mantissa hex s (m\<lparr>m_dot := True\<rparr>)
      else if is_digit c \<or> hex \<and> is_hex_letter c then
        scan_mantissa hex s (m\<lparr>m_val := m_val m * (if hex then 16 else 10) + digit_value c,
          m_frac := (if m_dot m then m_frac m + 1 else m_frac m), m_digits := True\<rparr>)
      else (m, c # s))"

text \<open>The exponent's digits; it stops growing once it has five.\<close>

fun scan_exponent :: "string \<Rightarrow> int \<Rightarrow> int \<times> string" where
  "scan_exponent [] e = (e, [])"
| "scan_exponent (c # s) e =
     (if c = CHR ''_'' then scan_exponent s e
      else if is_digit c then scan_exponent s (if e < 10000 then e * 10 + digit_value c else e)
      else (e, c # s))"

definition read_exponent :: "string \<Rightarrow> (int \<times> string) option" where
  "read_exponent s =
     (let (sign, t) = (case s of c # t \<Rightarrow> if c = CHR ''+'' then (1, t)
                        else if c = CHR ''-'' then (- 1, t) else (1, s) | [] \<Rightarrow> (1, []))
      in case t of [] \<Rightarrow> None
         | c # _ \<Rightarrow> if is_digit c then (let (e, rest) = scan_exponent t 0 in Some (sign * e, rest)) else None)"

text \<open>Underscores must separate digits; \<open>last_c\<close> is the class of the character before.\<close>

fun underscores_ok :: "bool \<Rightarrow> char \<Rightarrow> string \<Rightarrow> bool" where
  "underscores_ok hex last_c [] \<longleftrightarrow> last_c \<noteq> CHR ''_''"
| "underscores_ok hex last_c (c # s) \<longleftrightarrow>
     (if is_digit c \<or> hex \<and> is_hex_letter c then underscores_ok hex (CHR ''0'') s
      else if c = CHR ''_'' then last_c = CHR ''0'' \<and> underscores_ok hex (CHR ''_'') s
      else last_c \<noteq> CHR ''_'' \<and> underscores_ok hex (CHR ''!'') s)"

definition underscoreOK :: "string \<Rightarrow> bool" where
  "underscoreOK s =
     (case s of c # d # t \<Rightarrow>
        if c = CHR ''0'' \<and> lower_char d \<in> {CHR ''b'', CHR ''o'', CHR ''x''}
        then underscores_ok (lower_char d = CHR ''x'') (CHR ''0'') t
        else underscores_ok False (CHR ''^'') s
      | _ \<Rightarrow> underscores_ok False (CHR ''^'') s)"

definition signed :: "bool \<Rightarrow> real \<Rightarrow> real" where "signed neg v = (if neg then - v else v)"

definition overflow_limit :: real where "overflow_limit = 2 ^ 1024 - 2 ^ 970"

definition finite_float :: "bool \<Rightarrow> real \<Rightarrow> float_text option" where
  "finite_float neg v = (if v \<ge> overflow_limit then None else Some (Fin (signed neg v)))"

definition read_number :: "bool \<Rightarrow> string \<Rightarrow> float_text option" where
  "read_number neg s =
     (let hex = (length s > 2 \<and> s ! 0 = CHR ''0'' \<and> lower_char (s ! 1) = CHR ''x'');
          (m, rest) = scan_mantissa hex (if hex then drop 2 s else s)
             \<lparr>m_val = 0, m_frac = 0, m_dot = False, m_digits = False\<rparr>;
          base = (if hex then 16 else 10) :: real
      in if \<not> m_digits m \<or> CHR ''_'' \<in> set s \<and> \<not> underscoreOK s then None
         else case rest of
           [] \<Rightarrow> if hex then None else finite_float neg (of_int (m_val m) / base ^ m_frac m)
         | c # t \<Rightarrow>
             if lower_char c \<noteq> (if hex then CHR ''p'' else CHR ''e'') then None
             else case read_exponent t of
               Some (e, []) \<Rightarrow> finite_float neg
                  (of_int (m_val m) / base ^ m_frac m * (if hex then 2 else 10) powr of_int e)
             | _ \<Rightarrow> None)"

definition ParseFloat :: "string \<Rightarrow> float_text option" where
  "ParseFloat s =
     (case s of [] \<Rightarrow> None
      | c # t \<Rightarrow>
          let sign = c \<in> {CHR ''+'', CHR ''-''}; body = (if sign then t else s)
          in if ToLower body \<in> {''inf'', ''infinity''} then Some (Inf (c = CHR ''-''))
             else if \<not> sign \<and> ToLower s = ''nan'' then Some NaN
             else read_number (c = CHR ''-'') body)"

section \<open>Writing numbers\<close>

definition digit_char :: "nat \<Rightarrow> char" where "digit_char d = char_of (48 + d)"

fun nat_text :: "nat \<Rightarrow> string" where
  "nat_text n = (if n < 10 then [digit_char n] else nat_text (n div 10) @ [digit_char (n mod 10)])"

declare nat_text.simps [simp del]

definition FormatInt :: "int \<Rightarrow> string" where
  "FormatInt v = (if v < 0 then CHR ''-'' # nat_text (nat (- v)) else nat_text (nat v))"

text \<open>\<open>strconv.FormatFloat(v, 'f', prec, 64)\<close>: the exact decimal value, rounded half to even.\<close>

fun frac_text :: "nat \<Rightarrow> nat \<Rightarrow> string" where
  "frac_text 0 n = []"
| "frac_text (Suc k) n = frac_text k (n div 10) @ [digit_char (n mod 10)]"

definition FormatFloat :: "real \<Rightarrow> nat \<Rightarrow> string" where
  "FormatFloat v prec =
     (let n = nat (round_even (\<bar>v\<bar> * 10 ^ prec));
          body = nat_text (n div 10 ^ prec) @ (if prec = 0 then [] else CHR ''.'' # frac_text prec n)
      in if v < 0 then CHR ''-'' # body else body)"



lemma digit_char_code: "d < 10 \<Longrightarrow> (of_char (digit_char d) :: nat) = 48 + d"
  by (simp add: digit_char_def)

lemma digit_char [simp]:
  assumes "d < 10"
  shows "is_digit (digit_char d)" "lower_char (digit_char d) = digit_char d"
    "digit_value (digit_char d) = int d"
proof -
  have n: "(of_char (digit_char d) :: nat) = 48 + d" by (rule digit_char_code [OF assms])
  show "is_digit (digit_char d)" using n assms by (simp add: is_digit_def)
  show l: "lower_char (digit_char d) = digit_char d" using n assms by (simp add: lower_char_def)
  show "digit_value (digit_char d) = int d" using n l assms by (simp add: digit_value_def)
qed

lemma digit_not [simp]:
  "is_digit c \<Longrightarrow> c \<noteq> CHR ''_''" "is_digit c \<Longrightarrow> c \<noteq> CHR ''.''" "is_digit c \<Longrightarrow> c \<noteq> CHR ''-''"
  "is_digit c \<Longrightarrow> c \<noteq> CHR ''+''" "is_digit c \<Longrightarrow> c \<noteq> CHR ''x''" "is_digit c \<Longrightarrow> c \<noteq> CHR ''i''"
  "is_digit c \<Longrightarrow> c \<noteq> CHR ''n''"
  by (auto simp: is_digit_def)

definition digits_value :: "string \<Rightarrow> int" where
  "digits_value s = foldl (\<lambda>a c. a * 10 + digit_value c) 0 s"

lemma digits_value_snoc [simp]: "digits_value (s @ [c]) = digits_value s * 10 + digit_value c"
  by (simp add: digits_value_def)

lemma nat_text_digits: "c \<in> set (nat_text n) \<Longrightarrow> is_digit c"
proof (induction n rule: nat_text.induct)
  case (1 n)
  then show ?case by (subst (asm) (2) nat_text.simps) (auto split: if_splits)
qed

lemma nat_text_nonempty [simp]: "nat_text n \<noteq> []"
  by (subst nat_text.simps) simp

lemma nat_text_value: "digits_value (nat_text n) = int n"
proof (induction n rule: nat_text.induct)
  case (1 n)
  show ?case
  proof (cases "n < 10")
    case True
    then show ?thesis by (subst nat_text.simps) (simp add: digits_value_def)
  next
    case False
    moreover have "int (n div 10) * 10 + int (n mod 10) = int n" by presburger
    ultimately show ?thesis using 1 by (subst nat_text.simps) simp
  qed
qed

lemma frac_text_digits: "c \<in> set (frac_text k n) \<Longrightarrow> is_digit c"
  by (induction k arbitrary: n) auto

lemma length_frac_text [simp]: "length (frac_text k n) = k"
  by (induction k arbitrary: n) auto

lemma frac_text_value: "digits_value (frac_text k n) = int (n mod 10 ^ k)"
proof (induction k arbitrary: n)
  case 0
  then show ?case by (simp add: digits_value_def)
next
  case (Suc k)
  have "n mod 10 ^ Suc k = n mod 10 + 10 * (n div 10 mod 10 ^ k)" by (simp add: mod_mult2_eq)
  then show ?case using Suc by simp
qed

lemma foldl_digits: "foldl (\<lambda>a c. a * 10 + digit_value c) v ds = v * 10 ^ length ds + digits_value ds"
proof (induction ds rule: rev_induct)
  case (snoc c ds)
  then show ?case by (simp add: algebra_simps)
qed (simp add: digits_value_def)

lemma scan_mantissa_digits:
  assumes "\<forall>c\<in>set ds. is_digit c"
  shows "scan_mantissa False (ds @ s) m = scan_mantissa False s
    (m\<lparr>m_val := m_val m * 10 ^ length ds + digits_value ds,
       m_frac := (if m_dot m then m_frac m + length ds else m_frac m),
       m_digits := m_digits m \<or> ds \<noteq> []\<rparr>)"
proof -
  have "scan_mantissa False (ds @ s) m = scan_mantissa False s
    (m\<lparr>m_val := foldl (\<lambda>a c. a * 10 + digit_value c) (m_val m) ds,
       m_frac := (if m_dot m then m_frac m + length ds else m_frac m),
       m_digits := m_digits m \<or> ds \<noteq> []\<rparr>)"
    using assms by (induction ds arbitrary: m) auto
  then show ?thesis by (simp add: foldl_digits)
qed

lemma read_number_decimal:
  assumes "\<not> (length s > 2 \<and> s ! 0 = CHR ''0'' \<and> lower_char (s ! 1) = CHR ''x'')"
    and "CHR ''_'' \<notin> set s"
    and "scan_mantissa False s \<lparr>m_val = 0, m_frac = 0, m_dot = False, m_digits = False\<rparr> = (m, [])"
    and "m_digits m"
  shows "read_number neg s = finite_float neg (of_int (m_val m) / 10 ^ m_frac m)"
proof -
  have hex: "(length s > 2 \<and> s ! 0 = CHR ''0'' \<and> lower_char (s ! 1) = CHR ''x'') = False"
    using assms(1) by blast
  show ?thesis unfolding read_number_def Let_def hex using assms(2-4) by simp
qed

lemma not_digit [simp]:
  "\<not> is_digit (CHR ''_'')" "\<not> is_digit (CHR ''.'')" "\<not> is_digit (CHR ''-'')" "\<not> is_digit (CHR ''x'')"
  by (simp_all add: is_digit_def)

lemma lower_digit: "is_digit c \<Longrightarrow> lower_char c = c"
  by (simp add: lower_char_def is_digit_def)

lemma plain_text_chars:
  assumes "\<forall>c\<in>set ds. is_digit c" "\<forall>c\<in>set fs. is_digit c"
    and "c \<in> set (ds @ (if fs = [] then [] else CHR ''.'' # fs))"
  shows "c \<noteq> CHR ''_'' \<and> lower_char c \<noteq> CHR ''x''"
proof -
  have "c = CHR ''.'' \<or> is_digit c" using assms by (auto split: if_splits)
  moreover have "lower_char (CHR ''.'') = CHR ''.''" by (simp add: lower_char_def)
  ultimately show ?thesis using lower_digit [of c] digit_not [of c] by auto
qed

lemma read_plain_number:
  assumes ds: "\<forall>c\<in>set ds. is_digit c" "ds \<noteq> []" and fs: "\<forall>c\<in>set fs. is_digit c"
  shows "read_number neg (ds @ (if fs = [] then [] else CHR ''.'' # fs)) =
    finite_float neg (of_int (digits_value ds * 10 ^ length fs + digits_value fs) / 10 ^ length fs)"
proof -
  define s where "s = ds @ (if fs = [] then [] else CHR ''.'' # fs)"
  have chars: "c \<noteq> CHR ''_'' \<and> lower_char c \<noteq> CHR ''x''" if "c \<in> set s" for c
    using plain_text_chars [OF ds(1) fs] that unfolding s_def by blast
  have hex: "\<not> (length s > 2 \<and> s ! 0 = CHR ''0'' \<and> lower_char (s ! 1) = CHR ''x'')"
    using chars [of "s ! 1"] nth_mem [of 1 s] by auto
  have under: "CHR ''_'' \<notin> set s" using chars by blast
  have "scan_mantissa False s \<lparr>m_val = 0, m_frac = 0, m_dot = False, m_digits = False\<rparr> =
    (\<lparr>m_val = digits_value ds * 10 ^ length fs + digits_value fs, m_frac = length fs,
      m_dot = (fs \<noteq> []), m_digits = True\<rparr>, [])"
    unfolding s_def using scan_mantissa_digits [OF ds(1)] scan_mantissa_digits [OF fs, of "[]"] ds(2)
    by (simp add: digits_value_def)
  from read_number_decimal [OF hex under this] show ?thesis by (simp add: s_def)
qed

lemma ToLower_digits: "\<forall>c\<in>set ds. is_digit c \<Longrightarrow> ToLower (ds @ s) = ds @ ToLower s"
  by (simp add: ToLower_def map_idI lower_digit)

lemma ParseFloat_plain:
  assumes ds: "\<forall>c\<in>set ds. is_digit c" "ds \<noteq> []" and fs: "\<forall>c\<in>set fs. is_digit c"
    and body: "body = ds @ (if fs = [] then [] else CHR ''.'' # fs)"
  shows "ParseFloat (if neg then CHR ''-'' # body else body) =
    finite_float neg (of_int (digits_value ds * 10 ^ length fs + digits_value fs) / 10 ^ length fs)"
proof -
  obtain d ds' where d: "ds = d # ds'" using ds(2) by (cases ds) auto
  then have dd: "is_digit d" using ds(1) by simp
  have low: "ToLower body = d # ToLower (tl body)"
    using body d dd lower_digit by (simp add: ToLower_def)
  have no: "ToLower body \<notin> {''inf'', ''infinity''}" "ToLower body \<noteq> ''nan''"
    using low dd by auto
  have "body \<noteq> []" "hd body = d" using body d by simp_all
  then have "ParseFloat (if neg then CHR ''-'' # body else body) = read_number neg body"
    using no dd by (cases neg; cases body) (simp_all add: ParseFloat_def Let_def)
  then show ?thesis using read_plain_number [OF ds fs] body by simp
qed

lemma round_even_nonneg: "0 \<le> x \<Longrightarrow> 0 \<le> round_even x"
  by (simp add: round_even_def Let_def)

text \<open>Numbers read back as they were written, to the precision they were written with.\<close>

definition rounded :: "nat \<Rightarrow> real \<Rightarrow> real" where
  "rounded prec v = signed (v < 0) (of_int (round_even (\<bar>v\<bar> * 10 ^ prec)) / 10 ^ prec)"

lemma ParseFloat_FormatFloat:
  assumes "\<bar>v\<bar> < 10 ^ 300"
  shows "ParseFloat (FormatFloat v prec) = Some (Fin (rounded prec v))"
proof -
  define n where "n = nat (round_even (\<bar>v\<bar> * 10 ^ prec))"
  have n: "int n = round_even (\<bar>v\<bar> * 10 ^ prec)" by (simp add: n_def round_even_nonneg)
  let ?ds = "nat_text (n div 10 ^ prec)" and ?fs = "frac_text prec n"
  let ?body = "?ds @ (if ?fs = [] then [] else CHR ''.'' # ?fs)"
  have fs: "?fs = [] \<longleftrightarrow> prec = 0" using length_frac_text [of prec n] by (metis length_0_conv)
  have F: "FormatFloat v prec = (if v < 0 then CHR ''-'' # ?body else ?body)"
    by (simp add: FormatFloat_def n_def [symmetric] Let_def fs)
  have "int (n div 10 ^ prec) * 10 ^ prec + int (n mod 10 ^ prec) = int n"
    using arg_cong [OF div_mult_mod_eq [of n "10 ^ prec"], of int]
    by (simp only: of_nat_add of_nat_mult of_nat_power of_nat_numeral)
  then have "ParseFloat (FormatFloat v prec) = finite_float (v < 0) (of_int (int n) / 10 ^ prec)"
    unfolding F using ParseFloat_plain [where ds = ?ds and fs = ?fs and neg = "v < 0", OF _ _ _ refl]
      nat_text_digits frac_text_digits nat_text_nonempty
    by (simp only: nat_text_value frac_text_value length_frac_text) blast
  moreover have "real n / 10 ^ prec < overflow_limit"
  proof -
    have "real_of_int (int n) \<le> \<bar>v\<bar> * 10 ^ prec + 1 / 2"
      unfolding n using round_even_error [of "\<bar>v\<bar> * 10 ^ prec"] by linarith
    then have "real n / 10 ^ prec \<le> \<bar>v\<bar> + 1 / 2 / 10 ^ prec" by (simp add: field_simps)
    also have "\<dots> \<le> 10 ^ 300 + 1"
    proof (intro add_mono less_imp_le [OF assms])
      have "(1::real) \<le> 10 ^ prec" by simp
      then show "1 / 2 / 10 ^ prec \<le> (1::real)" by (simp only: divide_le_eq_1 divide_divide_eq_left) linarith
    qed
    also have "\<dots> < overflow_limit" by (simp add: overflow_limit_def)
    finally show ?thesis .
  qed
  ultimately show ?thesis by (simp add: finite_float_def rounded_def n [symmetric] not_le [symmetric])
qed

lemma rounded_error: "\<bar>rounded prec v - v\<bar> \<le> 1 / (2 * 10 ^ prec)"
proof -
  have "\<bar>of_int (round_even (\<bar>v\<bar> * 10 ^ prec)) / 10 ^ prec - \<bar>v\<bar>\<bar> \<le> 1 / 2 / 10 ^ prec"
  proof -
    let ?r = "of_int (round_even (\<bar>v\<bar> * 10 ^ prec)) :: real"
    have "?r / 10 ^ prec - \<bar>v\<bar> = (?r - \<bar>v\<bar> * 10 ^ prec) / 10 ^ prec" by (simp add: field_simps)
    then have "\<bar>?r / 10 ^ prec - \<bar>v\<bar>\<bar> = \<bar>?r - \<bar>v\<bar> * 10 ^ prec\<bar> / 10 ^ prec" by (simp add: abs_divide)
    then show ?thesis using divide_right_mono [OF round_even_error [of "\<bar>v\<bar> * 10 ^ prec"], of "10 ^ prec"] by simp
  qed
  then show ?thesis by (auto simp: rounded_def signed_def abs_if split: if_splits)
qed

text \<open>What is written holds digits, a sign and a point only.\<close>

lemma FormatInt_chars: "c \<in> set (FormatInt v) \<Longrightarrow> is_digit c \<or> c = CHR ''-''"
  using nat_text_digits by (auto simp: FormatInt_def split: if_splits)

lemma FormatFloat_chars: "c \<in> set (FormatFloat v prec) \<Longrightarrow> is_digit c \<or> c = CHR ''-'' \<or> c = CHR ''.''"
  using nat_text_digits frac_text_digits by (auto simp: FormatFloat_def Let_def split: if_splits)

lemma FormatInt_nonempty [simp]: "FormatInt v \<noteq> []"
  by (simp add: FormatInt_def)

section \<open>Reading an integer\<close>

text \<open>
  \<open>strconv.ParseInt(s, 10, 64)\<close>: an optional sign and at least one digit.  \<open>Err\<close> carries the
  value that accompanies the error: 0 for a syntax error, the nearest limit for a range error
  (a caller that ignores the error goes on with it).
\<close>

definition ParseInt :: "string \<Rightarrow> (int, int) outcome" where
  "ParseInt s =
     (let neg = (s \<noteq> [] \<and> hd s = CHR ''-'');
          body = (if s \<noteq> [] \<and> hd s \<in> {CHR ''-'', CHR ''+''} then tl s else s);
          v = (if neg then - digits_value body else digits_value body)
      in if body = [] \<or> \<not> list_all is_digit body then Err 0
         else if v > 2 ^ 63 - 1 then Err (2 ^ 63 - 1)
         else if v < - (2 ^ 63) then Err (- (2 ^ 63))
         else Ok v)"

lemma ParseInt_FormatInt:
  assumes "- (2 ^ 63) \<le> v" "v < 2 ^ 63"
  shows "ParseInt (FormatInt v) = Ok v"
proof -
  have all: "list_all is_digit (nat_text n)" for n using nat_text_digits by (simp add: list_all_iff)
  have hd: "hd (nat_text n) \<noteq> CHR ''-''" "hd (nat_text n) \<noteq> CHR ''+''" for n
    using digit_not nat_text_digits [OF hd_in_set [OF nat_text_nonempty]] by blast+
  show ?thesis
  proof (cases "v < 0")
    case True
    then show ?thesis using assms all [of "nat (- v)"]
      by (simp add: ParseInt_def FormatInt_def Let_def nat_text_value)
  next
    case False
    then show ?thesis using assms all [of "nat v"] hd [of "nat v"]
      by (simp add: ParseInt_def FormatInt_def Let_def nat_text_value)
  qed
qed

section \<open>Splitting\<close>

text \<open>\<open>strings.Split\<close> at a separator of one byte.\<close>

fun split_on :: "char \<Rightarrow> string \<Rightarrow> string list" where
  "split_on c [] = [[]]"
| "split_on c (x # s) = (if x = c then [] # split_on c s
     else case split_on c s of [] \<Rightarrow> [[x]] | t # ts \<Rightarrow> (x # t) # ts)"

lemma split_on_append: "c \<notin> set s \<Longrightarrow> split_on c (s @ c # t) = s # split_on c t"
  by (induction s) auto

lemma split_on_none: "c \<notin> set s \<Longrightarrow> split_on c s = [s]"
  by (induction s) auto

lemma split_on_nonempty: "split_on c s \<noteq> []"
  by (induction s) (auto split: list.splits)

lemma split_on_length: "length (split_on c s) = Suc (count_list s c)"
  using split_on_nonempty by (induction s) (auto split: list.splits)

end
