(* ===== verification/Osm_Tags.thy ===== *)
theory Osm_Tags
  imports Go_Strings
begin

text \<open>
  The package \<open>internal/osm\<close>, files \<open>tags.go\<close> and \<open>infra.go\<close>: from the free text of an OSM
  way's tags to the attributes the safety model uses, and whether a cyclist may ride the way.

  A tag list is what the library's \<open>Tags.Find\<close> returns for a key: its value, or the empty
  string.  Converting a NaN to \<open>int16\<close> gives 0, as it does on the targets the repository is built
  for (amd64, arm64).
\<close>

type_synonym tags = "string \<Rightarrow> string"

datatype InfraClass = ProtectedTrack | BufferedLane | PaintedLane | SharedLane | NoFacility
  | OffStreetPath | PedestrianWay

definition InfraClass_text :: "InfraClass \<Rightarrow> string" where
  "InfraClass_text c = (case c of
     ProtectedTrack \<Rightarrow> ''protected_track''
   | BufferedLane \<Rightarrow> ''buffered_lane''
   | PaintedLane \<Rightarrow> ''painted_lane''
   | SharedLane \<Rightarrow> ''shared_lane''
   | NoFacility \<Rightarrow> ''none''
   | OffStreetPath \<Rightarrow> ''path''
   | PedestrianWay \<Rightarrow> ''pedestrian'')"

record WayAttrs =
  wHighway :: string
  wName :: string
  wInfra :: InfraClass
  wSurface :: string
  wMaxSpeedMPH :: "int option"
  wLanes :: "int option"
  wLit :: "bool option"
  wForward :: bool
  wBackward :: bool

section \<open>Values\<close>

definition isTruthy :: "string \<Rightarrow> bool" where
  "isTruthy v \<longleftrightarrow> ToLower (TrimSpace v) \<in> {''yes'', ''true'', ''1'', ''designated'', ''official''}"

definition isFalsy :: "string \<Rightarrow> bool" where
  "isFalsy v \<longleftrightarrow> ToLower (TrimSpace v) \<in> {''no'', ''false'', ''0''}"

definition parseTriBool :: "string \<Rightarrow> bool option" where
  "parseTriBool v = (if isTruthy v then Some True else if isFalsy v then Some False else None)"

text \<open>The number in a speed tag, once its unit has been cut out; in miles per hour.\<close>

definition speed_value :: "bool \<Rightarrow> float_text option \<Rightarrow> int option" where
  "speed_value isMPH r = (case r of
     None \<Rightarrow> None
   | Some NaN \<Rightarrow> Some 0
   | Some (Inf neg) \<Rightarrow> None
   | Some (Fin n) \<Rightarrow>
       if n \<le> 0 then None
       else let n = (if isMPH then n else n * (621371 / 1000000))
         in if n > 100 then None else Some (int16 (math_Round n)))"

definition general_speed :: "string \<Rightarrow> string" where
  "general_speed v =
     (if \<exists>c\<in>set v. c \<in> set '';@'' then TrimSpace (before_any '';@'' v) else v)"

definition speed_units :: "string list" where "speed_units = [''mph'', ''km/h'', ''kmh'', ''kph'']"

definition parseMaxSpeedMPH :: "string \<Rightarrow> (unit, int option) outcome" where
  "parseMaxSpeedMPH v0 =
     (let v = ToLower (TrimSpace v0)
      in if v = [] then Ok None
         else
           let v = general_speed v
           in if v \<in> {''none'', ''signals'', ''walk''} \<or> HasPrefix v ''variable'' then Ok None
              else
                let isMPH = Contains v ''mph'';
                    v = TrimSpace (remove_all speed_units 0 v)
                in case first_field (v @ '' '') of
                     None \<Rightarrow> Panic
                   | Some w \<Rightarrow> Ok (speed_value isMPH (ParseFloat w)))"

definition parseLanes :: "string \<Rightarrow> int option" where
  "parseLanes v0 =
     (let v = TrimSpace v0
      in if v = [] then None
         else
           let v = (if CHR '';'' \<in> set v then TrimSpace (before_any '';'' v) else v)
           in case ParseFloat v of
                None \<Rightarrow> None
              | Some NaN \<Rightarrow> Some 0
              | Some (Inf neg) \<Rightarrow> None
              | Some (Fin f) \<Rightarrow> if f < 0 \<or> f > 12 then None else Some (int16 (math_Round f)))"

section \<open>Directions\<close>

definition oneway_tag :: "tags \<Rightarrow> bool \<times> bool" where
  "oneway_tag tags =
     (let v = ToLower (tags ''oneway'')
      in if isTruthy v then (True, False)
         else if v = ''-1'' \<or> v = ''reverse'' then (False, True)
         else (True, True))"

definition roundabout :: "tags \<Rightarrow> bool" where
  "roundabout tags \<longleftrightarrow> tags ''junction'' = ''roundabout'' \<or> tags ''junction'' = ''circular''"

definition bicycle_override :: "tags \<Rightarrow> bool \<times> bool \<Rightarrow> bool \<times> bool" where
  "bicycle_override tags fb =
     (let v = tags ''oneway:bicycle''
      in if v = [] then fb
         else if isFalsy v then (True, True)
         else if isTruthy v then (True, False)
         else if v = ''-1'' \<or> v = ''reverse'' then (False, True)
         else fb)"

definition directions :: "tags \<Rightarrow> bool \<times> bool" where
  "directions tags =
     (let (forward, backward) = oneway_tag tags;
          backward = (if roundabout tags then False else backward);
          fb = bicycle_override tags (forward, backward)
      in if HasPrefix (tags ''cycleway'') ''opposite'' then (True, True) else fb)"

section \<open>Facilities\<close>

definition infra_rank :: "InfraClass \<Rightarrow> nat" where
  "infra_rank c = (case c of NoFacility \<Rightarrow> 0 | SharedLane \<Rightarrow> 1 | PaintedLane \<Rightarrow> 2 | BufferedLane \<Rightarrow> 3
     | ProtectedTrack \<Rightarrow> 4 | _ \<Rightarrow> 0)"

definition hasBuffer :: "string \<Rightarrow> tags \<Rightarrow> bool" where
  "hasBuffer key tags \<longleftrightarrow>
     (\<exists>suffix\<in>set ['':buffer'', '':separation''].
        let v = tags (key @ suffix) in v \<noteq> [] \<and> \<not> isFalsy v \<and> v \<noteq> ''no'') \<or>
     (\<exists>k\<in>set [''cycleway:buffer'', ''cycleway:both:buffer'', ''cycleway:separation''].
        let v = tags k in v \<noteq> [] \<and> \<not> isFalsy v)"

definition classifyCyclewayValue :: "string \<Rightarrow> string \<Rightarrow> tags \<Rightarrow> InfraClass" where
  "classifyCyclewayValue v key tags =
     (let w = ToLower (TrimSpace v)
      in if w \<in> {''track'', ''opposite_track'', ''sidepath''} then ProtectedTrack
         else if w \<in> {''lane'', ''opposite_lane'', ''opposite''} then
           if hasBuffer key tags then BufferedLane else PaintedLane
         else if w \<in> {''shared_lane'', ''share_busway'', ''opposite_share_busway''} then SharedLane
         else if w = ''separate'' then NoFacility
         else NoFacility)"

definition cycleway_keys :: "string list" where
  "cycleway_keys = [''cycleway'', ''cycleway:both'', ''cycleway:left'', ''cycleway:right'']"

definition best_step :: "tags \<Rightarrow> string \<Rightarrow> InfraClass \<Rightarrow> InfraClass" where
  "best_step tags key best =
     (let v = tags key
      in if v = [] then best
         else let c = classifyCyclewayValue v key tags in if infra_rank c > infra_rank best then c else best)"

definition ClassifyInfra :: "tags \<Rightarrow> InfraClass" where
  "ClassifyInfra tags =
     (let h = tags ''highway''
      in if h = ''cycleway'' then ProtectedTrack
         else if h \<in> {''path'', ''track''} then OffStreetPath
         else if h \<in> {''footway'', ''pedestrian'', ''bridleway''} then PedestrianWay
         else fold (best_step tags) cycleway_keys NoFacility)"

section \<open>Access\<close>

definition excludedHighways :: "string set" where
  "excludedHighways = {''motorway'', ''motorway_link'', ''proposed'', ''construction'', ''planned'',
     ''raceway'', ''bus_guideway'', ''busway'', ''elevator'', ''platform'', ''corridor'', ''steps'',
     ''rest_area'', ''services''}"

definition allowedHighways :: "string set" where
  "allowedHighways = {''cycleway'', ''path'', ''track'', ''residential'', ''living_street'',
     ''unclassified'', ''service'', ''road'', ''tertiary'', ''tertiary_link'', ''secondary'',
     ''secondary_link'', ''primary'', ''primary_link'', ''trunk'', ''trunk_link''}"

definition excludedServiceTypes :: "string set" where
  "excludedServiceTypes = {''parking_aisle'', ''driveway'', ''drive-through'', ''drive_through'',
     ''emergency_access''}"

definition permissionRequiredHighways :: "string set" where
  "permissionRequiredHighways = {''footway'', ''pedestrian'', ''bridleway''}"

definition Routable :: "tags \<Rightarrow> bool" where
  "Routable tags =
     (let highway = tags ''highway''
      in if highway = [] \<or> highway \<in> excludedHighways then False
         else
           let bicycle = ToLower (tags ''bicycle'')
           in if bicycle \<in> {''no'', ''private'', ''dismount'', ''use_sidepath''} then False
              else
                let access = ToLower (tags ''access'');
                    bikeAllowed = bicycle \<in> {''yes'', ''designated'', ''permissive'', ''destination''}
                in if access \<in> {''no'', ''private''} \<and> \<not> bikeAllowed then False
                   else if highway = ''service'' \<and> ToLower (tags ''service'') \<in> excludedServiceTypes
                   then False
                   else if highway \<in> permissionRequiredHighways then bikeAllowed
                   else if highway \<in> allowedHighways then True
                   else False)"

section \<open>Ways and nodes\<close>

definition ParseWay :: "tags \<Rightarrow> (unit, WayAttrs) outcome" where
  "ParseWay tags =
     (let (fwd, bwd) = directions tags
      in obind (parseMaxSpeedMPH (tags ''maxspeed'')) (\<lambda>speed. Ok
           \<lparr>wHighway = tags ''highway'', wName = tags ''name'', wInfra = ClassifyInfra tags,
            wSurface = ToLower (TrimSpace (tags ''surface'')), wMaxSpeedMPH = speed,
            wLanes = parseLanes (tags ''lanes''), wLit = parseTriBool (tags ''lit''),
            wForward = fwd, wBackward = bwd\<rparr>))"

definition NodeControl_of :: "tags \<Rightarrow> string" where
  "NodeControl_of tags =
     (let h = tags ''highway''
      in if h = ''traffic_signals'' then ''signal''
         else if h = ''stop'' then ''stop''
         else if h = ''give_way'' then ''yield''
         else if h = ''crossing'' then ''crossing''
         else if tags ''crossing'' \<noteq> [] \<or> tags ''footway'' = ''crossing'' then
           if isTruthy (tags ''crossing:signals'') \<or> tags ''crossing'' = ''traffic_signals''
           then ''signal'' else ''crossing''
         else ''none'')"

section \<open>Bounds\<close>

lemma round16_range:
  assumes "0 \<le> x" "x \<le> of_int b" "b \<le> 32767"
  shows "0 \<le> int16 (math_Round x) \<and> int16 (math_Round x) \<le> b"
proof -
  have "0 \<le> math_Round x" "math_Round x \<le> b"
    using math_Round_nonneg [OF assms(1)] math_Round_mono [OF assms(2)] by simp_all
  then show ?thesis using assms(3) by (simp add: wrap_s_id)
qed

lemma speed_value_range: "speed_value u r = Some n \<Longrightarrow> 0 \<le> n \<and> n \<le> 100"
  using round16_range [of _ 100]
  by (auto simp: speed_value_def Let_def not_less not_le split: option.splits float_text.splits if_splits)

lemma parseMaxSpeedMPH_range: "parseMaxSpeedMPH v = Ok (Some n) \<Longrightarrow> 0 \<le> n \<and> n \<le> 100"
  using speed_value_range by (auto simp: parseMaxSpeedMPH_def Let_def split: if_splits option.splits)

lemma parseMaxSpeedMPH_no_error: "parseMaxSpeedMPH v \<noteq> Err x"
  by (simp add: parseMaxSpeedMPH_def Let_def split: option.splits)

lemma parseLanes_range: "parseLanes v = Some n \<Longrightarrow> 0 \<le> n \<and> n \<le> 12"
  using round16_range [of _ 12]
  by (auto simp: parseLanes_def Let_def not_less split: option.splits float_text.splits if_splits)

section \<open>The best facility wins\<close>

lemma infra_rank_fold:
  "infra_rank (fold (best_step tags) ks best) = fold (\<lambda>k r. max r (if tags k = [] then 0
     else infra_rank (classifyCyclewayValue (tags k) k tags))) ks (infra_rank best)"
proof (induction ks arbitrary: best)
  case (Cons k ks)
  have "infra_rank (best_step tags k best) = max (infra_rank best) (if tags k = [] then 0
      else infra_rank (classifyCyclewayValue (tags k) k tags))"
    by (simp add: best_step_def Let_def max_def)
  then show ?case by (simp add: Cons)
qed simp

lemma fold_rank_ge: "(x::nat) \<le> fold (\<lambda>k r. max r (f k)) ks x \<and>
    (\<forall>k\<in>set ks. f k \<le> fold (\<lambda>k r. max r (f k)) ks x)"
proof (induction ks arbitrary: x)
  case (Cons k ks)
  from Cons [of "max x (f k)"] show ?case by auto
qed simp

lemma best_step_from: "fold (best_step tags) ks best = best \<or>
    (\<exists>k\<in>set ks. tags k \<noteq> [] \<and> fold (best_step tags) ks best = classifyCyclewayValue (tags k) k tags)"
proof (induction ks arbitrary: best)
  case (Cons k ks)
  show ?case using Cons [of "best_step tags k best"] by (auto simp: best_step_def Let_def)
qed simp

section \<open>Speeds as they are usually tagged\<close>

lemma dropWhile_hd: "s \<noteq> [] \<Longrightarrow> \<not> p (hd s) \<Longrightarrow> dropWhile p s = s"
  by (cases s) auto

lemma TrimSpace_id:
  assumes "s \<noteq> [] \<Longrightarrow> \<not> is_space (hd s) \<and> \<not> is_space (last s)"
  shows "TrimSpace s = s"
proof (cases s rule: rev_cases)
  case (snoc t c)
  then have "dropWhile is_space s = s" using assms by (intro dropWhile_hd) auto
  then show ?thesis using assms snoc by (simp add: TrimSpace_def TrimBoth_def)
qed (simp add: TrimSpace_def TrimBoth_def)

lemma digit_not_space: "is_digit c \<Longrightarrow> \<not> is_space c"
  by (auto simp: is_digit_def is_space_def)

lemma remove_all_digits:
  assumes "\<forall>c\<in>set ds. is_digit c"
  shows "remove_all speed_units 0 (ds @ s) = ds @ remove_all speed_units 0 s"
  using assms
proof (induction ds)
  case (Cons c ds)
  then have "c \<noteq> CHR ''m''" "c \<noteq> CHR ''k''" by (auto simp: is_digit_def)
  then have "find (\<lambda>p. p \<noteq> [] \<and> HasPrefix (c # ds @ s) p) speed_units = None"
    by (simp add: speed_units_def HasPrefix_def)
  then show ?case using Cons by simp
qed simp

lemma Contains_append: "Contains s p \<Longrightarrow> Contains (t @ s) p"
  by (induction t) auto

lemma Contains_digits:
  assumes "\<forall>c\<in>set ds. is_digit c" "p \<noteq> []" "\<not> is_digit (hd p)"
  shows "\<not> Contains ds p"
  using assms
proof (induction ds)
  case (Cons c ds)
  then have "\<not> HasPrefix (c # ds) p" by (cases p) (auto simp: HasPrefix_def)
  then show ?case using Cons by simp
qed simp

lemma parse_digits_speed:
  assumes ds: "\<forall>c\<in>set ds. is_digit c" "ds \<noteq> []"
    and sfx: "sfx \<in> {[], ''mph'', '' mph''}"
  shows "parseMaxSpeedMPH (ds @ sfx) = Ok (speed_value (sfx \<noteq> []) (finite_float False (of_int (digits_value ds))))"
proof -
  obtain d ds' where d: "ds = d # ds'" "is_digit d" using ds by (cases ds) auto
  have lastd: "is_digit (last ds)" using ds by simp
  have "\<not> is_space (last (ds @ sfx))"
    using sfx lastd digit_not_space by (auto simp: is_space_def)
  then have trim: "TrimSpace (ds @ sfx) = ds @ sfx"
    using d digit_not_space by (intro TrimSpace_id) simp
  have "ToLower sfx = sfx" using sfx by (auto simp: ToLower_def lower_char_def)
  then have low: "ToLower (ds @ sfx) = ds @ sfx" using ToLower_digits [OF ds(1)] by simp
  have "c \<notin> set '';@''" if "c \<in> set (ds @ sfx)" for c
    using that ds(1) sfx by (auto simp: is_digit_def)
  then have gen: "general_speed (ds @ sfx) = ds @ sfx" by (auto simp: general_speed_def)
  have not_word: "ds @ sfx \<notin> {''none'', ''signals'', ''walk''} \<and> \<not> HasPrefix (ds @ sfx) ''variable''"
    using d by (auto simp: HasPrefix_def is_digit_def)
  have mph: "Contains (ds @ sfx) ''mph'' = (sfx \<noteq> [])"
    using sfx Contains_append [of sfx "''mph''" ds] Contains_digits [OF ds(1), of "''mph''"]
    by (auto simp: HasPrefix_def is_digit_def)
  have trim_ds: "TrimSpace ds = ds" using d lastd digit_not_space by (intro TrimSpace_id) simp
  have trim_sp: "TrimSpace (ds @ '' '') = ds"
    using trim_ds d digit_not_space by (simp add: TrimSpace_def TrimBoth_def is_space_def)
  have "remove_all speed_units 0 sfx \<in> {[], '' ''}"
    using sfx by (auto simp: speed_units_def HasPrefix_def numeral_3_eq_3)
  then have cut: "TrimSpace (remove_all speed_units 0 (ds @ sfx)) = ds"
    unfolding remove_all_digits [OF ds(1)] using trim_ds trim_sp by auto
  have "takeWhile (\<lambda>c. \<not> is_space c) (ds @ '' '') = ds"
    using ds(1) digit_not_space by (simp add: is_space_def)
  then have field: "first_field (ds @ '' '') = Some ds"
    using d digit_not_space by (simp add: first_field_def)
  have "ParseFloat ds = finite_float False (of_int (digits_value ds))"
    using ParseFloat_plain [OF ds, of "[]" ds False] by (simp add: digits_value_def)
  then show ?thesis
    unfolding parseMaxSpeedMPH_def trim low Let_def gen mph cut field
    using not_word ds(2) by simp
qed

lemma parse_whole_speed:
  assumes n: "0 < n" "n \<le> 100" and sfx: "sfx \<in> {[], ''mph'', '' mph''}"
  shows "parseMaxSpeedMPH (FormatInt n @ sfx) = Ok (Some (if sfx = [] then math_Round (of_int n * 621371 / 1000000) else n))"
proof -
  have F: "FormatInt n = nat_text (nat n)" using n by (simp add: FormatInt_def)
  have small: "finite_float False (of_int n) = Some (Fin (of_int n))"
    using n by (simp add: finite_float_def signed_def overflow_limit_def)
  have "(0::real) \<le> of_int n * 621371 / 1000000" "of_int n * 621371 / 1000000 \<le> (of_int 100 :: real)"
    using n by simp_all
  then have k: "math_Round (of_int n * 621371 / 1000000) \<le> 100" "0 \<le> math_Round (of_int n * 621371 / 1000000)"
    using math_Round_mono math_Round_nonneg math_Round_of_int by metis+
  have "parseMaxSpeedMPH (FormatInt n @ sfx) =
      Ok (speed_value (sfx \<noteq> []) (finite_float False (of_int (digits_value (nat_text (nat n))))))"
    unfolding F by (rule parse_digits_speed [OF _ nat_text_nonempty sfx]) (simp add: nat_text_digits)
  then show ?thesis using n small k by (simp add: nat_text_value speed_value_def Let_def wrap_s_id)
qed

text \<open>A tag that is nothing but a unit leaves no field to read, and the parser panics.\<close>

lemma bare_unit_panics: "u \<in> set speed_units \<Longrightarrow> parseMaxSpeedMPH u = Panic"
proof -
  have "parseMaxSpeedMPH ''mph'' = Panic \<and> parseMaxSpeedMPH ''km/h'' = Panic \<and>
    parseMaxSpeedMPH ''kmh'' = Panic \<and> parseMaxSpeedMPH ''kph'' = Panic"
    by code_simp
  then show "u \<in> set speed_units \<Longrightarrow> parseMaxSpeedMPH u = Panic" by (auto simp: speed_units_def)
qed

end
