(* ===== verification/Osm_Build.thy ===== *)
theory Osm_Build
  imports Osm_Tags Geo Float32
begin

text \<open>
  The package \<open>internal/osm\<close>, files \<open>reader.go\<close> and \<open>build.go\<close>: the two passes over the extract
  and the construction of the directed graph, which cuts each way at its junctions.

  The extract itself is a parameter: the ways and nodes the PBF library decodes, in file order,
  whether the file opens and whether a pass ends in an error.  Of the library the model uses that
  objects for which the filter says no are skipped.
\<close>

section \<open>The two passes\<close>

record osm_way =
  way_id :: int
  way_tags :: tags
  way_nodes :: "int list"

record osm_node =
  node_id :: int
  node_loc :: LatLon
  node_tags :: tags

record 'o pass =
  objects :: "'o list"
  pass_err :: bool

record WayRecord =
  wrID :: int
  wrAttrs :: WayAttrs
  wrNodes :: "int list"

record ScanResult =
  Ways :: "WayRecord list"
  NodeUse :: "int \<Rightarrow> nat option"

record NodeData =
  ndLoc :: LatLon
  ndControl :: string

datatype osm_error = OpenExtract | ScanningWays | ScanningNodes

definition uses :: "(int \<Rightarrow> nat option) \<Rightarrow> int \<Rightarrow> nat" where
  "uses m i = (case m i of None \<Rightarrow> 0 | Some n \<Rightarrow> n)"

definition IsSplitPoint :: "ScanResult \<Rightarrow> int \<Rightarrow> bool" where
  "IsSplitPoint r i \<longleftrightarrow> uses (NodeUse r) i \<ge> 2"

definition touch :: "int \<Rightarrow> (int \<Rightarrow> nat option) \<Rightarrow> int \<Rightarrow> nat option" where
  "touch i m = (if uses m i < 2 then m(i \<mapsto> uses m i + 1) else m)"

definition scan_way :: "osm_way \<Rightarrow> ScanResult \<Rightarrow> (osm_error, ScanResult) outcome" where
  "scan_way w res =
     (if length (way_nodes w) < 2 then Ok res
      else
        let use = fold touch (way_nodes w) (NodeUse res);
            use = use(hd (way_nodes w) \<mapsto> 2, last (way_nodes w) \<mapsto> 2)
        in case ParseWay (way_tags w) of
             Ok attrs \<Rightarrow> Ok \<lparr>Ways = Ways res @ [\<lparr>wrID = way_id w, wrAttrs = attrs, wrNodes = way_nodes w\<rparr>],
                            NodeUse = use\<rparr>
           | _ \<Rightarrow> Panic)"

definition ScanWays :: "osm_way pass option \<Rightarrow> (osm_error, ScanResult) outcome" where
  "ScanWays file = (case file of None \<Rightarrow> Err OpenExtract | Some p \<Rightarrow>
     obind (foldM scan_way (filter (\<lambda>w. Routable (way_tags w)) (objects p))
              \<lparr>Ways = [], NodeUse = Map.empty\<rparr>)
       (\<lambda>res. if pass_err p then Err ScanningWays else Ok res))"

definition scan_node :: "ScanResult \<Rightarrow> osm_node \<Rightarrow> (int \<Rightarrow> NodeData option) \<Rightarrow> int \<Rightarrow> NodeData option" where
  "scan_node res n out = out(node_id n \<mapsto> \<lparr>ndLoc = node_loc n,
     ndControl = (if IsSplitPoint res (node_id n) then NodeControl_of (node_tags n) else [])\<rparr>)"

definition ScanNodes :: "osm_node pass option \<Rightarrow> ScanResult \<Rightarrow>
    (osm_error, int \<Rightarrow> NodeData option) outcome" where
  "ScanNodes file res = (case file of None \<Rightarrow> Err OpenExtract | Some p \<Rightarrow>
     let out = fold (scan_node res) (filter (\<lambda>n. NodeUse res (node_id n) \<noteq> None) (objects p)) Map.empty
     in if pass_err p then Err ScanningNodes else Ok out)"

section \<open>Building the graph\<close>

record Edge =
  eID :: int
  eWayID :: int
  eFromNode :: int
  eToNode :: int
  eShape :: "LatLon list"
  eLengthM :: real
  eAttrs :: WayAttrs
  eBearingStart :: real
  eBearingEnd :: real

record Node =
  nID :: int
  nOSMID :: int
  nLoc :: LatLon
  nControl :: string

text \<open>The graph under construction, with the map from OSM ids to dense ids that \<open>Build\<close> keeps.\<close>

record BuiltGraph =
  Nodes :: "Node list"
  Edges :: "Edge list"
  SkippedMissingCoords :: nat
  SkippedDegenerate :: nat
  denseID :: "int \<Rightarrow> int option"

definition control_or_none :: "string \<Rightarrow> string" where
  "control_or_none c = (if c = [] then ''none'' else c)"

definition intern :: "(int \<Rightarrow> NodeData option) \<Rightarrow> int \<Rightarrow> BuiltGraph \<Rightarrow> BuiltGraph \<times> int option" where
  "intern nodes osmID g =
     (case denseID g osmID of
        Some i \<Rightarrow> (g, Some i)
      | None \<Rightarrow> (case nodes osmID of
          None \<Rightarrow> (g, None)
        | Some d \<Rightarrow>
            let i = int (length (Nodes g))
            in (g\<lparr>denseID := (denseID g)(osmID \<mapsto> i),
                 Nodes := Nodes g @ [\<lparr>nID = i, nOSMID = osmID, nLoc = ndLoc d,
                   nControl = control_or_none (ndControl d)\<rparr>]\<rparr>, Some i)))"

definition endBearings :: "LatLon list \<Rightarrow> real \<times> real" where
  "endBearings shape =
     ((case find (\<lambda>p. p \<noteq> hd shape) (tl shape) of
         None \<Rightarrow> 0 | Some p \<Rightarrow> f32 (BearingDeg (hd shape) p)),
      (case find (\<lambda>p. p \<noteq> last shape) (rev (butlast shape)) of
         None \<Rightarrow> 0 | Some p \<Rightarrow> f32 (BearingDeg p (last shape))))"

fun shape_of :: "(int \<Rightarrow> NodeData option) \<Rightarrow> int list \<Rightarrow> LatLon list option" where
  "shape_of nodes [] = Some []"
| "shape_of nodes (i # is) = (case nodes i of
     None \<Rightarrow> None
   | Some d \<Rightarrow> (case shape_of nodes is of None \<Rightarrow> None | Some ps \<Rightarrow> Some (ndLoc d # ps)))"

definition polyline_length :: "LatLon list \<Rightarrow> real" where
  "polyline_length shape =
     fold (\<lambda>i length_m. length_m + DistanceM (shape ! (i - 1)) (shape ! i)) [1..<length shape] 0"

definition add_edge :: "WayRecord \<Rightarrow> int \<Rightarrow> int \<Rightarrow> LatLon list \<Rightarrow> real \<Rightarrow> BuiltGraph \<Rightarrow> BuiltGraph" where
  "add_edge w from_id to_id shape length_m g =
     (let (start, fin) = endBearings shape
      in g\<lparr>Edges := Edges g @ [\<lparr>eID = int (length (Edges g)), eWayID = wrID w, eFromNode = from_id,
           eToNode = to_id, eShape = shape, eLengthM = length_m, eAttrs = wrAttrs w,
           eBearingStart = start, eBearingEnd = fin\<rparr>]\<rparr>)"

definition addSegment :: "(int \<Rightarrow> NodeData option) \<Rightarrow> WayRecord \<Rightarrow> int list \<Rightarrow> BuiltGraph \<Rightarrow> BuiltGraph" where
  "addSegment nodes w ids g =
     (if length ids < 2 then g
      else if hd ids = last ids then g\<lparr>SkippedDegenerate := SkippedDegenerate g + 1\<rparr>
      else case shape_of nodes ids of
        None \<Rightarrow> g\<lparr>SkippedMissingCoords := SkippedMissingCoords g + 1\<rparr>
      | Some shape \<Rightarrow>
          let length_m = polyline_length shape
          in if length_m \<le> 0 then g\<lparr>SkippedDegenerate := SkippedDegenerate g + 1\<rparr>
             else
               let (g1, frm) = intern nodes (hd ids) g;
                   (g2, to) = intern nodes (last ids) g1
               in case (frm, to) of
                    (Some f, Some t) \<Rightarrow>
                      let g3 = (if wForward (wrAttrs w) then add_edge w f t shape length_m g2 else g2)
                      in if wBackward (wrAttrs w) then add_edge w t f (rev shape) length_m g3 else g3
                  | _ \<Rightarrow> g2\<lparr>SkippedMissingCoords := SkippedMissingCoords g2 + 1\<rparr>)"

definition cut_step :: "ScanResult \<Rightarrow> (int \<Rightarrow> NodeData option) \<Rightarrow> WayRecord \<Rightarrow> nat \<Rightarrow>
    nat \<times> BuiltGraph \<Rightarrow> nat \<times> BuiltGraph" where
  "cut_step res nodes w i sg =
     (let (start, g) = sg; ns = wrNodes w; isLast = (i = length ns - 1)
      in if \<not> IsSplitPoint res (ns ! i) \<and> \<not> isLast then (start, g)
         else (i, addSegment nodes w (take (i + 1 - start) (drop start ns)) g))"

definition empty_built :: BuiltGraph where
  "empty_built = \<lparr>Nodes = [], Edges = [], SkippedMissingCoords = 0, SkippedDegenerate = 0,
     denseID = Map.empty\<rparr>"

definition Build :: "ScanResult \<Rightarrow> (int \<Rightarrow> NodeData option) \<Rightarrow> BuiltGraph" where
  "Build res nodes =
     fold (\<lambda>w g. snd (fold (cut_step res nodes w) [1..<length (wrNodes w)] (0, g))) (Ways res) empty_built"

section \<open>Cutting a way\<close>

text \<open>
  The reference: the segments of a way, each ending at the first split point after its start, or
  at the end of the way.
\<close>

fun segments :: "(int \<Rightarrow> bool) \<Rightarrow> int list \<Rightarrow> int list \<Rightarrow> int list list" where
  "segments split acc [] = []"
| "segments split acc [n] = [acc @ [n]]"
| "segments split acc (n # m # ns) =
     (if split n then (acc @ [n]) # segments split [n] (m # ns) else segments split (acc @ [n]) (m # ns))"

definition way_segments :: "(int \<Rightarrow> bool) \<Rightarrow> int list \<Rightarrow> int list list" where
  "way_segments split ns = (case ns of [] \<Rightarrow> [] | n # rest \<Rightarrow> segments split [n] rest)"

lemma cut_loop_from:
  assumes "start < i" "i \<le> length ns" "ns = wrNodes w"
  shows "snd (fold (cut_step res nodes w) [i..<length ns] (start, g)) =
    fold (addSegment nodes w) (segments (IsSplitPoint res) (take (i - start) (drop start ns)) (drop i ns)) g"
  using assms
proof (induction "length ns - i" arbitrary: i start g)
  case 0
  then show ?case by simp
next
  case (Suc k)
  then have i: "i < length ns" by simp
  then obtain rest where d: "drop i ns = ns ! i # rest" "rest = drop (Suc i) ns"
    by (simp add: Cons_nth_drop_Suc)
  have up: "[i..<length ns] = i # [Suc i..<length ns]" using i by (rule upt_conv_Cons)
  have seg: "take (i + 1 - start) (drop start ns) = take (i - start) (drop start ns) @ [ns ! i]"
    using Suc.prems i by (simp add: Suc_diff_le take_Suc_conv_app_nth)
  have IH: "start' < Suc i \<Longrightarrow> snd (fold (cut_step res nodes w) [Suc i..<length ns] (start', g')) =
    fold (addSegment nodes w) (segments (IsSplitPoint res) (take (Suc i - start') (drop start' ns)) rest) g'"
    for start' g' using Suc.hyps(1) [of "Suc i" start' g'] Suc.hyps(2) Suc.prems(3) i d(2) by simp
  show ?case
  proof (cases rest)
    case Nil
    then have "i = length ns - 1" using d(2) i by simp
    then have "cut_step res nodes w i (start, g) = (i, addSegment nodes w (take (i + 1 - start) (drop start ns)) g)"
      using Suc.prems(3) by (simp add: cut_step_def Let_def)
    then show ?thesis using IH [of i] Nil seg by (simp add: up d(1))
  next
    case (Cons m ns')
    then have "0 < length ns - Suc i" using arg_cong [OF d(2), of length] by simp
    then have nl: "i \<noteq> length ns - 1" by linarith
    have one: "take (Suc i - i) (drop i ns) = [ns ! i]" by (simp add: d(1))
    have "take (Suc i - start) (drop start ns) = take (i - start) (drop start ns) @ [ns ! i]" using seg by simp
    then show ?thesis
      using IH [of i] IH [of start] Cons seg nl Suc.prems(1) one
      by (simp add: up d(1) cut_step_def Let_def Suc.prems(3) [symmetric])
  qed
qed

lemma cut_loop:
  "snd (fold (cut_step res nodes w) [1..<length (wrNodes w)] (0, g)) =
   fold (addSegment nodes w) (way_segments (IsSplitPoint res) (wrNodes w)) g"
proof (cases "wrNodes w")
  case (Cons n rest)
  then show ?thesis using cut_loop_from [of 0 1 "wrNodes w" w res nodes g] by (simp add: way_segments_def)
qed (simp add: way_segments_def)

text \<open>The segments are the way: they join up, and are cut exactly at split points.\<close>

fun rejoin :: "int list list \<Rightarrow> int list" where
  "rejoin [] = []"
| "rejoin [s] = s"
| "rejoin (s # ss) = s @ tl (rejoin ss)"

lemma segments_rejoin:
  "ns \<noteq> [] \<Longrightarrow> rejoin (segments split acc ns) = acc @ ns \<and> segments split acc ns \<noteq> []"
proof (induction split acc ns rule: segments.induct)
  case (3 split acc n m ns)
  show ?case
  proof (cases "split n")
    case True
    then have IH: "rejoin (segments split [n] (m # ns)) = n # m # ns" "segments split [n] (m # ns) \<noteq> []"
      using "3.IH"(1) by simp_all
    then obtain s ss where ss: "segments split [n] (m # ns) = s # ss" by (cases "segments split [n] (m # ns)") auto
    have "rejoin ((acc @ [n]) # s # ss) = acc @ [n] @ tl (rejoin (s # ss))" by simp
    then show ?thesis using True IH(1) unfolding ss by (simp add: ss)
  next
    case False
    then show ?thesis using "3.IH"(2) by simp
  qed
qed simp_all

lemma segments_interior:
  "s \<in> set (segments split acc ns) \<Longrightarrow> \<forall>x\<in>set (tl acc). \<not> split x \<Longrightarrow> acc \<noteq> [] \<Longrightarrow>
   2 \<le> length s \<and> (\<forall>x\<in>set (butlast (tl s)). \<not> split x)"
proof (induction split acc ns rule: segments.induct)
  case (2 split acc n)
  then show ?case by (cases acc) (auto simp: butlast_append)
next
  case (3 split acc n m ns)
  show ?case
  proof (cases "split n")
    case True
    obtain a t where acc: "acc = a # t" using "3.prems"(3) by (cases acc) auto
    have "s = acc @ [n] \<or> s \<in> set (segments split [n] (m # ns))" using "3.prems"(1) True by simp
    then show ?thesis
    proof
      assume "s = acc @ [n]"
      then show ?thesis using "3.prems"(2) acc by simp
    next
      assume "s \<in> set (segments split [n] (m # ns))"
      then show ?thesis using "3.IH"(1) [OF True] by simp
    qed
  next
    case False
    have "s \<in> set (segments split (acc @ [n]) (m # ns))" using "3.prems"(1) False by simp
    then show ?thesis using "3.IH"(2) [OF False] "3.prems"(2,3) False by simp
  qed
qed simp

lemma segments_cut:
  "ns \<noteq> [] \<Longrightarrow> s \<in> set (butlast (segments split acc ns)) \<Longrightarrow> split (last s)"
proof (induction split acc ns rule: segments.induct)
  case (3 split acc n m ns)
  show ?case
  proof (cases "split n")
    case True
    then show ?thesis using 3 segments_rejoin [of "m # ns" split "[n]"] by auto
  next
    case False
    then show ?thesis using 3 by simp
  qed
qed simp_all

lemma way_segments_rejoin: "2 \<le> length ns \<Longrightarrow> rejoin (way_segments split ns) = ns"
  using segments_rejoin by (cases ns; cases "tl ns") (auto simp: way_segments_def)

lemma way_segments_cuts:
  assumes "s \<in> set (way_segments split ns)"
  shows "2 \<le> length s \<and> (\<forall>x\<in>set (butlast (tl s)). \<not> split x)"
proof (cases ns)
  case (Cons n rest)
  then show ?thesis using assms segments_interior [of s split "[n]" rest] by (simp add: way_segments_def)
qed (use assms in \<open>simp add: way_segments_def\<close>)

lemma Build_segments:
  "Build res nodes = fold (\<lambda>w. fold (addSegment nodes w) (way_segments (IsSplitPoint res) (wrNodes w)))
     (Ways res) empty_built"
  unfolding Build_def cut_loop by simp

end
