(* ===== verification/Osm_Graph.thy ===== *)
theory Osm_Graph
  imports Osm_Build
begin

text \<open>
  What \<open>Build\<close> builds: dense node ids in the order of first use, one node per junction, and for
  every segment of every way exactly the edges its directions call for, with the segment's shape
  and length.  An edge is never shorter than the straight line between its ends, which is what the
  router's heuristic relies on.
\<close>

section \<open>Lengths\<close>

lemma polyline_length_sum:
  "polyline_length s = (\<Sum>i<length s - 1. DistanceM (s ! i) (s ! Suc i))"
proof -
  have "polyline_length s = sum_list (map (\<lambda>i. DistanceM (s ! (i - 1)) (s ! i)) [1..<length s])"
    unfolding polyline_length_def by (subst fold_add_sum_list) simp
  also have "\<dots> = (\<Sum>i = 1..<length s. DistanceM (s ! (i - 1)) (s ! i))"
    by (simp add: sum_list_distinct_conv_sum_set)
  also have "\<dots> = (\<Sum>i<length s - 1. DistanceM (s ! i) (s ! Suc i))"
    by (rule sum.reindex_bij_witness [of _ Suc "\<lambda>i. i - 1"]) auto
  finally show ?thesis .
qed

lemma polyline_length_rev: "polyline_length (rev s) = polyline_length s"
proof -
  let ?n = "length s - 1"
  have "polyline_length (rev s) = (\<Sum>i<?n. DistanceM (rev s ! i) (rev s ! Suc i))"
    by (simp add: polyline_length_sum)
  also have "\<dots> = (\<Sum>i<?n. DistanceM (s ! (?n - Suc i)) (s ! Suc (?n - Suc i)))"
  proof (rule sum.cong [OF refl])
    fix i
    assume "i \<in> {..<?n}"
    then have "i < ?n" by simp
    then have "rev s ! i = s ! (?n - i)" "rev s ! Suc i = s ! (?n - Suc i)" "Suc (?n - Suc i) = ?n - i"
      by (simp_all add: rev_nth)
    then show "DistanceM (rev s ! i) (rev s ! Suc i) = DistanceM (s ! (?n - Suc i)) (s ! Suc (?n - Suc i))"
      using great_circle.d_sym by simp
  qed
  also have "\<dots> = (\<Sum>i<?n. DistanceM (s ! i) (s ! Suc i))" by (rule sum.nat_diff_reindex)
  finally show ?thesis by (simp add: polyline_length_sum)
qed

lemma straight_line_le: "s \<noteq> [] \<Longrightarrow> DistanceM (hd s) (last s) \<le> polyline_length s"
  using great_circle.polyline_ge by (simp add: polyline_length_sum)

lemma shape_of_Some:
  "shape_of nodes is = Some ps \<Longrightarrow> length ps = length is \<and>
     (is \<noteq> [] \<longrightarrow> (\<exists>d. nodes (hd is) = Some d \<and> hd ps = ndLoc d) \<and>
                 (\<exists>d. nodes (last is) = Some d \<and> last ps = ndLoc d))"
proof (induction "is" arbitrary: ps)
  case (Cons i "is")
  then obtain d qs where d: "nodes i = Some d" "shape_of nodes is = Some qs" "ps = ndLoc d # qs"
    by (auto split: option.splits)
  from Cons.IH [OF d(2)] d show ?case by (cases "is") auto
qed simp

section \<open>The invariant\<close>

definition node_at :: "BuiltGraph \<Rightarrow> int \<Rightarrow> Node" where
  "node_at g i = Nodes g ! nat i"

definition has_node :: "BuiltGraph \<Rightarrow> int \<Rightarrow> bool" where
  "has_node g i \<longleftrightarrow> 0 \<le> i \<and> i < int (length (Nodes g))"

definition nodes_ok :: "(int \<Rightarrow> NodeData option) \<Rightarrow> BuiltGraph \<Rightarrow> bool" where
  "nodes_ok nodes g \<longleftrightarrow>
     (\<forall>i<length (Nodes g). nID (Nodes g ! i) = int i \<and>
        (\<exists>d. nodes (nOSMID (Nodes g ! i)) = Some d \<and> nLoc (Nodes g ! i) = ndLoc d \<and>
             nControl (Nodes g ! i) = control_or_none (ndControl d))) \<and>
     (\<forall>k i. denseID g k = Some i \<longleftrightarrow> has_node g i \<and> nOSMID (node_at g i) = k)"

definition edge_ok :: "BuiltGraph \<Rightarrow> Edge \<Rightarrow> bool" where
  "edge_ok g e \<longleftrightarrow> has_node g (eFromNode e) \<and> has_node g (eToNode e) \<and> eFromNode e \<noteq> eToNode e \<and>
     2 \<le> length (eShape e) \<and> hd (eShape e) = nLoc (node_at g (eFromNode e)) \<and>
     last (eShape e) = nLoc (node_at g (eToNode e)) \<and>
     eLengthM e = polyline_length (eShape e) \<and> 0 < eLengthM e"

definition built_ok :: "(int \<Rightarrow> NodeData option) \<Rightarrow> BuiltGraph \<Rightarrow> bool" where
  "built_ok nodes g \<longleftrightarrow> nodes_ok nodes g \<and>
     (\<forall>k<length (Edges g). eID (Edges g ! k) = int k \<and> edge_ok g (Edges g ! k))"

lemma dense_iff: "nodes_ok nodes g \<Longrightarrow> denseID g k = Some i \<longleftrightarrow> has_node g i \<and> nOSMID (node_at g i) = k"
  by (simp add: nodes_ok_def)

text \<open>Nodes are only ever appended, so what holds of a node goes on holding.\<close>

definition extends :: "BuiltGraph \<Rightarrow> BuiltGraph \<Rightarrow> bool" where
  "extends g h \<longleftrightarrow> (\<exists>ns. Nodes h = Nodes g @ ns)"

lemma extends_refl [simp]: "extends g g"
  by (simp add: extends_def)

lemma extends_trans: "extends g h \<Longrightarrow> extends h k \<Longrightarrow> extends g k"
  by (auto simp: extends_def)

lemma extends_node: "extends g h \<Longrightarrow> has_node g i \<Longrightarrow> has_node h i \<and> node_at h i = node_at g i"
  by (auto simp: extends_def has_node_def node_at_def nth_append)

lemma edge_ok_extends: "extends g h \<Longrightarrow> edge_ok g e \<Longrightarrow> edge_ok h e"
  using extends_node by (auto simp: edge_ok_def)

lemma intern_spec:
  assumes ok: "nodes_ok nodes g" and d: "nodes k = Some d"
  shows "\<exists>h i. intern nodes k g = (h, Some i) \<and> nodes_ok nodes h \<and> extends g h \<and> Edges h = Edges g \<and>
    has_node h i \<and> nOSMID (node_at h i) = k \<and> nLoc (node_at h i) = ndLoc d"
proof (cases "denseID g k")
  case (Some i)
  then have i: "has_node g i" "nOSMID (node_at g i) = k" using ok by (simp_all add: nodes_ok_def)
  then have "nat i < length (Nodes g)" by (auto simp: has_node_def)
  then have "nLoc (node_at g i) = ndLoc d"
    using ok i(2) d by (auto simp: nodes_ok_def node_at_def)
  with Some i ok show ?thesis by (simp add: intern_def)
next
  case None
  let ?i = "int (length (Nodes g))"
  let ?n = "\<lparr>nID = ?i, nOSMID = k, nLoc = ndLoc d, nControl = control_or_none (ndControl d)\<rparr>"
  let ?h = "g\<lparr>denseID := (denseID g)(k \<mapsto> ?i), Nodes := Nodes g @ [?n]\<rparr>"
  have new: "nOSMID (node_at g j) \<noteq> k" if "has_node g j" for j
    using None dense_iff [OF ok, of "nOSMID (node_at g j)" j] that by auto
  have has: "has_node ?h j \<longleftrightarrow> has_node g j \<or> j = ?i" for j by (auto simp: has_node_def)
  have at: "node_at ?h j = (if j = ?i then ?n else node_at g j)" if "has_node ?h j" for j
    using that by (auto simp: has_node_def node_at_def nth_append)
  have "(denseID ?h k' = Some j) = (has_node ?h j \<and> nOSMID (node_at ?h j) = k')" for k' j
  proof (cases "j = ?i")
    case True
    then show ?thesis using ok at [of ?i] has [of ?i] by (auto simp: nodes_ok_def has_node_def)
  next
    case False
    then show ?thesis using ok at [of j] has [of j] new [of j] None by (auto simp: nodes_ok_def)
  qed
  moreover have "nID (Nodes ?h ! j) = int j \<and> (\<exists>d. nodes (nOSMID (Nodes ?h ! j)) = Some d \<and>
      nLoc (Nodes ?h ! j) = ndLoc d \<and> nControl (Nodes ?h ! j) = control_or_none (ndControl d))"
    if "j < length (Nodes ?h)" for j
    using that ok d by (auto simp: nodes_ok_def nth_append less_Suc_eq)
  ultimately have "nodes_ok nodes ?h" unfolding nodes_ok_def by blast
  moreover have "intern nodes k g = (?h, Some ?i)" using None d by (simp add: intern_def Let_def)
  moreover have "extends g ?h" by (simp add: extends_def)
  ultimately show ?thesis using at [of ?i] has [of ?i] by (intro exI [of _ ?h] exI [of _ ?i]) simp
qed

section \<open>Segments and edges\<close>

text \<open>The edges a segment calls for, with their ends as OSM ids.\<close>

definition segment_edges :: "(int \<Rightarrow> NodeData option) \<Rightarrow> WayRecord \<Rightarrow> int list \<Rightarrow>
    (int \<times> int \<times> int \<times> LatLon list \<times> WayAttrs) list" where
  "segment_edges nodes w ids =
     (if hd ids = last ids then []
      else case shape_of nodes ids of None \<Rightarrow> []
      | Some shape \<Rightarrow>
          if polyline_length shape \<le> 0 then []
          else (if wForward (wrAttrs w) then [(wrID w, hd ids, last ids, shape, wrAttrs w)] else []) @
               (if wBackward (wrAttrs w) then [(wrID w, last ids, hd ids, rev shape, wrAttrs w)] else []))"

definition edge_core :: "BuiltGraph \<Rightarrow> Edge \<Rightarrow> int \<times> int \<times> int \<times> LatLon list \<times> WayAttrs" where
  "edge_core g e = (eWayID e, nOSMID (node_at g (eFromNode e)), nOSMID (node_at g (eToNode e)), eShape e, eAttrs e)"

lemma cores_extends:
  "extends g h \<Longrightarrow> \<forall>e\<in>set es. edge_ok g e \<Longrightarrow> map (edge_core h) es = map (edge_core g) es"
  using extends_node by (auto simp: edge_core_def edge_ok_def)

lemma built_ok_edges: "built_ok nodes g \<Longrightarrow> \<forall>e\<in>set (Edges g). edge_ok g e"
  by (auto simp: built_ok_def in_set_conv_nth)

lemma add_edge_simps [simp]:
  "Nodes (add_edge w f t s l g) = Nodes g" "denseID (add_edge w f t s l g) = denseID g"
  by (simp_all add: add_edge_def split: prod.splits)

lemma edge_ok_same_nodes: "Nodes h = Nodes g \<Longrightarrow> edge_ok h e = edge_ok g e"
  by (simp add: edge_ok_def has_node_def node_at_def)

lemma add_edge_spec:
  assumes ok: "built_ok nodes g" and f: "has_node g f" "has_node g t" "f \<noteq> t"
    and s: "2 \<le> length s" "hd s = nLoc (node_at g f)" "last s = nLoc (node_at g t)"
    and l: "l = polyline_length s" "0 < l"
  shows "built_ok nodes (add_edge w f t s l g)"
    and "map (edge_core g) (Edges (add_edge w f t s l g)) = map (edge_core g) (Edges g) @
      [(wrID w, nOSMID (node_at g f), nOSMID (node_at g t), s, wrAttrs w)]"
proof -
  obtain a b where ab: "endBearings s = (a, b)" by fastforce
  let ?e = "\<lparr>eID = int (length (Edges g)), eWayID = wrID w, eFromNode = f, eToNode = t, eShape = s,
    eLengthM = l, eAttrs = wrAttrs w, eBearingStart = a, eBearingEnd = b\<rparr>"
  have E: "Edges (add_edge w f t s l g) = Edges g @ [?e]" by (simp add: add_edge_def ab)
  let ?h = "add_edge w f t s l g"
  have e: "edge_ok g ?e" using f s l by (simp add: edge_ok_def)
  have same: "edge_ok ?h x = edge_ok g x" for x by (rule edge_ok_same_nodes) simp
  have "eID (Edges ?h ! k) = int k \<and> edge_ok ?h (Edges ?h ! k)" if "k < length (Edges ?h)" for k
  proof (cases "k < length (Edges g)")
    case True
    then show ?thesis using ok unfolding same by (simp add: E nth_append built_ok_def)
  next
    case False
    then have "k = length (Edges g)" using that by (simp add: E)
    then show ?thesis using e unfolding same by (simp add: E)
  qed
  moreover have "nodes_ok nodes ?h = nodes_ok nodes g"
    by (simp add: nodes_ok_def has_node_def node_at_def)
  ultimately show "built_ok nodes ?h" using ok by (simp add: built_ok_def)
  show "map (edge_core g) (Edges (add_edge w f t s l g)) = map (edge_core g) (Edges g) @
      [(wrID w, nOSMID (node_at g f), nOSMID (node_at g t), s, wrAttrs w)]"
    unfolding E by (simp add: edge_core_def)
qed

lemma edge_core_same_nodes: "Nodes h = Nodes g \<Longrightarrow> edge_core h = edge_core g"
  by (simp add: edge_core_def node_at_def fun_eq_iff)

lemma skip_ok [simp]:
  "built_ok nodes (g\<lparr>SkippedDegenerate := k\<rparr>) = built_ok nodes g"
  "built_ok nodes (g\<lparr>SkippedMissingCoords := k\<rparr>) = built_ok nodes g"
  "edge_core (g\<lparr>SkippedDegenerate := k\<rparr>) = edge_core g"
  "edge_core (g\<lparr>SkippedMissingCoords := k\<rparr>) = edge_core g"
  by (simp_all add: built_ok_def nodes_ok_def has_node_def node_at_def edge_ok_def edge_core_def fun_eq_iff)

definition grows :: "(int \<Rightarrow> NodeData option) \<Rightarrow> (int \<times> int \<times> int \<times> LatLon list \<times> WayAttrs) list \<Rightarrow>
    BuiltGraph \<Rightarrow> BuiltGraph \<Rightarrow> bool" where
  "grows nodes es g h \<longleftrightarrow> built_ok nodes h \<and> extends g h \<and>
     map (edge_core h) (Edges h) = map (edge_core g) (Edges g) @ es"

lemma grows_add_edge:
  assumes "built_ok nodes g" "has_node g f" "has_node g t" "f \<noteq> t"
    "2 \<le> length s" "hd s = nLoc (node_at g f)" "last s = nLoc (node_at g t)" "0 < polyline_length s"
  shows "grows nodes [(wrID w, nOSMID (node_at g f), nOSMID (node_at g t), s, wrAttrs w)] g
    (add_edge w f t s (polyline_length s) g)"
proof -
  let ?h = "add_edge w f t s (polyline_length s) g"
  have "edge_core ?h = edge_core g" by (rule edge_core_same_nodes) simp
  moreover have "extends g ?h" by (simp add: extends_def)
  ultimately show ?thesis
    using add_edge_spec [OF assms(1-7) refl assms(8)] by (simp add: grows_def)
qed

lemma grows_trans: "grows nodes es g h \<Longrightarrow> grows nodes fs h k \<Longrightarrow> grows nodes (es @ fs) g k"
  using extends_trans by (auto simp: grows_def)

lemma grows_refl: "built_ok nodes g \<Longrightarrow> grows nodes [] g g"
  by (simp add: grows_def)

lemma addSegment_grows:
  assumes ok: "built_ok nodes g" and len: "2 \<le> length ids"
  shows "grows nodes (segment_edges nodes w ids) g (addSegment nodes w ids g)"
proof (cases "hd ids = last ids")
  case True
  then show ?thesis using ok len by (simp add: addSegment_def segment_edges_def grows_def extends_def)
next
  case ends: False
  show ?thesis
  proof (cases "shape_of nodes ids")
    case None
    then show ?thesis using ok len ends by (simp add: addSegment_def segment_edges_def grows_def extends_def)
  next
    case (Some shape)
    note sh = shape_of_Some [OF Some]
    let ?l = "polyline_length shape"
    show ?thesis
    proof (cases "?l \<le> 0")
      case True
      then show ?thesis
        using Some ok len ends by (simp add: addSegment_def segment_edges_def grows_def extends_def Let_def)
    next
      case False
      have ne: "ids \<noteq> []" using len by auto
      then obtain d1 d2 where d: "nodes (hd ids) = Some d1" "hd shape = ndLoc d1"
        "nodes (last ids) = Some d2" "last shape = ndLoc d2" using sh by blast
      have nok: "nodes_ok nodes g" using ok by (simp add: built_ok_def)
      from intern_spec [OF nok d(1)] obtain g1 f where g1: "intern nodes (hd ids) g = (g1, Some f)"
        "nodes_ok nodes g1" "extends g g1" "Edges g1 = Edges g" "has_node g1 f"
        "nOSMID (node_at g1 f) = hd ids" "nLoc (node_at g1 f) = ndLoc d1" by blast
      from intern_spec [OF g1(2) d(3)] obtain g2 t where g2: "intern nodes (last ids) g1 = (g2, Some t)"
        "nodes_ok nodes g2" "extends g1 g2" "Edges g2 = Edges g1" "has_node g2 t"
        "nOSMID (node_at g2 t) = last ids" "nLoc (node_at g2 t) = ndLoc d2" by blast
      have f2: "has_node g2 f" "nOSMID (node_at g2 f) = hd ids" "nLoc (node_at g2 f) = ndLoc d1"
        using extends_node [OF g2(3) g1(5)] g1 by auto
      have ft: "f \<noteq> t" using f2 g2 ends by auto
      have ext: "extends g g2" using g1(3) g2(3) extends_trans by blast
      have es: "Edges g2 = Edges g" using g1 g2 by simp
      have ok2: "built_ok nodes g2"
        using ok g2(2) edge_ok_extends [OF ext] by (simp add: built_ok_def es)
      have start: "grows nodes [] g g2"
        using ok2 ext cores_extends [OF ext built_ok_edges [OF ok]] by (simp add: grows_def es)
      define g3 where "g3 = (if wForward (wrAttrs w) then add_edge w f t shape ?l g2 else g2)"
      define fw where "fw = (if wForward (wrAttrs w) then [(wrID w, hd ids, last ids, shape, wrAttrs w)] else [])"
      have slen: "2 \<le> length shape" "shape \<noteq> []" using sh len by auto
      have s3: "grows nodes fw g2 g3"
        using grows_add_edge [OF ok2 f2(1) g2(5) ft slen(1)] d f2 g2 False grows_refl [OF ok2]
        by (simp add: g3_def fw_def)
      then have ok3: "built_ok nodes g3" by (simp add: grows_def)
      have same: "Nodes g3 = Nodes g2" by (simp add: g3_def)
      then have at: "has_node g3 = has_node g2" "node_at g3 = node_at g2"
        by (simp_all add: has_node_def node_at_def fun_eq_iff)
      define g4 where "g4 = (if wBackward (wrAttrs w) then add_edge w t f (rev shape) ?l g3 else g3)"
      define bw where "bw = (if wBackward (wrAttrs w) then [(wrID w, last ids, hd ids, rev shape, wrAttrs w)] else [])"
      have "grows nodes bw g3 g4"
        using grows_add_edge [OF ok3, of t f "rev shape" w] ft slen d f2 g2 False grows_refl [OF ok3]
        by (simp add: g4_def bw_def at polyline_length_rev hd_rev last_rev)
      then have "grows nodes (fw @ bw) g g4" using grows_trans [OF start grows_trans [OF s3]] by simp
      moreover have "addSegment nodes w ids g = g4"
        using len ends Some False by (simp add: addSegment_def Let_def g1 g2 g3_def g4_def)
      moreover have "segment_edges nodes w ids = fw @ bw"
        using ends Some False by (simp add: segment_edges_def fw_def bw_def)
      ultimately show ?thesis by simp
    qed
  qed
qed

text \<open>All segments of all ways, in the order they are met.\<close>

definition all_segments :: "ScanResult \<Rightarrow> (WayRecord \<times> int list) list" where
  "all_segments res = concat (map (\<lambda>w. map (Pair w) (way_segments (IsSplitPoint res) (wrNodes w))) (Ways res))"

lemma Build_all_segments:
  "Build res nodes = fold (\<lambda>(w, s). addSegment nodes w s) (all_segments res) empty_built"
proof -
  have "fold (\<lambda>w. fold (addSegment nodes w) (f w)) ws g =
      fold (\<lambda>(w, s). addSegment nodes w s) (concat (map (\<lambda>w. map (Pair w) (f w)) ws)) g" for ws g f
    by (induction ws arbitrary: g) (simp_all add: fold_map comp_def)
  then show ?thesis by (simp add: Build_segments all_segments_def)
qed

lemma all_segments_length: "(w, s) \<in> set (all_segments res) \<Longrightarrow> 2 \<le> length s"
  using way_segments_cuts by (auto simp: all_segments_def)

lemma empty_built_ok: "built_ok nodes empty_built"
  by (simp add: built_ok_def nodes_ok_def empty_built_def has_node_def)

lemma Build_ok:
  "built_ok nodes (Build res nodes) \<and>
   map (edge_core (Build res nodes)) (Edges (Build res nodes)) =
     concat (map (\<lambda>(w, s). segment_edges nodes w s) (all_segments res))"
proof -
  have "grows nodes (concat (map (\<lambda>(w, s). segment_edges nodes w s) ss)) empty_built
      (fold (\<lambda>(w, s). addSegment nodes w s) ss empty_built)"
    if "\<forall>(w, s)\<in>set ss. 2 \<le> length s" for ss
    using that
  proof (induction ss rule: rev_induct)
    case Nil
    then show ?case using empty_built_ok by (simp add: grows_refl)
  next
    case (snoc ws ss)
    obtain w s where ws: "ws = (w, s)" by fastforce
    have IH: "grows nodes (concat (map (\<lambda>(w, s). segment_edges nodes w s) ss)) empty_built
      (fold (\<lambda>(w, s). addSegment nodes w s) ss empty_built)" using snoc by simp
    then have "built_ok nodes (fold (\<lambda>(w, s). addSegment nodes w s) ss empty_built)" by (simp add: grows_def)
    from grows_trans [OF IH addSegment_grows [OF this, of s w]] show ?case using snoc.prems ws by simp
  qed
  from this [of "all_segments res"] show ?thesis
    using all_segments_length by (auto simp: Build_all_segments grows_def empty_built_def)
qed

lemma edge_not_shorter: "edge_ok g e \<Longrightarrow>
    DistanceM (nLoc (node_at g (eFromNode e))) (nLoc (node_at g (eToNode e))) \<le> eLengthM e"
  using straight_line_le [of "eShape e"] by (cases "eShape e = []") (auto simp: edge_ok_def)

end
