(* ===== verification/Osm_Scan.thy ===== *)
theory Osm_Scan
  imports Osm_Graph
begin

text \<open>
  What the first pass finds: the ways it keeps are the routable ones with at least two nodes, and
  a node is a split point exactly when it ends a kept way or kept ways pass it twice.
\<close>

definition occurrences :: "WayRecord list \<Rightarrow> int \<Rightarrow> nat" where
  "occurrences ws i = sum_list (map (\<lambda>w. count_list (wrNodes w) i) ws)"

definition ends_way :: "WayRecord list \<Rightarrow> int \<Rightarrow> bool" where
  "ends_way ws i \<longleftrightarrow> (\<exists>w\<in>set ws. i = hd (wrNodes w) \<or> i = last (wrNodes w))"

lemma uses_touch: "uses m j \<le> 2 \<Longrightarrow> uses (touch i m) j = (if i = j then min 2 (uses m j + 1) else uses m j)"
  by (auto simp: touch_def uses_def)

lemma uses_fold_touch:
  "\<forall>j. uses m j \<le> 2 \<Longrightarrow> uses (fold touch ns m) j = min 2 (uses m j + count_list ns j)"
proof (induction ns arbitrary: m)
  case Nil
  then show ?case by (simp add: min_def le_antisym)
next
  case (Cons i ns)
  have le: "\<forall>j. uses (touch i m) j \<le> 2" using Cons.prems uses_touch by simp
  show ?case using Cons.IH [OF le] Cons.prems uses_touch [of m j i] by auto
qed

definition scanned :: "ScanResult \<Rightarrow> bool" where
  "scanned res \<longleftrightarrow> (\<forall>w\<in>set (Ways res). 2 \<le> length (wrNodes w)) \<and>
     (\<forall>i. uses (NodeUse res) i = (if ends_way (Ways res) i then 2 else min 2 (occurrences (Ways res) i)))"

lemma uses_upd: "uses (m(a \<mapsto> k)) i = (if i = a then k else uses m i)"
  by (simp add: uses_def)

lemma scan_way_scanned:
  assumes "scan_way w res = Ok res'" and ok: "scanned res"
  shows "scanned res'"
proof (cases "length (way_nodes w) < 2")
  case True
  then show ?thesis using assms by (simp add: scan_way_def)
next
  case False
  let ?ns = "way_nodes w"
  obtain attrs where attrs: "ParseWay (way_tags w) = Ok attrs"
    using assms(1) False by (cases "ParseWay (way_tags w)") (simp_all add: scan_way_def Let_def)
  let ?r = "\<lparr>wrID = way_id w, wrAttrs = attrs, wrNodes = ?ns\<rparr>"
  have res': "res' = \<lparr>Ways = Ways res @ [?r],
    NodeUse = (fold touch ?ns (NodeUse res))(hd ?ns \<mapsto> 2, last ?ns \<mapsto> 2)\<rparr>"
    using assms(1) False attrs by (simp add: scan_way_def Let_def)
  have le: "\<forall>j. uses (NodeUse res) j \<le> 2" using ok by (simp add: scanned_def)
  have "uses (NodeUse res') i =
    (if ends_way (Ways res') i then 2 else min 2 (occurrences (Ways res') i))" for i
  proof (cases "i = hd ?ns \<or> i = last ?ns")
    case True
    then show ?thesis by (auto simp: res' uses_upd ends_way_def)
  next
    case no: False
    then have "uses (NodeUse res') i = min 2 (uses (NodeUse res) i + count_list ?ns i)"
      using uses_fold_touch [OF le] by (simp add: res' uses_upd)
    moreover have "ends_way (Ways res') i = ends_way (Ways res) i"
      using no by (auto simp: res' ends_way_def)
    moreover have "occurrences (Ways res') i = occurrences (Ways res) i + count_list ?ns i"
      by (simp add: res' occurrences_def)
    ultimately show ?thesis using ok by (auto simp: scanned_def)
  qed
  then show ?thesis using ok False by (auto simp: scanned_def res')
qed

lemma ScanWays_kept:
  assumes "ScanWays (Some p) = Ok res"
  shows "foldM scan_way (filter (\<lambda>w. Routable (way_tags w)) (objects p)) \<lparr>Ways = [], NodeUse = Map.empty\<rparr> = Ok res"
  using assms by (auto simp: ScanWays_def obind_Ok_iff split: if_splits)

lemma ScanWays_scanned:
  assumes "ScanWays ext = Ok res"
  shows "scanned res"
proof -
  obtain p where p: "ext = Some p" using assms by (cases ext) (auto simp: ScanWays_def)
  have "scanned \<lparr>Ways = [], NodeUse = Map.empty\<rparr>"
    by (simp add: scanned_def uses_def ends_way_def occurrences_def)
  with foldM_invariant [OF ScanWays_kept [OF assms [unfolded p]], of scanned] scan_way_scanned
  show ?thesis by blast
qed

lemma split_point_iff:
  assumes "ScanWays ext = Ok res"
  shows "IsSplitPoint res i \<longleftrightarrow> ends_way (Ways res) i \<or> 2 \<le> occurrences (Ways res) i"
  using ScanWays_scanned [OF assms] by (auto simp: IsSplitPoint_def scanned_def)

text \<open>Every kept way is a routable way of the extract, with the attributes its tags parse to.\<close>

lemma ScanWays_routable:
  assumes "ScanWays (Some p) = Ok res" and "r \<in> set (Ways res)"
  shows "\<exists>w\<in>set (objects p). Routable (way_tags w) \<and> ParseWay (way_tags w) = Ok (wrAttrs r) \<and>
    wrID r = way_id w \<and> wrNodes r = way_nodes w \<and> 2 \<le> length (way_nodes w)"
proof -
  let ?P = "\<lambda>r. \<exists>w\<in>set (objects p). Routable (way_tags w) \<and> ParseWay (way_tags w) = Ok (wrAttrs r) \<and>
    wrID r = way_id w \<and> wrNodes r = way_nodes w \<and> 2 \<le> length (way_nodes w)"
  have "\<forall>r\<in>set (Ways res). ?P r"
  proof (rule foldM_invariant [OF ScanWays_kept [OF assms(1)], where P = "\<lambda>res. \<forall>r\<in>set (Ways res). ?P r"])
    fix w s s'
    assume w: "w \<in> set (filter (\<lambda>w. Routable (way_tags w)) (objects p))"
      and IH: "\<forall>r\<in>set (Ways s). ?P r" and s': "scan_way w s = Ok s'"
    show "\<forall>r\<in>set (Ways s'). ?P r"
    proof (cases "length (way_nodes w) < 2")
      case True
      then show ?thesis using IH s' by (simp add: scan_way_def)
    next
      case False
      then obtain attrs where a: "ParseWay (way_tags w) = Ok attrs"
        using s' by (cases "ParseWay (way_tags w)") (simp_all add: scan_way_def Let_def)
      then have "Ways s' = Ways s @ [\<lparr>wrID = way_id w, wrAttrs = attrs, wrNodes = way_nodes w\<rparr>]"
        using s' False by (auto simp: scan_way_def Let_def)
      moreover have "?P \<lparr>wrID = way_id w, wrAttrs = attrs, wrNodes = way_nodes w\<rparr>"
        using w a False by (intro bexI [of _ w]) auto
      ultimately show ?thesis using IH by auto
    qed
  qed simp
  then show ?thesis using assms(2) by blast
qed

text \<open>A way that cannot be ridden is never kept, whatever else its tags say.\<close>

lemma Routable_prohibited:
  "ToLower (tags ''bicycle'') \<in> {''no'', ''private'', ''dismount'', ''use_sidepath''} \<Longrightarrow> \<not> Routable tags"
  "tags ''highway'' \<in> excludedHighways \<Longrightarrow> \<not> Routable tags"
  "tags ''highway'' = [] \<Longrightarrow> \<not> Routable tags"
  "tags ''highway'' \<in> permissionRequiredHighways \<Longrightarrow>
     ToLower (tags ''bicycle'') \<notin> {''yes'', ''designated'', ''permissive'', ''destination''} \<Longrightarrow> \<not> Routable tags"
  by (auto simp: Routable_def Let_def)

section \<open>The second pass\<close>

lemma ScanNodes_lookup:
  assumes "ScanNodes (Some p) res = Ok out" and "out i = Some d"
  shows "\<exists>n\<in>set (objects p). node_id n = i \<and> ndLoc d = node_loc n \<and> NodeUse res i \<noteq> None \<and>
    ndControl d = (if IsSplitPoint res i then NodeControl_of (node_tags n) else [])"
proof -
  let ?P = "\<lambda>out :: int \<Rightarrow> NodeData option. \<forall>i d. out i = Some d \<longrightarrow> (\<exists>n\<in>set (objects p). node_id n = i \<and> ndLoc d = node_loc n \<and>
    NodeUse res i \<noteq> None \<and> ndControl d = (if IsSplitPoint res i then NodeControl_of (node_tags n) else []))"
  have "?P (fold (scan_node res) (filter (\<lambda>n. NodeUse res (node_id n) \<noteq> None) (objects p)) Map.empty)"
  proof (rule fold_inv [where P = ?P])
    fix n m
    assume n: "n \<in> set (filter (\<lambda>n. NodeUse res (node_id n) \<noteq> None) (objects p))" and IH: "?P m"
    show "?P (scan_node res n m)"
    proof (intro allI impI)
      fix i d
      assume d: "scan_node res n m i = Some d"
      show "\<exists>n\<in>set (objects p). node_id n = i \<and> ndLoc d = node_loc n \<and> NodeUse res i \<noteq> None \<and>
        ndControl d = (if IsSplitPoint res i then NodeControl_of (node_tags n) else [])"
      proof (cases "i = node_id n")
        case True
        then show ?thesis using d n by (intro bexI [of _ n]) (auto simp: scan_node_def)
      next
        case False
        then show ?thesis using d IH by (simp add: scan_node_def)
      qed
    qed
  qed simp
  moreover have "out = fold (scan_node res) (filter (\<lambda>n. NodeUse res (node_id n) \<noteq> None) (objects p)) Map.empty"
    using assms(1) by (auto simp: ScanNodes_def Let_def split: if_splits)
  ultimately show ?thesis using assms(2) by blast
qed

end
