(* ===== verification/Transactions.thy ===== *)
theory Transactions
  imports Prelude
begin

text \<open>
  The contract of an operation that writes tables: run on a state it returns a result and a state,
  and unless it commits it leaves the state as it was.  An error that is reported after the commit
  (a failed ANALYZE, say) is \<open>late\<close>.

  Every operation of the development that writes is an interpretation, in its own theory; the
  operator's commands are built from them, and \<open>Db_Pool\<close> adds what holds of a transaction that is
  run between the two ends of a pool's life.
\<close>

locale transaction =
  fixes run :: "'s \<Rightarrow> ('e, 'a) outcome \<times> 's" and late :: "'e \<Rightarrow> bool"
  assumes rollback: "run s = (r, s') \<Longrightarrow> \<forall>a. r \<noteq> Ok a \<Longrightarrow> \<forall>e. r = Err e \<longrightarrow> \<not> late e \<Longrightarrow> s' = s"
begin

lemma failed_run: "run s = (Err e, s') \<Longrightarrow> \<not> late e \<Longrightarrow> s' = s"
  by (rule rollback) auto

lemma panicked_run: "run s = (Panic, s') \<Longrightarrow> s' = s"
  by (rule rollback) auto

text \<open>What committing keeps, running keeps.\<close>

lemma keeps:
  assumes "run s = (r, s')" and "P s" and "(\<exists>a. r = Ok a) \<or> (\<exists>e. r = Err e \<and> late e) \<Longrightarrow> P s'"
  shows "P s'"
  using rollback [OF assms(1)] assms(2,3) by blast

text \<open>Running again after a failure is like running for the first time.\<close>

lemma retried: "run s = (Err e, s') \<Longrightarrow> \<not> late e \<Longrightarrow> run s' = run s"
  by (frule failed_run) simp_all

end

end
