(* ===== verification/Osm_Copy.thy ===== *)
theory Osm_Copy
  imports Osm_Build Transactions
begin

text \<open>
  The package \<open>internal/osm\<close>, file \<open>ingest.go\<close>: the rows written in Postgres's COPY text format
  and the transaction that replaces the graph's tables.

  The database is a parameter: how each statement ends, and how many rows it says a COPY stored.
  The format's decoder (\<open>parse_copy\<close>) is the specification the encoder is proved against: rows
  end in a newline, fields are separated by tabs, \<open>\N\<close> is NULL and a backslash escapes.
\<close>

section \<open>Rows\<close>

definition coordPrecision :: nat where "coordPrecision = 7"

record copyRow =
  buf :: string
  first :: bool

definition TAB :: char where "TAB = CHR 0x09"
definition LF :: char where "LF = CHR 0x0A"
definition CR :: char where "CR = CHR 0x0D"
definition BS :: char where "BS = CHR 0x5C"

definition escape_char :: "char \<Rightarrow> string" where
  "escape_char c =
     (if c = BS then [BS, BS] else if c = TAB then BS # ''t'' else if c = LF then BS # ''n''
      else if c = CR then BS # ''r'' else [c])"

definition writeEscaped :: "string \<Rightarrow> string" where
  "writeEscaped s = concat (map escape_char s)"

definition row_reset :: "copyRow \<Rightarrow> copyRow" where
  "row_reset r = \<lparr>buf = [], first = True\<rparr>"

definition row_sep :: "copyRow \<Rightarrow> copyRow" where
  "row_sep r = \<lparr>buf = (if first r then buf r else buf r @ [TAB]), first = False\<rparr>"

definition row_write :: "string \<Rightarrow> copyRow \<Rightarrow> copyRow" where
  "row_write s r = (let r = row_sep r in r\<lparr>buf := buf r @ s\<rparr>)"

definition row_Str :: "string \<Rightarrow> copyRow \<Rightarrow> copyRow" where
  "row_Str s = row_write (writeEscaped s)"

definition row_Null :: "copyRow \<Rightarrow> copyRow" where
  "row_Null = row_write [BS, CHR ''N'']"

definition row_StrOrNull :: "string \<Rightarrow> copyRow \<Rightarrow> copyRow" where
  "row_StrOrNull s = (if s = [] then row_Null else row_Str s)"

definition row_Int :: "int \<Rightarrow> copyRow \<Rightarrow> copyRow" where
  "row_Int v = row_write (FormatInt v)"

definition row_Float :: "real \<Rightarrow> nat \<Rightarrow> copyRow \<Rightarrow> copyRow" where
  "row_Float v prec = row_write (FormatFloat v prec)"

definition row_OptInt16 :: "int option \<Rightarrow> copyRow \<Rightarrow> copyRow" where
  "row_OptInt16 v = (case v of None \<Rightarrow> row_Null | Some n \<Rightarrow> row_Int n)"

definition row_OptBool :: "bool option \<Rightarrow> copyRow \<Rightarrow> copyRow" where
  "row_OptBool v = (case v of None \<Rightarrow> row_Null | Some b \<Rightarrow> row_write (if b then ''t'' else ''f''))"

definition row_finish :: "copyRow \<Rightarrow> string" where
  "row_finish r = buf r @ [LF]"

section \<open>Geometry\<close>

definition writeCoord :: "LatLon \<Rightarrow> string" where
  "writeCoord p = FormatFloat (Lon p) coordPrecision @ '' '' @ FormatFloat (Lat p) coordPrecision"

definition pointEWKT :: "LatLon \<Rightarrow> string" where
  "pointEWKT p = ''SRID=4326;POINT('' @ writeCoord p @ '')''"

fun join_coords :: "bool \<Rightarrow> LatLon list \<Rightarrow> string" where
  "join_coords is_first [] = []"
| "join_coords is_first (p # ps) = (if is_first then [] else '','') @ writeCoord p @ join_coords False ps"

definition lineEWKT :: "LatLon list \<Rightarrow> string" where
  "lineEWKT shape = ''SRID=4326;LINESTRING('' @ join_coords True shape @ '')''"

section \<open>The two tables\<close>

definition write_node :: "Node \<Rightarrow> copyRow \<Rightarrow> copyRow" where
  "write_node n r = row_Str (nControl n) (row_Str (pointEWKT (nLoc n)) (row_Int (nOSMID n)
     (row_Int (nID n) (row_reset r))))"

definition write_edge :: "Edge \<Rightarrow> copyRow \<Rightarrow> copyRow" where
  "write_edge e r =
     (let a = eAttrs e;
          r = row_Int (eToNode e) (row_Int (eFromNode e) (row_Int (eWayID e) (row_Int (eID e) (row_reset r))));
          r = row_Float (eLengthM e) 3 (row_Str (lineEWKT (eShape e)) r);
          r = row_Str (InfraClass_text (wInfra a)) (row_StrOrNull (wName a) (row_Str (wHighway a) r));
          r = row_OptInt16 (wLanes a) (row_OptInt16 (wMaxSpeedMPH a) r);
          r = row_OptBool (wLit a) (row_StrOrNull (wSurface a) r)
      in row_Float (eBearingEnd e) 2 (row_Float (eBearingStart e) 2 r))"

text \<open>The loop: one row buffer is used for all rows, and each finished row goes to the pipe.\<close>

fun write_rows :: "('a \<Rightarrow> copyRow \<Rightarrow> copyRow) \<Rightarrow> 'a list \<Rightarrow> copyRow \<Rightarrow> string" where
  "write_rows f [] r = []"
| "write_rows f (x # xs) r = row_finish (f x r) @ write_rows f xs (f x r)"

definition zero_row :: copyRow where "zero_row = \<lparr>buf = [], first = False\<rparr>"

definition nodes_text :: "Node list \<Rightarrow> string" where "nodes_text ns = write_rows write_node ns zero_row"
definition edges_text :: "Edge list \<Rightarrow> string" where "edges_text es = write_rows write_edge es zero_row"

section \<open>The transaction\<close>

datatype load_failure = BeginTx | Truncating | CopyFailed | Committing | Analyzing

text \<open>
  How the database answers: whether each statement succeeds, and for a COPY the rows it stored
  for the text it was sent.
\<close>

record answers =
  a_begin :: bool
  a_truncate :: bool
  a_copy_nodes :: "string \<Rightarrow> int option"
  a_copy_edges :: "string \<Rightarrow> int option"
  a_commit :: bool
  a_analyze :: bool

definition copyRows :: "string \<Rightarrow> (string \<Rightarrow> int option) \<Rightarrow> (load_failure, int) outcome" where
  "copyRows text_sent db = (case db text_sent of None \<Rightarrow> Err CopyFailed | Some n \<Rightarrow> Ok n)"

definition copyNodes :: "answers \<Rightarrow> Node list \<Rightarrow> (load_failure, int) outcome" where
  "copyNodes db ns = copyRows (nodes_text ns) (a_copy_nodes db)"

definition copyEdges :: "answers \<Rightarrow> Edge list \<Rightarrow> (load_failure, int) outcome" where
  "copyEdges db es = copyRows (edges_text es) (a_copy_edges db)"

text \<open>
  The tables are the texts last copied into them and committed.  Every error before the commit
  leaves by the deferred rollback, so the transaction's writes are lost.
\<close>

type_synonym tables = "string \<times> string"

definition osm_Load :: "answers \<Rightarrow> BuiltGraph \<Rightarrow> tables \<Rightarrow> (load_failure, unit) outcome \<times> tables" where
  "osm_Load db g old =
     (if \<not> a_begin db then (Err BeginTx, old)
      else if \<not> a_truncate db then (Err Truncating, old)
      else case copyNodes db (Nodes g) of
        Err x \<Rightarrow> (Err x, old)
      | Panic \<Rightarrow> (Panic, old)
      | Ok n \<Rightarrow>
         (case copyEdges db (Edges g) of
            Err x \<Rightarrow> (Err x, old)
          | Panic \<Rightarrow> (Panic, old)
          | Ok e \<Rightarrow>
              if \<not> a_commit db then (Err Committing, old)
              else
                let new = (nodes_text (Nodes g), edges_text (Edges g))
                in if \<not> a_analyze db then (Err Analyzing, new) else (Ok (), new)))"

section \<open>The format\<close>

fun unescape :: "string \<Rightarrow> string" where
  "unescape (a # c # s) =
     (if a = BS then (if c = CHR ''t'' then TAB else if c = CHR ''n'' then LF
                      else if c = CHR ''r'' then CR else c) # unescape s
      else a # unescape (c # s))"
| "unescape [a] = [a]"
| "unescape [] = []"

definition field_value :: "string \<Rightarrow> string option" where
  "field_value f = (if f = [BS, CHR ''N''] then None else Some (unescape f))"

definition parse_copy :: "string \<Rightarrow> string option list list" where
  "parse_copy s = map (\<lambda>row. map field_value (split_on TAB row)) (butlast (split_on LF s))"

definition clean :: "string \<Rightarrow> bool" where
  "clean s \<longleftrightarrow> TAB \<notin> set s \<and> LF \<notin> set s"

lemmas marks = TAB_def LF_def CR_def BS_def

lemma writeEscaped_clean: "clean (writeEscaped s)"
  by (auto simp: clean_def writeEscaped_def escape_char_def marks)

lemma unescape_writeEscaped: "unescape (writeEscaped s) = s"
proof (induction s)
  case (Cons c s)
  show ?case
  proof (cases "c \<in> {BS, TAB, LF, CR}")
    case True
    then show ?thesis using Cons by (auto simp: writeEscaped_def escape_char_def marks)
  next
    case False
    then have "writeEscaped (c # s) = c # writeEscaped s" by (simp add: writeEscaped_def escape_char_def)
    then show ?thesis using Cons False by (cases "writeEscaped s") auto
  qed
qed (simp add: writeEscaped_def)

lemma unescape_plain: "BS \<notin> set s \<Longrightarrow> unescape s = s"
  by (induction s rule: unescape.induct) auto

lemma field_value_escaped: "field_value (writeEscaped s) = Some s"
proof -
  have "writeEscaped s \<noteq> [BS, CHR ''N'']"
  proof (cases s)
    case (Cons c t)
    then show ?thesis by (auto simp: writeEscaped_def escape_char_def marks)
  qed (simp add: writeEscaped_def)
  then show ?thesis by (simp add: field_value_def unescape_writeEscaped)
qed

lemma number_plain:
  assumes "\<forall>c\<in>set s. is_digit c \<or> c = CHR ''-'' \<or> c = CHR ''.''"
  shows "clean s \<and> field_value s = Some s"
proof -
  have "c \<noteq> TAB" "c \<noteq> LF" "c \<noteq> BS" if "c \<in> set s" for c
    using assms that by (auto simp: marks is_digit_def)
  then have "TAB \<notin> set s" "LF \<notin> set s" "BS \<notin> set s" by auto
  then show ?thesis by (auto simp: clean_def field_value_def unescape_plain)
qed

lemma FormatInt_plain: "clean (FormatInt v) \<and> field_value (FormatInt v) = Some (FormatInt v)"
  using FormatInt_chars by (intro number_plain) blast

lemma FormatFloat_plain: "clean (FormatFloat v p) \<and> field_value (FormatFloat v p) = Some (FormatFloat v p)"
  using FormatFloat_chars by (intro number_plain) blast

text \<open>What a COPY into a table of keys and values makes of a text; the key is the primary key.\<close>

definition copy_table :: "(string option list \<Rightarrow> ('k \<times> 'v) option) \<Rightarrow> string \<Rightarrow> ('k \<times> 'v) list option" where
  "copy_table read s = (let rs = map read (parse_copy s)
     in if None \<in> set rs \<or> \<not> distinct (map (fst \<circ> the) rs) then None else Some (map the rs))"

text \<open>
  The contract of an encoder: its text decodes to the values \<open>vals x\<close> of each row \<open>x\<close>.  A table of keys
  and values then receives what its columns make of them.
\<close>

locale copy_format =
  fixes encode :: "'r list \<Rightarrow> string" and vals :: "'r \<Rightarrow> string option list"
  assumes reads_back: "parse_copy (encode xs) = map vals xs"
begin

lemma same_rows: "encode xs = encode ys \<Longrightarrow> inj vals \<Longrightarrow> xs = ys"
  using reads_back by (metis inj_map_eq_map)

lemma table_rows:
  assumes "\<And>x. x \<in> set xs \<Longrightarrow> read (vals x) = Some (entry x)" and "distinct (map (fst \<circ> entry) xs)"
  shows "copy_table read (encode xs) = Some (map entry xs)"
proof -
  have rs: "map read (parse_copy (encode xs)) = map (\<lambda>x. Some (entry x)) xs" using reads_back assms(1) by simp
  have "None \<notin> set (map (\<lambda>x. Some (entry x)) xs)" by auto
  then show ?thesis using assms(2) unfolding copy_table_def Let_def rs by (simp add: o_def)
qed

end

section \<open>What is written reads back\<close>

fun joined :: "string list \<Rightarrow> string" where
  "joined [] = []"
| "joined [f] = f"
| "joined (f # fs) = f @ TAB # joined fs"

definition row_is :: "copyRow \<Rightarrow> string list \<Rightarrow> bool" where
  "row_is r fs \<longleftrightarrow> first r = (fs = []) \<and> buf r = joined fs \<and> list_all clean fs"

lemma joined_snoc: "fs \<noteq> [] \<Longrightarrow> joined (fs @ [f]) = joined fs @ TAB # f"
  by (induction fs rule: joined.induct) auto

lemma row_is_reset: "row_is (row_reset r) []"
  by (simp add: row_is_def row_reset_def)

lemma row_is_write: "row_is r fs \<Longrightarrow> clean f \<Longrightarrow> row_is (row_write f r) (fs @ [f])"
  by (auto simp: row_is_def row_write_def row_sep_def joined_snoc Let_def)

text \<open>The raw fields an optional value is written as, and the value they stand for.\<close>

definition raw_field :: "string option \<Rightarrow> string" where
  "raw_field v = (case v of None \<Rightarrow> [BS, CHR ''N''] | Some s \<Rightarrow> writeEscaped s)"

lemma raw_field_clean: "clean (raw_field v)"
  using writeEscaped_clean by (cases v) (auto simp: raw_field_def clean_def marks)

lemma field_value_raw: "field_value (raw_field v) = v"
  by (cases v) (auto simp: raw_field_def field_value_escaped, simp add: field_value_def)

definition opt_string :: "string \<Rightarrow> string option" where "opt_string s = (if s = [] then None else Some s)"

text \<open>A row holds the values \<open>vs\<close>.\<close>

definition holds :: "copyRow \<Rightarrow> string option list \<Rightarrow> bool" where
  "holds r vs \<longleftrightarrow> (\<exists>fs. row_is r fs \<and> map field_value fs = vs)"

lemma holds_reset: "holds (row_reset r) []"
  using row_is_reset by (auto simp: holds_def)

lemma holds_write: "holds r vs \<Longrightarrow> clean f \<Longrightarrow> field_value f = v \<Longrightarrow> holds (row_write f r) (vs @ [v])"
proof -
  assume "holds r vs" and f: "clean f" "field_value f = v"
  then obtain fs where "row_is r fs" "map field_value fs = vs" unfolding holds_def by blast
  then have "row_is (row_write f r) (fs @ [f])" "map field_value (fs @ [f]) = vs @ [v]"
    using row_is_write f by auto
  then show "holds (row_write f r) (vs @ [v])" unfolding holds_def by blast
qed

lemma holds_Str: "holds r vs \<Longrightarrow> holds (row_Str s r) (vs @ [Some s])"
  by (simp add: row_Str_def holds_write writeEscaped_clean field_value_escaped)

lemma holds_Null: "holds r vs \<Longrightarrow> holds (row_Null r) (vs @ [None])"
  unfolding row_Null_def
  by (rule holds_write) (auto simp: clean_def marks field_value_def)

lemma holds_StrOrNull: "holds r vs \<Longrightarrow> holds (row_StrOrNull s r) (vs @ [opt_string s])"
  by (simp add: row_StrOrNull_def opt_string_def holds_Null holds_Str)

lemma holds_Int: "holds r vs \<Longrightarrow> holds (row_Int v r) (vs @ [Some (FormatInt v)])"
  using FormatInt_plain by (simp add: row_Int_def holds_write)

lemma holds_Float: "holds r vs \<Longrightarrow> holds (row_Float v p r) (vs @ [Some (FormatFloat v p)])"
  using FormatFloat_plain by (simp add: row_Float_def holds_write)

lemma holds_OptInt16: "holds r vs \<Longrightarrow> holds (row_OptInt16 v r) (vs @ [map_option FormatInt v])"
  by (cases v) (simp_all add: row_OptInt16_def holds_Null holds_Int)

lemma holds_OptBool:
  "holds r vs \<Longrightarrow> holds (row_OptBool v r) (vs @ [map_option (\<lambda>b. if b then ''t'' else ''f'') v])"
  by (cases v) (auto simp: row_OptBool_def holds_Null clean_def marks field_value_def intro!: holds_write)

definition node_fields :: "Node \<Rightarrow> string option list" where
  "node_fields n = [Some (FormatInt (nID n)), Some (FormatInt (nOSMID n)), Some (pointEWKT (nLoc n)),
     Some (nControl n)]"

definition edge_fields :: "Edge \<Rightarrow> string option list" where
  "edge_fields e = (let a = eAttrs e in
     [Some (FormatInt (eID e)), Some (FormatInt (eWayID e)), Some (FormatInt (eFromNode e)),
      Some (FormatInt (eToNode e)), Some (lineEWKT (eShape e)), Some (FormatFloat (eLengthM e) 3),
      Some (wHighway a), opt_string (wName a), Some (InfraClass_text (wInfra a)),
      map_option FormatInt (wMaxSpeedMPH a), map_option FormatInt (wLanes a), opt_string (wSurface a),
      map_option (\<lambda>b. if b then ''t'' else ''f'') (wLit a),
      Some (FormatFloat (eBearingStart e) 2), Some (FormatFloat (eBearingEnd e) 2)])"

lemma write_node_holds: "holds (write_node n r) (node_fields n)"
  unfolding write_node_def node_fields_def
  using holds_Str [OF holds_Str [OF holds_Int [OF holds_Int [OF holds_reset]]]] by simp

lemma write_edge_holds: "holds (write_edge e r) (edge_fields e)"
proof -
  let ?a = "eAttrs e"
  let ?r = "row_Int (eToNode e) (row_Int (eFromNode e) (row_Int (eWayID e) (row_Int (eID e) (row_reset r))))"
  note h = holds_Int [OF holds_Int [OF holds_Int [OF holds_Int [OF holds_reset [of r], of "eID e"], of "eWayID e"],
    of "eFromNode e"], of "eToNode e"]
  note h = holds_Float [OF holds_Str [OF h, of "lineEWKT (eShape e)"], of "eLengthM e" 3]
  note h = holds_Str [OF holds_StrOrNull [OF holds_Str [OF h, of "wHighway ?a"], of "wName ?a"],
    of "InfraClass_text (wInfra ?a)"]
  note h = holds_OptInt16 [OF holds_OptInt16 [OF h, of "wMaxSpeedMPH ?a"], of "wLanes ?a"]
  note h = holds_OptBool [OF holds_StrOrNull [OF h, of "wSurface ?a"], of "wLit ?a"]
  note h = holds_Float [OF holds_Float [OF h, of "eBearingStart e" 2], of "eBearingEnd e" 2]
  then show ?thesis by (simp add: write_edge_def edge_fields_def Let_def)
qed

lemma split_joined: "fs \<noteq> [] \<Longrightarrow> list_all clean fs \<Longrightarrow> split_on TAB (joined fs) = fs"
  by (induction fs rule: joined.induct) (auto simp: clean_def split_on_none split_on_append)

lemma joined_no_LF: "list_all clean fs \<Longrightarrow> LF \<notin> set (joined fs)"
  by (induction fs rule: joined.induct) (auto simp: clean_def marks)

text \<open>A line of clean fields is read back before the lines after it.\<close>

lemma parse_line:
  assumes "list_all clean fs" and "fs \<noteq> []"
  shows "parse_copy (joined fs @ LF # s) = map field_value fs # parse_copy s"
proof -
  have "split_on LF (joined fs @ LF # s) = joined fs # split_on LF s"
    by (rule split_on_append [OF joined_no_LF [OF assms(1)]])
  then show ?thesis using assms split_on_nonempty by (simp add: parse_copy_def split_joined)
qed

lemma parse_write_rows:
  assumes "\<And>x r. holds (f x r) (vals x)" and "\<And>x. vals x \<noteq> []"
  shows "parse_copy (write_rows f xs r) = map vals xs"
proof (induction xs arbitrary: r)
  case Nil
  then show ?case by (simp add: parse_copy_def)
next
  case (Cons x xs)
  obtain fs where fs: "row_is (f x r) fs" "map field_value fs = vals x"
    using assms(1) [of x r] unfolding holds_def by blast
  then have "buf (f x r) = joined fs" "list_all clean fs" "fs \<noteq> []"
    using assms(2) [of x] by (auto simp: row_is_def)
  then show ?case using Cons [of "f x r"] fs(2) parse_line [of fs] by (simp add: row_finish_def)
qed

lemma copy_round_trip:
  "parse_copy (nodes_text ns) = map node_fields ns" "parse_copy (edges_text es) = map edge_fields es"
  unfolding nodes_text_def edges_text_def
  by (rule parse_write_rows, rule write_node_holds, simp add: node_fields_def)
    (rule parse_write_rows, rule write_edge_holds, simp add: edge_fields_def Let_def)

interpretation nodes_copy: copy_format nodes_text node_fields
  by unfold_locales (rule copy_round_trip)

interpretation edges_copy: copy_format edges_text edge_fields
  by unfold_locales (rule copy_round_trip)

text \<open>A failed load changes nothing, unless only the final ANALYZE failed.\<close>

lemma osm_Load_atomic:
  "(case osm_Load db g old of
      (Ok u, new) \<Rightarrow> new = (nodes_text (Nodes g), edges_text (Edges g))
    | (Err Analyzing, new) \<Rightarrow> new = (nodes_text (Nodes g), edges_text (Edges g))
    | (Err x, new) \<Rightarrow> new = old
    | (Panic, new) \<Rightarrow> False)"
  by (auto simp: osm_Load_def copyNodes_def copyEdges_def copyRows_def Let_def
      split: outcome.splits load_failure.splits option.splits if_splits)

interpretation osm_loading: transaction "osm_Load db g" "\<lambda>e. e = Analyzing" for db g
proof
  fix s r s' assume run: "osm_Load db g s = (r, s')" "\<forall>u. r \<noteq> Ok u" "\<forall>e. r = Err e \<longrightarrow> e \<noteq> Analyzing"
  have "case (r, s') of (Ok u, new) \<Rightarrow> new = (nodes_text (Nodes g), edges_text (Edges g))
    | (Err Analyzing, new) \<Rightarrow> new = (nodes_text (Nodes g), edges_text (Edges g))
    | (Err x, new) \<Rightarrow> new = s | (Panic, new) \<Rightarrow> False"
    using osm_Load_atomic [where db = db and g = g and old = s] unfolding run(1) .
  then show "s' = s" using run(2,3) by (auto split: outcome.splits load_failure.splits)
qed

end
