(* ===== verification/Ingest_Load.thy ===== *)
theory Ingest_Load
  imports Osm_Scan Osm_Copy Graph_Facts Search_Optimal
begin

text \<open>
  From the ingest to the router: the rows the ingest writes load into a well-formed graph that has
  the built nodes and edges, and whose edges are no shorter than the straight line between their
  ends, up to the rounding of what is written and loaded.

  Between the two stands the database.  What is used of it: the router's queries return one row
  for each row copied, nodes ordered by id and edges by their source, and a column holds the value
  of the text that was copied into it.
\<close>

section \<open>Stored rows\<close>

definition stored_loc :: "LatLon \<Rightarrow> LatLon" where
  "stored_loc p = \<lparr>Lat = rounded coordPrecision (Lat p), Lon = rounded coordPrecision (Lon p)\<rparr>"

definition stored_node :: "Node \<Rightarrow> node_row" where
  "stored_node n = \<lparr>nr_id = nID n, nr_lon = Lon (stored_loc (nLoc n)), nr_lat = Lat (stored_loc (nLoc n)),
     nr_control = nControl n\<rparr>"

text \<open>The columns that later steps fill in (stress, crashes, grade) are left open.\<close>

definition stores :: "edge_row \<Rightarrow> Edge \<Rightarrow> bool" where
  "stores r e \<longleftrightarrow> er_id r = eID e \<and> er_from r = eFromNode e \<and> er_to r = eToNode e \<and>
     er_length r = rounded 3 (eLengthM e) \<and> er_highway r = wHighway (eAttrs e) \<and>
     er_infra r = InfraClass_text (wInfra (eAttrs e)) \<and> er_speed r = wMaxSpeedMPH (eAttrs e) \<and>
     er_lanes r = wLanes (eAttrs e) \<and> er_lit r = wLit (eAttrs e)"

section \<open>Loading succeeds\<close>

lemma scan_nodes_in_order:
  assumes "map nr_id rs = map int [k..<k + length rs]" and "k + length rs \<le> n"
    and "length (NodeLat g) = n" "length (NodeLon g) = n" "length (NodeControl g) = n"
  shows "\<exists>h. scan_nodes (int n) (map Some rs) (g, int k) = Ok (h, int (k + length rs)) \<and>
    length (NodeLat h) = n \<and> length (NodeLon h) = n \<and> length (NodeControl h) = n \<and>
    (\<forall>i<n. NodeLat h ! i = (if k \<le> i \<and> i < k + length rs then nr_lat (rs ! (i - k)) else NodeLat g ! i) \<and>
           NodeLon h ! i = (if k \<le> i \<and> i < k + length rs then nr_lon (rs ! (i - k)) else NodeLon g ! i))"
  using assms
proof (induction rs arbitrary: k g)
  case Nil
  then show ?case by simp
next
  case (Cons r rs)
  have up: "[k..<k + length (r # rs)] = k # [Suc k..<Suc k + length rs]"
    using upt_conv_Cons [of k "k + length (r # rs)"] by (simp del: upt_Suc)
  then have r: "nr_id r = int k" and rs: "map nr_id rs = map int [Suc k..<Suc k + length rs]"
    using Cons.prems(1) by (simp_all del: upt_Suc)
  let ?g = "g\<lparr>NodeLat := (NodeLat g)[k := nr_lat r], NodeLon := (NodeLon g)[k := nr_lon r],
    NodeControl := (NodeControl g)[k := ParseControl (nr_control r)]\<rparr>"
  have k: "k < n" using Cons.prems(2) by simp
  from Cons.IH [OF rs, of ?g] Cons.prems obtain h where
    h: "scan_nodes (int n) (map Some rs) (?g, int (Suc k)) = Ok (h, int (Suc k + length rs))"
      "length (NodeLat h) = n" "length (NodeLon h) = n" "length (NodeControl h) = n"
    and v: "\<forall>i<n. NodeLat h ! i = (if Suc k \<le> i \<and> i < Suc k + length rs then nr_lat (rs ! (i - Suc k)) else NodeLat ?g ! i) \<and>
           NodeLon h ! i = (if Suc k \<le> i \<and> i < Suc k + length rs then nr_lon (rs ! (i - Suc k)) else NodeLon ?g ! i)"
    by auto
  have "NodeLat h ! i = (if k \<le> i \<and> i < k + length (r # rs) then nr_lat ((r # rs) ! (i - k)) else NodeLat g ! i) \<and>
        NodeLon h ! i = (if k \<le> i \<and> i < k + length (r # rs) then nr_lon ((r # rs) ! (i - k)) else NodeLon g ! i)"
    if i: "i < n" for i
  proof (cases "i = k")
    case True
    then show ?thesis using v i Cons.prems k by simp
  next
    case False
    then have "i - k = Suc (i - Suc k)" if "Suc k \<le> i" using that by simp
    then show ?thesis using v i False by (auto simp: not_le less_Suc_eq_le)
  qed
  moreover have "scan_nodes (int n) (map Some (r # rs)) (g, int k) = Ok (h, int (k + length (r # rs)))"
    using h(1) k by (simp add: r add.commute)
  ultimately show ?case using h by blast
qed

lemma loadNodes_stored:
  assumes ids: "map nr_id rs = map int [0..<length rs]" and ne: "rs \<noteq> []"
  shows "\<exists>h. loadNodes (Some (int (length rs))) (Some \<lparr>rows = map Some rs, rows_err = False\<rparr>) g = Ok h \<and>
    NodeLat h = map nr_lat rs \<and> NodeLon h = map nr_lon rs \<and> length (NodeControl h) = length rs"
proof -
  let ?n = "length rs"
  let ?g = "g\<lparr>NodeLat := replicate ?n 0, NodeLon := replicate ?n 0, NodeControl := replicate ?n ControlNone\<rparr>"
  from scan_nodes_in_order [of rs 0 ?n ?g] ids obtain h where
    h: "scan_nodes (int ?n) (map Some rs) (?g, 0) = Ok (h, int ?n)"
      "length (NodeLat h) = ?n" "length (NodeLon h) = ?n" "length (NodeControl h) = ?n"
    and v: "\<forall>i<?n. NodeLat h ! i = nr_lat (rs ! i) \<and> NodeLon h ! i = nr_lon (rs ! i)"
    by auto
  have "NodeLat h = map nr_lat rs" "NodeLon h = map nr_lon rs"
    using h v by (auto intro: nth_equalityI)
  then show ?thesis using h ne by (simp add: loadNodes_def Let_def)
qed

lemma scan_edges_in_range:
  assumes "\<forall>r\<in>set rs. 0 \<le> er_from r \<and> er_from r < nc \<and> 0 \<le> er_to r \<and> er_to r < nc" and "nc < 2147483648"
  shows "\<exists>h. scan_edges nc (map Some rs) g = Ok h \<and>
    NodeLat h = NodeLat g \<and> NodeLon h = NodeLon g \<and> NodeControl h = NodeControl g \<and>
    From h = From g @ map (nat \<circ> er_from) rs \<and> To h = To g @ map (nat \<circ> er_to) rs \<and>
    LengthM h = LengthM g @ map (f32 \<circ> er_length) rs \<and> DBID h = DBID g @ map er_id rs"
  using assms(1)
proof (induction rs arbitrary: g)
  case (Cons r rs)
  then have r: "int32 (er_from r) = er_from r" "int32 (er_to r) = er_to r"
    using assms(2) by (simp_all add: int32_id)
  from Cons obtain h where h: "scan_edges nc (map Some rs) (append_edge g r) = Ok h"
    "NodeLat h = NodeLat g \<and> NodeLon h = NodeLon g \<and> NodeControl h = NodeControl g \<and>
    From h = From (append_edge g r) @ map (nat \<circ> er_from) rs \<and>
    To h = To (append_edge g r) @ map (nat \<circ> er_to) rs \<and>
    LengthM h = LengthM (append_edge g r) @ map (f32 \<circ> er_length) rs \<and>
    DBID h = DBID (append_edge g r) @ map er_id rs"
    using Cons.IH [of "append_edge g r"] by (auto simp: append_edge_def)
  then show ?case using Cons.prems r by (auto simp: append_edge_def)
qed simp

lemma buildDBIndex_dense:
  assumes "\<forall>i\<in>set (DBID g). 0 \<le> i \<and> i < int (length (DBID g))"
  shows "\<exists>h. buildDBIndex g = Ok h"
proof -
  let ?mx = "fold (\<lambda>i m. if i > m then i else m) (DBID g) (- 1)"
  have le: "?mx < int (length (DBID g)) \<or> ?mx = - 1"
    by (rule fold_inv [where P = "\<lambda>m. m < int (length (DBID g)) \<or> m = - 1"]) (use assms in auto)
  have mem: "x \<in> set (DBID g) \<Longrightarrow> x \<le> ?mx" for x by (rule fold_max_mem)
  show ?thesis
  proof (cases "?mx < 0")
    case True
    then show ?thesis by (simp add: buildDBIndex_def Let_def)
  next
    case False
    have "\<exists>s. foldM (index_step (DBID g)) [0..<length (DBID g)] (replicate (nat (?mx + 1)) (- 1)) = Ok s \<and>
        length s = nat (?mx + 1)"
    proof (rule foldM_rule [where P = "\<lambda>s. length s = nat (?mx + 1)"])
      fix i and s :: "int list"
      assume i: "i \<in> set [0..<length (DBID g)]" and s: "length s = nat (?mx + 1)"
      then have "DBID g ! i \<in> set (DBID g)" by simp
      then have "0 \<le> DBID g ! i" "DBID g ! i \<le> ?mx" using assms mem by auto
      then show "\<exists>s'. index_step (DBID g) i s = Ok s' \<and> length s' = nat (?mx + 1)"
        using s by (auto simp: index_step_def)
    qed simp
    then show ?thesis using False le by (auto simp: buildDBIndex_def Let_def)
  qed
qed

lemma endpoints_from: "From g = map f es \<Longrightarrow> \<forall>x\<in>set (From g). x < NumNodes g \<Longrightarrow> endpoints_ok g"
  by (auto simp: endpoints_ok_def NumEdges_def)

definition built_and_loaded :: "BuiltGraph \<Rightarrow> Edge list \<Rightarrow> graph \<Rightarrow> bool" where
  "built_and_loaded b es g \<longleftrightarrow>
     NodeLat g = map (\<lambda>n. Lat (stored_loc (nLoc n))) (Nodes b) \<and>
     NodeLon g = map (\<lambda>n. Lon (stored_loc (nLoc n))) (Nodes b) \<and>
     From g = map (nat \<circ> eFromNode) es \<and> To g = map (nat \<circ> eToNode) es \<and>
     LengthM g = map (\<lambda>e. f32 (rounded 3 (eLengthM e))) es \<and> DBID g = map eID es"

lemma ingested_load:
  assumes ok: "built_ok nodes b" and ne: "Edges b \<noteq> []" and small: "length (Nodes b) < 2147483648"
    and perm: "mset es = mset (Edges b)" and sorted: "sorted (map eFromNode es)"
    and st: "list_all2 stores rs es"
  shows "\<exists>g. graph_Load (Some (int (length (Nodes b))))
      (Some \<lparr>rows = map Some (map stored_node (Nodes b)), rows_err = False\<rparr>)
      (Some (int (length rs))) (Some \<lparr>rows = map Some rs, rows_err = False\<rparr>) = Ok g \<and>
    built_and_loaded b es g"
proof -
  let ?n = "length (Nodes b)"
  have eset: "set es = set (Edges b)" using perm by (metis set_mset_mset)
  have elen: "length es = length (Edges b)" using perm by (metis size_mset)
  have eok: "edge_ok b e" if "e \<in> set es" for e using built_ok_edges [OF ok] that eset by auto
  have ids: "map nr_id (map stored_node (Nodes b)) = map int [0..<length (map stored_node (Nodes b))]"
    using ok by (intro nth_equalityI) (auto simp: built_ok_def nodes_ok_def stored_node_def)
  obtain e0 where "e0 \<in> set es" using ne eset by (cases "Edges b") auto
  then have n0: "Nodes b \<noteq> []" using eok [of e0] by (auto simp: edge_ok_def has_node_def)
  from loadNodes_stored [OF ids, of empty_graph] n0 obtain g1 where
    g1: "loadNodes (Some (int ?n)) (Some \<lparr>rows = map Some (map stored_node (Nodes b)), rows_err = False\<rparr>) empty_graph = Ok g1"
      "NodeLat g1 = map nr_lat (map stored_node (Nodes b))" "NodeLon g1 = map nr_lon (map stored_node (Nodes b))"
      "length (NodeControl g1) = ?n" by auto
  have nn: "NumNodes g1 = ?n" using g1 by (simp add: NumNodes_def)
  have rows: "map er_from rs = map eFromNode es" "map er_to rs = map eToNode es"
    "map er_length rs = map (\<lambda>e. rounded 3 (eLengthM e)) es" "map er_id rs = map eID es"
    using st by (induction rule: list_all2_induct) (auto simp: stores_def)
  have rlen: "length rs = length es" using st by (rule list_all2_lengthD)
  have range: "\<forall>r\<in>set rs. 0 \<le> er_from r \<and> er_from r < int ?n \<and> 0 \<le> er_to r \<and> er_to r < int ?n"
  proof
    fix r
    assume "r \<in> set rs"
    then obtain i where i: "i < length rs" "r = rs ! i" by (auto simp: in_set_conv_nth)
    then have "stores r (es ! i)" "edge_ok b (es ! i)"
      using st eok [of "es ! i"] rlen by (auto simp: list_all2_conv_all_nth)
    then show "0 \<le> er_from r \<and> er_from r < int ?n \<and> 0 \<le> er_to r \<and> er_to r < int ?n"
      by (simp add: stores_def edge_ok_def has_node_def)
  qed
  let ?g1 = "g1\<lparr>From := [], To := [], LengthM := [], DBID := [], Infra := [], Highway := [],
                   Surface := [], MaxSpeed := [], Lanes := [], Lit := [], LTS := [],
                   CrashScore := [], GradePct := [], BearingStart := [], BearingEnd := []\<rparr>"
  from scan_edges_in_range [OF range, of ?g1] small obtain g2 where
    g2: "scan_edges (int ?n) (map Some rs) ?g1 = Ok g2"
      "NodeLat g2 = NodeLat g1" "NodeLon g2 = NodeLon g1" "NodeControl g2 = NodeControl g1"
      "From g2 = map (nat \<circ> er_from) rs" "To g2 = map (nat \<circ> er_to) rs"
      "LengthM g2 = map (f32 \<circ> er_length) rs" "DBID g2 = map er_id rs" by auto
  have pos: "length rs \<noteq> 0" using ne elen rlen by simp
  have l2: "loadEdges (Some (int (length rs))) (Some \<lparr>rows = map Some rs, rows_err = False\<rparr>) g1 = Ok g2"
    using g2(1) pos nn small by (simp add: loadEdges_def Let_def NumNodes_def int32_id)
  have F: "From g2 = map (nat \<circ> eFromNode) es" "To g2 = map (nat \<circ> eToNode) es"
    using g2(5,6) rows(1,2) by (metis map_map)+
  have "NumNodes g2 = ?n" using g2(2) nn by (simp add: NumNodes_def)
  then have "endpoints_ok g2"
    using F(1) eok by (intro endpoints_from [OF F(1)]) (fastforce simp: edge_ok_def has_node_def)
  moreover have "sorted (From g2)"
  proof -
    have "sorted (map nat (map eFromNode es))"
      using sorted by (auto simp: sorted_iff_nth_mono nat_mono)
    then show ?thesis using F(1) by (simp add: comp_def)
  qed
  ultimately obtain x where g3: "buildOffsets g2 = Ok (g2\<lparr>Offs := x\<rparr>)" using buildOffsets_Ok by metis
  let ?g4 = "ComputeNodeMaxLTS (g2\<lparr>Offs := x\<rparr>)"
  have D: "DBID ?g4 = map eID es" using g2(8) rows(4) by (simp add: ComputeNodeMaxLTS_def)
  have "0 \<le> eID e \<and> eID e < int (length es)" if "e \<in> set es" for e
    using that ok eset elen by (auto simp: built_ok_def in_set_conv_nth)
  then obtain g where g: "buildDBIndex ?g4 = Ok g" using buildDBIndex_dense [of ?g4] D by auto
  moreover obtain y where y: "g = ?g4\<lparr>dbIndex := y\<rparr>" using buildDBIndex_frame [OF g] by blast
  ultimately have load: "graph_Load (Some (int ?n)) (Some \<lparr>rows = map Some (map stored_node (Nodes b)), rows_err = False\<rparr>)
      (Some (int (length rs))) (Some \<lparr>rows = map Some rs, rows_err = False\<rparr>) = Ok g"
    using g1 l2 g3 by (simp add: graph_Load_def)
  have "LengthM g2 = map f32 (map er_length rs)" using g2(7) by simp
  then have "LengthM g2 = map (\<lambda>e. f32 (rounded 3 (eLengthM e))) es" unfolding rows(3) by (simp add: comp_def)
  then have "built_and_loaded b es g"
    using F D g1(2,3) g2(2,3) by (simp add: built_and_loaded_def y ComputeNodeMaxLTS_def comp_def stored_node_def)
  with load show ?thesis by blast
qed

section \<open>Rounding\<close>

text \<open>A small step in latitude and one in longitude, each no longer than its angle.\<close>

lemma DistanceM_le_angle:
  assumes "haversine a b \<le> (sin x)\<^sup>2" "0 \<le> x" "x \<le> pi / 2"
  shows "DistanceM a b \<le> 2 * EarthRadiusM * x"
proof -
  have s: "0 \<le> sin x" using assms by (intro sin_ge_zero) auto
  have "0 \<le> haversine a b" using haversine_dot [of a b] dot_bounds [of a b] by simp
  then have r: "0 \<le> sqrt (haversine a b)" "sqrt (haversine a b) \<le> sin x"
    using real_sqrt_le_mono [OF assms(1)] s by auto
  have "arcsin (sqrt (haversine a b)) \<le> arcsin (sin x)"
    using r s by (intro arcsin_le_arcsin) (auto intro: order_trans [of _ 0])
  also have "\<dots> = x" using assms by (intro arcsin_sin) auto
  finally show ?thesis using EarthRadiusM_pos by (simp add: DistanceM_def)
qed

lemma sin_sq_abs: "sin y * sin y = (sin \<bar>y\<bar>)\<^sup>2" for y :: real
  by (auto simp: abs_if power2_eq_square)

lemma DistanceM_step:
  assumes "\<bar>Lat b - Lat a\<bar> \<le> d" "\<bar>Lon b - Lon a\<bar> \<le> d" "d \<le> 1"
  shows "DistanceM a b \<le> 2 * EarthRadiusM * d * pi / 180"
proof -
  let ?c = "\<lparr>Lat = Lat b, Lon = Lon a\<rparr>"
  have d0: "0 \<le> d" using assms(1) by linarith
  let ?x = "\<bar>Lat b - Lat a\<bar> * pi / 360" and ?y = "\<bar>Lon b - Lon a\<bar> * pi / 360"
  have small: "z * pi / 360 \<le> pi / 2" if "0 \<le> z" "z \<le> d" for z
    using that assms(3) mult_right_mono [of z 180 pi] by simp
  have "haversine a ?c = (sin ?x)\<^sup>2"
  proof -
    have "(Lat b * pi / 180 - Lat a * pi / 180) / 2 = (Lat b - Lat a) * pi / 360" by (simp add: field_simps)
    then have "haversine a ?c = sin ((Lat b - Lat a) * pi / 360) * sin ((Lat b - Lat a) * pi / 360)"
      unfolding haversine_def Let_def by (simp only: LatLon.simps) simp
    also have "\<dots> = (sin ?x)\<^sup>2" unfolding sin_sq_abs by (simp add: abs_mult)
    finally show ?thesis .
  qed
  then have 1: "DistanceM a ?c \<le> 2 * EarthRadiusM * ?x"
    using small assms(1) by (intro DistanceM_le_angle) auto
  have "haversine ?c b \<le> (sin ?y)\<^sup>2"
  proof -
    have "(Lon b - Lon a) * pi / 180 / 2 = (Lon b - Lon a) * pi / 360" by simp
    then have "haversine ?c b = (cos (Lat b * pi / 180))\<^sup>2 * (sin ((Lon b - Lon a) * pi / 360) * sin ((Lon b - Lon a) * pi / 360))"
      by (simp add: haversine_def Let_def power2_eq_square)
    also have "\<dots> = (cos (Lat b * pi / 180))\<^sup>2 * (sin ?y)\<^sup>2" unfolding sin_sq_abs by (simp add: abs_mult)
    also have "\<dots> \<le> 1 * (sin ?y)\<^sup>2"
      using cos_squared_eq [of "Lat b * pi / 180"] by (intro mult_right_mono) auto
    finally show ?thesis by simp
  qed
  then have 2: "DistanceM ?c b \<le> 2 * EarthRadiusM * ?y"
    using small assms(2) by (intro DistanceM_le_angle) auto
  have "2 * EarthRadiusM * ?x + 2 * EarthRadiusM * ?y \<le> 2 * EarthRadiusM * (d * pi / 360) + 2 * EarthRadiusM * (d * pi / 360)"
    using assms less_imp_le [OF EarthRadiusM_pos] by (intro add_mono mult_left_mono divide_right_mono mult_right_mono) auto
  then show ?thesis using 1 2 great_circle.d_triangle [of a b ?c] by simp
qed

lemma stored_loc_near: "DistanceM (stored_loc p) p \<le> 15 / 1000"
proof -
  have "\<bar>rounded 7 v - v\<bar> \<le> 5 / 10 ^ 8" for v using rounded_error [of 7 v] by simp
  then have "DistanceM (stored_loc p) p \<le> 2 * EarthRadiusM * (5 / 10 ^ 8) * pi / 180"
    by (intro DistanceM_step) (simp_all add: stored_loc_def coordPrecision_def abs_minus_commute)
  also have "\<dots> = pi * (2 * EarthRadiusM * (5 / 10 ^ 8) / 180)" by simp
  also have "\<dots> \<le> 4 * (2 * EarthRadiusM * (5 / 10 ^ 8) / 180)"
    using pi_less_4 less_imp_le [OF EarthRadiusM_pos] by (intro mult_right_mono) auto
  also have "\<dots> \<le> 15 / 1000" by (simp add: EarthRadiusM_def)
  finally show ?thesis .
qed

text \<open>
  The loaded edges are no shorter than the straight line, less 31 mm for the coordinates and the
  millimetre column, and less what rounding a length up to \<open>L\<close> metres to \<open>float32\<close> loses.
\<close>

lemma loaded_straight:
  assumes ok: "built_ok nodes b" and perm: "mset es = mset (Edges b)"
    and bl: "built_and_loaded b es g" and L: "\<forall>e\<in>set es. eLengthM e \<le> L" "1 \<le> L"
  shows "straight g (31 / 1000 + (L + 1) / 2 ^ 24)"
proof -
  have eset: "set es = set (Edges b)" using perm by (metis set_mset_mset)
  have "DistanceM (node_pos g (From g ! k)) (node_pos g (To g ! k)) \<le> LengthM g ! k + (31 / 1000 + (L + 1) / 2 ^ 24)"
    if k: "k < NumEdges g" for k
  proof -
    let ?e = "es ! k"
    have k': "k < length es" using k bl by (simp add: NumEdges_def built_and_loaded_def)
    then have e: "edge_ok b ?e" using built_ok_edges [OF ok] eset by auto
    have pos: "node_pos g (nat i) = stored_loc (nLoc (node_at b i))" if "has_node b i" for i
      using that bl by (auto simp: node_pos_def built_and_loaded_def has_node_def node_at_def)
    let ?p = "nLoc (node_at b (eFromNode ?e))" and ?q = "nLoc (node_at b (eToNode ?e))"
    have ft: "node_pos g (From g ! k) = stored_loc ?p" "node_pos g (To g ! k) = stored_loc ?q"
      using e k' bl pos by (auto simp: built_and_loaded_def edge_ok_def)
    have len: "LengthM g ! k = f32 (rounded 3 (eLengthM ?e))"
      using k' bl by (simp add: built_and_loaded_def)
    have r3: "\<bar>rounded 3 (eLengthM ?e) - eLengthM ?e\<bar> \<le> 1 / 2000" using rounded_error [of 3] by simp
    have "\<bar>rounded 3 (eLengthM ?e)\<bar> \<le> L + 1"
    proof -
      have "eLengthM ?e \<le> L" using L(1) nth_mem [OF k'] by blast
      moreover have "0 < eLengthM ?e" using e unfolding edge_ok_def by blast
      ultimately show ?thesis using r3 by linarith
    qed
    moreover have "2 powr (- 126) \<le> L + 1"
      using powr_mono [of "- 126" 0 "2::real"] L by simp
    ultimately have "\<bar>f32 (rounded 3 (eLengthM ?e)) - rounded 3 (eLengthM ?e)\<bar> \<le> (L + 1) / 2 ^ 24"
      by (rule f32_error_at_scale)
    then have "eLengthM ?e \<le> LengthM g ! k + 1 / 2000 + (L + 1) / 2 ^ 24" using r3 len by linarith
    moreover have "DistanceM ?p ?q \<le> eLengthM ?e" by (rule edge_not_shorter [OF e])
    moreover have "DistanceM (stored_loc ?p) (stored_loc ?q) \<le> 15 / 1000 + DistanceM ?p ?q + 15 / 1000"
      using great_circle.d_triangle [of "stored_loc ?p" "stored_loc ?q" ?p]
        great_circle.d_triangle [of ?p "stored_loc ?q" ?q] stored_loc_near [of ?p] stored_loc_near [of ?q]
        great_circle.d_sym [of ?q "stored_loc ?q"] by linarith
    ultimately show ?thesis unfolding ft by simp
  qed
  then show ?thesis using L(2) by (simp add: straight_def)
qed

end
