(* ===== verification/Example_Extract.thy ===== *)
theory Example_Extract
  imports Ingest_Load
begin

text \<open>
  A small extract on which the theorems on the ingest are applied: a one-way street from node 10 to
  node 20 through the shape node 15, and a footway that is closed to cyclists.
\<close>

definition street_tags :: tags where
  "street_tags k = (if k = ''highway'' then ''residential'' else if k = ''oneway'' then ''yes''
     else if k = ''cycleway:left'' then ''lane'' else if k = ''cycleway:right'' then ''track''
     else if k = ''maxspeed'' then ''mph'' else [])"

definition quiet_tags :: tags where
  "quiet_tags k = (if k = ''highway'' then ''residential'' else if k = ''oneway'' then ''yes'' else [])"

definition footway_tags :: tags where
  "footway_tags k = (if k = ''highway'' then ''footway'' else [])"

definition demo_extract :: "osm_way pass" where
  "demo_extract = \<lparr>objects = [\<lparr>way_id = 1, way_tags = quiet_tags, way_nodes = [10, 15, 20]\<rparr>,
     \<lparr>way_id = 2, way_tags = footway_tags, way_nodes = [15, 30]\<rparr>], pass_err = False\<rparr>"

lemma quiet_routable: "Routable quiet_tags"
  by (simp add: Routable_def quiet_tags_def excludedHighways_def permissionRequiredHighways_def
      allowedHighways_def ToLower_def)

lemma footway_closed: "\<not> Routable footway_tags"
  by (simp add: Routable_def footway_tags_def excludedHighways_def permissionRequiredHighways_def ToLower_def)

lemma quiet_parses: "\<exists>a. ParseWay quiet_tags = Ok a \<and> wForward a \<and> \<not> wBackward a"
proof -
  have "directions quiet_tags = (True, False)" by code_simp
  moreover have "parseMaxSpeedMPH (quiet_tags ''maxspeed'') = Ok None" by code_simp
  ultimately show ?thesis by (simp add: ParseWay_def)
qed

definition demo_attrs :: WayAttrs where
  "demo_attrs = ok_val (ParseWay quiet_tags)"

lemma demo_attrs: "ParseWay quiet_tags = Ok demo_attrs" "wForward demo_attrs" "\<not> wBackward demo_attrs"
  using quiet_parses by (auto simp: demo_attrs_def)

definition demo_scan :: ScanResult where
  "demo_scan = \<lparr>Ways = [\<lparr>wrID = 1, wrAttrs = demo_attrs, wrNodes = [10, 15, 20]\<rparr>],
     NodeUse = [10 \<mapsto> 2, 15 \<mapsto> 1, 20 \<mapsto> 2]\<rparr>"

lemma demo_scanned: "ScanWays (Some demo_extract) = Ok demo_scan"
  by (simp add: ScanWays_def demo_extract_def quiet_routable footway_closed scan_way_def demo_attrs
      demo_scan_def touch_def uses_def Let_def fun_eq_iff)

definition demo_locs :: "int \<Rightarrow> NodeData option" where
  "demo_locs = [10 \<mapsto> \<lparr>ndLoc = \<lparr>Lat = 0, Lon = 0\<rparr>, ndControl = ''signal''\<rparr>,
     15 \<mapsto> \<lparr>ndLoc = \<lparr>Lat = 0, Lon = 0\<rparr>, ndControl = []\<rparr>,
     20 \<mapsto> \<lparr>ndLoc = \<lparr>Lat = 0, Lon = 180\<rparr>, ndControl = []\<rparr>]"

lemma demo_length: "polyline_length [\<lparr>Lat = 0, Lon = 0\<rparr>, \<lparr>Lat = 0, Lon = 0\<rparr>, \<lparr>Lat = 0, Lon = 180\<rparr>] = pi * EarthRadiusM"
proof -
  have "haversine \<lparr>Lat = 0, Lon = 0\<rparr> \<lparr>Lat = 0, Lon = 180\<rparr> = 1" by (simp add: haversine_def)
  then have "DistanceM \<lparr>Lat = 0, Lon = 0\<rparr> \<lparr>Lat = 0, Lon = 180\<rparr> = pi * EarthRadiusM"
    by (simp add: DistanceM_def arcsin_1)
  then show ?thesis using great_circle.d_self [of "\<lparr>Lat = 0, Lon = 0\<rparr>"]
    by (simp add: polyline_length_def numeral_3_eq_3)
qed

lemma demo_built:
  "\<exists>e. Edges (Build demo_scan demo_locs) = [e] \<and> eLengthM e = pi * EarthRadiusM \<and>
     length (Nodes (Build demo_scan demo_locs)) = 2"
proof -
  have pos: "\<not> pi * EarthRadiusM \<le> 0" using EarthRadiusM_pos by (simp add: mult_le_0_iff not_le)
  have seg: "all_segments demo_scan = [(\<lparr>wrID = 1, wrAttrs = demo_attrs, wrNodes = [10, 15, 20]\<rparr>, [10, 15, 20])]"
    by (simp add: all_segments_def demo_scan_def way_segments_def IsSplitPoint_def uses_def)
  have "shape_of demo_locs [10, 15, 20] = Some [\<lparr>Lat = 0, Lon = 0\<rparr>, \<lparr>Lat = 0, Lon = 0\<rparr>, \<lparr>Lat = 0, Lon = 180\<rparr>]"
    by (simp add: demo_locs_def)
  then show ?thesis
    unfolding Build_all_segments seg
    using pos by (simp add: addSegment_def demo_length Let_def intern_def empty_built_def demo_attrs
        demo_locs_def add_edge_def split: prod.splits)
qed

definition stored_edge :: "Edge \<Rightarrow> edge_row" where
  "stored_edge e = \<lparr>er_id = eID e, er_from = eFromNode e, er_to = eToNode e,
     er_length = rounded 3 (eLengthM e), er_highway = wHighway (eAttrs e),
     er_infra = InfraClass_text (wInfra (eAttrs e)), er_speed = wMaxSpeedMPH (eAttrs e),
     er_lanes = wLanes (eAttrs e), er_lit = wLit (eAttrs e), er_lts = None, er_crash = None,
     er_grade = None, er_surface = [], er_bstart = 0, er_bend = 0\<rparr>"

lemma stored_edge_stores: "stores (stored_edge e) e"
  by (simp add: stores_def stored_edge_def)

end
