(* ===== verification/Accounts.thy ===== *)
theory Accounts
  imports Go_Strings Transactions
begin

text \<open>
  The package \<open>internal/auth\<close>: passwords, addresses, the account table and access tokens.

  The table \<open>user_account\<close> is a list of rows, on which the statements of \<open>store.go\<close> are written out,
  its unique index on \<open>lower(email)\<close> included; \<open>fault\<close> says that the database fails otherwise.  The
  libraries for bcrypt and JSON web tokens are parameters.  What is relied on is named:
  \<open>bcrypt_ok\<close> (a hash matches the password it was made from and, among the at most 72 bytes bcrypt
  reads, no other, and longer passwords are refused) and \<open>jwt_ok\<close> (a token parses to the claims
  that were signed with the same secret, within their period and for their issuer, and to nothing
  otherwise).
\<close>

section \<open>Runes\<close>

text \<open>The width of the first UTF-8 sequence; a byte that starts none counts as a rune of its own.\<close>

definition is_cont :: "nat \<Rightarrow> nat \<Rightarrow> string \<Rightarrow> nat \<Rightarrow> bool" where
  "is_cont lo hi s i \<longleftrightarrow> i < length s \<and> lo \<le> (of_char (s ! i) :: nat) \<and> (of_char (s ! i) :: nat) \<le> hi"

definition rune_width :: "string \<Rightarrow> nat" where
  "rune_width s =
     (let b = (of_char (hd s) :: nat); tail = is_cont 128 191 s;
          second = is_cont (if b = 224 then 160 else if b = 240 then 144 else 128)
            (if b = 237 then 159 else if b = 244 then 143 else 191) s
      in if 194 \<le> b \<and> b \<le> 223 \<and> second 1 then 2
         else if 224 \<le> b \<and> b \<le> 239 \<and> second 1 \<and> tail 2 then 3
         else if 240 \<le> b \<and> b \<le> 244 \<and> second 1 \<and> tail 2 \<and> tail 3 then 4
         else 1)"

lemma rune_width_pos: "0 < rune_width s"
  by (simp add: rune_width_def Let_def)

function rune_count :: "string \<Rightarrow> nat" where
  "rune_count s = (if s = [] then 0 else Suc (rune_count (drop (rune_width s) s)))"
  by auto
termination by (relation "measure length") (auto simp: rune_width_pos)

declare rune_count.simps [simp del]

lemma rune_count_le: "rune_count s \<le> length s"
proof (induction s rule: rune_count.induct)
  case (1 s)
  show ?case
  proof (cases "s = []")
    case True
    then show ?thesis by (simp add: rune_count.simps)
  next
    case False
    then have "length (drop (rune_width s) s) < length s" using rune_width_pos [of s] by simp
    then have "Suc (rune_count (drop (rune_width s) s)) \<le> length s" using 1 False by simp
    then show ?thesis using False by (subst rune_count.simps) simp
  qed
qed

lemma rune_count_ascii: "\<forall>c\<in>set s. (of_char c :: nat) < 128 \<Longrightarrow> rune_count s = length s"
proof (induction s)
  case (Cons c s)
  then have "rune_width (c # s) = 1" by (simp add: rune_width_def Let_def)
  then show ?case using Cons by (subst rune_count.simps) simp
qed (simp add: rune_count.simps)

section \<open>Passwords\<close>

definition MinPasswordLen :: nat where "MinPasswordLen = 10"
definition MaxPasswordLen :: nat where "MaxPasswordLen = 200"

datatype password_problem = TooShort | TooLong
datatype email_problem = EmailLength | EmailParts | EmailAts | EmailSpace
datatype auth_error = ErrInvalidCredentials | ErrWeakPassword password_problem | ErrInvalidEmail email_problem
  | ErrEmailTaken | HashFailed | StoreFailed

definition ValidatePassword :: "string \<Rightarrow> auth_error option" where
  "ValidatePassword p =
     (if rune_count p < MinPasswordLen then Some (ErrWeakPassword TooShort)
      else if length p > MaxPasswordLen then Some (ErrWeakPassword TooLong)
      else None)"

text \<open>\<open>generate\<close> is \<open>bcrypt.GenerateFromPassword\<close> in this call, \<open>matches\<close> \<open>CompareHashAndPassword\<close>.\<close>

definition HashPassword :: "(string \<Rightarrow> string option) \<Rightarrow> string \<Rightarrow> (auth_error, string) outcome" where
  "HashPassword generate plain =
     (case ValidatePassword plain of
        Some e \<Rightarrow> Err e
      | None \<Rightarrow> (case generate plain of None \<Rightarrow> Err HashFailed | Some h \<Rightarrow> Ok h))"

definition CheckPassword :: "(string \<Rightarrow> string \<Rightarrow> bool) \<Rightarrow> string \<Rightarrow> string \<Rightarrow> auth_error option" where
  "CheckPassword matches h plain = (if matches h plain then None else Some ErrInvalidCredentials)"

section \<open>Addresses\<close>

definition NormaliseEmail :: "string \<Rightarrow> string" where
  "NormaliseEmail e = ToLower (TrimSpace e)"

fun IndexByte :: "string \<Rightarrow> char \<Rightarrow> int" where
  "IndexByte [] b = - 1"
| "IndexByte (c # s) b = (if c = b then 0 else let i = IndexByte s b in if i < 0 then - 1 else i + 1)"

definition ValidateEmail :: "string \<Rightarrow> auth_error option" where
  "ValidateEmail e =
     (if length e < 3 \<or> length e > 254 then Some (ErrInvalidEmail EmailLength)
      else let i = IndexByte e (CHR ''@'')
           in if i \<le> 0 \<or> i = int (length e) - 1 then Some (ErrInvalidEmail EmailParts)
              else if count_list e (CHR ''@'') \<noteq> 1 then Some (ErrInvalidEmail EmailAts)
              else if \<exists>c\<in>set e. c \<in> {CHR '' '', CHR 0x09, CHR 0x0A, CHR 0x0D} then Some (ErrInvalidEmail EmailSpace)
              else None)"

section \<open>The account table\<close>

record User =
  uID :: string
  uEmail :: string
  uDisplayName :: string
  uCreatedAt :: int

record account =
  ac_id :: string
  ac_email :: string
  ac_hash :: string
  ac_display :: "string option"
  ac_created :: int

definition user_of :: "account \<Rightarrow> User" where
  "user_of a = \<lparr>uID = ac_id a, uEmail = ac_email a,
     uDisplayName = (case ac_display a of None \<Rightarrow> [] | Some d \<Rightarrow> d), uCreatedAt = ac_created a\<rparr>"

text \<open>\<open>newid\<close> and \<open>now\<close> are the row's defaults.  A violated unique index stores nothing.\<close>

definition Register :: "(string \<Rightarrow> string option) \<Rightarrow> bool \<Rightarrow> string \<Rightarrow> int \<Rightarrow> string \<Rightarrow> string \<Rightarrow> string \<Rightarrow>
    account list \<Rightarrow> (auth_error, User) outcome \<times> account list" where
  "Register generate fault newid now email password displayName tab =
     (let email = NormaliseEmail email
      in case ValidateEmail email of
           Some e \<Rightarrow> (Err e, tab)
         | None \<Rightarrow>
             (case HashPassword generate password of
                Err e \<Rightarrow> (Err e, tab)
              | Panic \<Rightarrow> (Panic, tab)
              | Ok h \<Rightarrow>
                  if fault then (Err StoreFailed, tab)
                  else if \<exists>a\<in>set tab. ToLower (ac_email a) = ToLower email then (Err ErrEmailTaken, tab)
                  else let a = \<lparr>ac_id = newid, ac_email = email, ac_hash = h,
                         ac_display = (if displayName = [] then None else Some displayName), ac_created = now\<rparr>
                       in (Ok (user_of a), tab @ [a])))"

definition Authenticate :: "(string \<Rightarrow> string \<Rightarrow> bool) \<Rightarrow> bool \<Rightarrow> string \<Rightarrow> string \<Rightarrow> account list \<Rightarrow>
    (auth_error, User) outcome" where
  "Authenticate matches fault email password tab =
     (let email = NormaliseEmail email
      in if fault then Err StoreFailed
         else case find (\<lambda>a. ToLower (ac_email a) = email) tab of
           None \<Rightarrow> Err ErrInvalidCredentials
         | Some a \<Rightarrow>
             (case CheckPassword matches (ac_hash a) password of
                Some e \<Rightarrow> Err ErrInvalidCredentials
              | None \<Rightarrow> Ok (user_of a)))"

definition ByID :: "bool \<Rightarrow> string \<Rightarrow> account list \<Rightarrow> (auth_error, User) outcome" where
  "ByID fault i tab =
     (if fault then Err StoreFailed
      else case find (\<lambda>a. ac_id a = i) tab of None \<Rightarrow> Err StoreFailed | Some a \<Rightarrow> Ok (user_of a))"

section \<open>Tokens\<close>

definition TokenTTL :: int where "TokenTTL = 24 * 3600"
definition Issuer :: string where "Issuer = ''viatuta''"

record Claims =
  clEmail :: string
  Subject :: string
  clIssuer :: string
  IssuedAt :: int
  NotBefore :: int
  ExpiresAt :: int

datatype token_error = ErrInvalidToken | ErrNoSecret | SigningFailed

record Signer =
  secret :: string

definition NewSigner :: "string \<Rightarrow> (token_error, Signer) outcome" where
  "NewSigner s = (if length s < 16 then Err ErrNoSecret else Ok \<lparr>secret = s\<rparr>)"

text \<open>\<open>sign\<close> is \<open>SignedString\<close> with HS256: from the secret and the claims to the token.\<close>

definition Issue :: "(string \<Rightarrow> Claims \<Rightarrow> string option) \<Rightarrow> int \<Rightarrow> Signer \<Rightarrow> string \<Rightarrow> string \<Rightarrow>
    (token_error, string \<times> int) outcome" where
  "Issue sign now sg userID email =
     (let expires = now + TokenTTL;
          claims = \<lparr>clEmail = email, Subject = userID, clIssuer = Issuer, IssuedAt = now, NotBefore = now,
            ExpiresAt = expires\<rparr>
      in case sign (secret sg) claims of None \<Rightarrow> Err SigningFailed | Some t \<Rightarrow> Ok (t, expires))"

text \<open>
  \<open>parse s algs issuer now t\<close> is \<open>ParseWithClaims\<close> with the options \<open>Verify\<close> gives: the accepted
  algorithms, the issuer, and that an expiry is required.
\<close>

definition Verify :: "(string \<Rightarrow> string list \<Rightarrow> string \<Rightarrow> int \<Rightarrow> string \<Rightarrow> Claims option) \<Rightarrow> int \<Rightarrow> Signer \<Rightarrow> string \<Rightarrow>
    (token_error, Claims) outcome" where
  "Verify parse now sg t =
     (case parse (secret sg) [''HS256''] Issuer now t of
        None \<Rightarrow> Err ErrInvalidToken
      | Some c \<Rightarrow> if Subject c = [] then Err ErrInvalidToken else Ok c)"

section \<open>What is relied on\<close>

text \<open>bcrypt reads up to 72 bytes and sees a zero byte as the end of a repetition of the password.\<close>

definition plain_password :: "string \<Rightarrow> bool" where
  "plain_password p \<longleftrightarrow> length p \<le> 72 \<and> CHR 0x00 \<notin> set p"

definition bcrypt_ok :: "(string \<Rightarrow> string option) \<Rightarrow> (string \<Rightarrow> string \<Rightarrow> bool) \<Rightarrow> bool" where
  "bcrypt_ok generate matches \<longleftrightarrow> (\<forall>p. generate p = None \<longleftrightarrow> 72 < length p) \<and>
     (\<forall>p h q. generate p = Some h \<longrightarrow> plain_password p \<longrightarrow> plain_password q \<longrightarrow> (matches h q \<longleftrightarrow> q = p))"

definition jwt_ok :: "(string \<Rightarrow> Claims \<Rightarrow> string option) \<Rightarrow>
    (string \<Rightarrow> string list \<Rightarrow> string \<Rightarrow> int \<Rightarrow> string \<Rightarrow> Claims option) \<Rightarrow> bool" where
  "jwt_ok sign parse \<longleftrightarrow> (\<forall>s c. sign s c \<noteq> None) \<and>
     (\<forall>s c t algs iss now. sign s c = Some t \<longrightarrow> parse s algs iss now t =
        (if ''HS256'' \<in> set algs \<and> clIssuer c = iss \<and> NotBefore c \<le> now \<and> now < ExpiresAt c
         then Some c else None))"

section \<open>The table's invariant\<close>

lemma lower_char_idem [simp]: "lower_char (lower_char c) = lower_char c"
proof -
  have "(of_char (char_of (of_char c + 32 :: nat)) :: nat) = of_char c + 32" if "of_char c \<le> (90 :: nat)"
    using that by simp
  then show ?thesis by (auto simp: lower_char_def)
qed

lemma ToLower_idem [simp]: "ToLower (ToLower s) = ToLower s"
  by (simp add: ToLower_def)

lemma ToLower_Normalise [simp]: "ToLower (NormaliseEmail e) = NormaliseEmail e"
  by (simp add: NormaliseEmail_def)

definition accounts_ok :: "account list \<Rightarrow> bool" where
  "accounts_ok tab \<longleftrightarrow> distinct (map ac_email tab) \<and>
     (\<forall>a\<in>set tab. ToLower (ac_email a) = ac_email a)"

lemma accounts_ok_lower: "accounts_ok tab \<Longrightarrow> a \<in> set tab \<Longrightarrow> ToLower (ac_email a) = ac_email a"
  by (simp add: accounts_ok_def)

lemma Register_cases:
  obtains (failed) e where "Register generate fault newid now email password name tab = (Err e, tab)"
  | (stored) h a where "Register generate fault newid now email password name tab = (Ok (user_of a), tab @ [a])"
    "a = \<lparr>ac_id = newid, ac_email = NormaliseEmail email, ac_hash = h,
       ac_display = (if name = [] then None else Some name), ac_created = now\<rparr>"
    "generate password = Some h" "ValidatePassword password = None" "ValidateEmail (NormaliseEmail email) = None"
    "\<forall>b\<in>set tab. ToLower (ac_email b) \<noteq> NormaliseEmail email"
proof (cases "ValidateEmail (NormaliseEmail email)")
  case (Some e)
  then show ?thesis using failed [of e] by (simp add: Register_def Let_def)
next
  case mail: None
  show ?thesis
  proof (cases "HashPassword generate password")
    case (Ok h)
    then have h: "generate password = Some h" "ValidatePassword password = None"
      by (auto simp: HashPassword_def split: option.splits)
    consider "fault" | "\<not> fault" "\<exists>b\<in>set tab. ToLower (ac_email b) = NormaliseEmail email"
      | "\<not> fault" "\<not> (\<exists>b\<in>set tab. ToLower (ac_email b) = NormaliseEmail email)" by blast
    then show ?thesis
    proof cases
      case 1
      then show ?thesis using failed [of StoreFailed] mail Ok by (simp add: Register_def Let_def)
    next
      case 2
      then show ?thesis using failed [of ErrEmailTaken] mail Ok by (simp add: Register_def Let_def)
    next
      case 3
      then show ?thesis using stored [OF _ refl h mail] mail Ok by (simp add: Register_def Let_def)
    qed
  next
    case (Err e)
    then show ?thesis using failed [of e] mail by (simp add: Register_def Let_def)
  next
    case Panic
    then show ?thesis by (simp add: HashPassword_def split: option.splits)
  qed
qed

lemma Register_ok:
  assumes "accounts_ok tab"
  shows "accounts_ok (snd (Register generate fault newid now email password name tab))"
proof (cases generate fault newid now email password name tab rule: Register_cases)
  case (stored h a)
  then have "ac_email a \<notin> ac_email ` set tab" using accounts_ok_lower [OF assms] by auto
  then show ?thesis using assms stored by (auto simp: accounts_ok_def)
qed (use assms in simp)

lemma find_snoc: "find P (xs @ [x]) = (case find P xs of None \<Rightarrow> if P x then Some x else None | Some y \<Rightarrow> Some y)"
  by (induction xs) auto

lemma Authenticate_registered:
  assumes r: "Register generate f newid now email password name tab = (Ok u, tab')"
    and bc: "bcrypt_ok generate matches" and pw: "plain_password password" "plain_password attempt"
    and same: "NormaliseEmail email' = NormaliseEmail email"
  shows "Authenticate matches False email' attempt tab' =
    (if attempt = password then Ok u else Err ErrInvalidCredentials)"
proof (cases generate f newid now email password name tab rule: Register_cases)
  case (stored h a)
  then have t: "tab' = tab @ [a]" "u = user_of a" using r by simp_all
  have "find (\<lambda>b. ToLower (ac_email b) = NormaliseEmail email') tab = None"
    using stored(6) same by (auto simp: find_None_iff)
  moreover have "matches (ac_hash a) attempt \<longleftrightarrow> attempt = password"
    using bc stored(2,3) pw by (simp add: bcrypt_ok_def)
  ultimately show ?thesis using stored(2) same t
    by (simp add: Authenticate_def Let_def find_snoc CheckPassword_def)
qed (use r in simp)

lemma Authenticate_others:
  assumes r: "Register generate f newid now email password name tab = (res, tab')"
    and other: "NormaliseEmail email' \<noteq> NormaliseEmail email"
  shows "Authenticate matches fault email' attempt tab' = Authenticate matches fault email' attempt tab"
proof (cases generate f newid now email password name tab rule: Register_cases)
  case (stored h a)
  then have "find (\<lambda>b. ToLower (ac_email b) = NormaliseEmail email') tab' =
      find (\<lambda>b. ToLower (ac_email b) = NormaliseEmail email') tab"
    using r other by (auto simp: find_snoc split: option.splits)
  then show ?thesis by (simp add: Authenticate_def Let_def)
qed (use r in simp)

lemma Register_again:
  assumes "Register generate f newid now email password name tab = (Ok u, tab')"
    and "NormaliseEmail email' = NormaliseEmail email"
  shows "snd (Register generate' f' newid' now' email' password' name' tab') = tab' \<and>
    (HashPassword generate' password' = Ok h' \<longrightarrow> \<not> f' \<longrightarrow>
      Register generate' f' newid' now' email' password' name' tab' = (Err ErrEmailTaken, tab'))"
proof (cases generate f newid now email password name tab rule: Register_cases)
  case (stored h a)
  then have "a \<in> set tab'" "ToLower (ac_email a) = NormaliseEmail email'" "ValidateEmail (NormaliseEmail email') = None"
    using assms by simp_all
  then show ?thesis by (auto simp: Register_def Let_def split: option.splits outcome.splits)
qed (use assms in simp)

text \<open>A token is good from its issue until its lifetime is over.\<close>

lemma Verify_Issue:
  assumes "jwt_ok sign parse" and "Issue sign now sg uid email = Ok (t, expires)" and "uid \<noteq> []"
  shows "Verify parse later sg t = (if now \<le> later \<and> later < now + TokenTTL
    then Ok \<lparr>clEmail = email, Subject = uid, clIssuer = Issuer, IssuedAt = now, NotBefore = now,
      ExpiresAt = now + TokenTTL\<rparr> else Err ErrInvalidToken)"
  using assms by (auto simp: Verify_def Issue_def jwt_ok_def Let_def split: option.splits)

interpretation registering: transaction "Register generate fault newid now email password name" "\<lambda>_. False"
  for generate fault newid now email password name
  by unfold_locales (auto simp: Register_def Let_def split: option.splits outcome.splits if_splits)

end
