(* ===== verification/Saved_Routes.thy ===== *)
theory Saved_Routes
  imports Accounts Geo Safety_Cost
begin

text \<open>
  The package \<open>internal/savedroute\<close>.  The table \<open>saved_route\<close> is a list of rows, on which the
  statements are written out; \<open>fault\<close> says that the database fails.  A geometry is stored as the
  GeoJSON text PostGIS answers for the WKT text it was given: \<open>postgis\<close> (\<open>None\<close> where it rejects the
  text) and \<open>coords\<close> (the decoded coordinates of a GeoJSON text) are parameters, and \<open>postgis_ok\<close> says
  what is relied on: a geometry comes back with the numbers its WKT text has.  A profile is stored
  as the JSON object it is, and is kept here as it is.
\<close>

section \<open>Routes\<close>

definition MaxNameLen :: nat where "MaxNameLen = 120"

datatype route_error = NameRequired | NameTooLong | ErrNotFound | RouteStoreFailed

record Route =
  rtID :: string
  rtName :: string
  rtWaypoints :: "LatLon list"
  rtDistanceM :: real
  rtDurationS :: "int option"
  rtSafetyScore :: "real option"
  rtProfile :: Profile
  rtCreatedAt :: int
  rtGeometry :: "LatLon list"

record Input =
  inName :: string
  inWaypoints :: "LatLon list"
  inGeometry :: "LatLon list"
  inDistanceM :: real
  inDurationS :: int
  inSafetyScore :: real
  inProfile :: Profile

definition ValidateName :: "string \<Rightarrow> (route_error, string) outcome" where
  "ValidateName n =
     (let n = TrimSpace n
      in if n = [] then Err NameRequired
         else if rune_count n > MaxNameLen then Err NameTooLong
         else Ok n)"

section \<open>Geometry\<close>

fun wkt_points :: "string \<Rightarrow> string \<Rightarrow> LatLon list \<Rightarrow> string" where
  "wkt_points lp rp [] = []"
| "wkt_points lp rp [p] = lp @ FormatFloat (Lon p) 7 @ '' '' @ FormatFloat (Lat p) 7 @ rp"
| "wkt_points lp rp (p # q # ps) =
     lp @ FormatFloat (Lon p) 7 @ '' '' @ FormatFloat (Lat p) 7 @ rp @ '','' @ wkt_points lp rp (q # ps)"

definition multiPointWKT :: "LatLon list \<Rightarrow> string" where
  "multiPointWKT pts = ''MULTIPOINT('' @ wkt_points ''('' '')'' pts @ '')''"

definition lineStringWKT :: "LatLon list \<Rightarrow> string" where
  "lineStringWKT pts = ''LINESTRING('' @ wkt_points [] [] pts @ '')''"

definition toLatLons :: "real list list \<Rightarrow> LatLon list" where
  "toLatLons coords = map (\<lambda>c. \<lparr>Lat = c ! 1, Lon = c ! 0\<rparr>) (filter (\<lambda>c. length c \<ge> 2) coords)"

definition decodeGeometry :: "(string \<Rightarrow> real list list option) \<Rightarrow> string \<Rightarrow> LatLon list" where
  "decodeGeometry coords raw = (case coords raw of None \<Rightarrow> [] | Some cs \<Rightarrow> toLatLons cs)"

section \<open>The table\<close>

record saved_row =
  sv_id :: string
  sv_user :: string
  sv_name :: string
  sv_waypoints :: string
  sv_geom :: string
  sv_distance :: real
  sv_duration :: "int option"
  sv_score :: "real option"
  sv_profile :: Profile
  sv_created :: int

definition route_of :: "saved_row \<Rightarrow> LatLon list \<Rightarrow> LatLon list \<Rightarrow> Route" where
  "route_of r waypoints geometry =
     \<lparr>rtID = sv_id r, rtName = sv_name r, rtWaypoints = waypoints, rtDistanceM = sv_distance r,
      rtDurationS = sv_duration r, rtSafetyScore = sv_score r, rtProfile = sv_profile r,
      rtCreatedAt = sv_created r, rtGeometry = geometry\<rparr>"

text \<open>
  \<open>safety_score\<close> is a column of type \<open>real\<close>, so that it keeps a \<open>float32\<close>; \<open>duration_s\<close> is an
  \<open>integer\<close>, and one that does not fit is an error.
\<close>

definition Create :: "(string \<Rightarrow> string option) \<Rightarrow> bool \<Rightarrow> string \<Rightarrow> int \<Rightarrow> string \<Rightarrow> Input \<Rightarrow> saved_row list \<Rightarrow>
    (route_error, Route) outcome \<times> saved_row list" where
  "Create postgis fault newid now userID i tab =
     (case (postgis (multiPointWKT (inWaypoints i)), postgis (lineStringWKT (inGeometry i))) of
        (Some wp, Some geom) \<Rightarrow>
          if fault \<or> inDurationS i < - (2 ^ 31) \<or> 2 ^ 31 \<le> inDurationS i then (Err RouteStoreFailed, tab)
          else let r = \<lparr>sv_id = newid, sv_user = userID, sv_name = inName i, sv_waypoints = wp, sv_geom = geom,
                   sv_distance = inDistanceM i, sv_duration = Some (inDurationS i),
                   sv_score = Some (f32 (inSafetyScore i)), sv_profile = inProfile i, sv_created = now\<rparr>
               in (Ok (route_of r (inWaypoints i) []), tab @ [r])
      | _ \<Rightarrow> (Err RouteStoreFailed, tab))"

text \<open>\<open>newest\<close> is the order the database returns rows in: by creation, the newest first.\<close>

definition List_routes :: "(string \<Rightarrow> real list list option) \<Rightarrow> (saved_row list \<Rightarrow> saved_row list) \<Rightarrow> bool \<Rightarrow>
    string \<Rightarrow> int \<Rightarrow> saved_row list \<Rightarrow> (route_error, Route list) outcome" where
  "List_routes coords newest fault userID limit tab =
     (let limit = (if limit \<le> 0 \<or> limit > 200 then 50 else limit)
      in if fault then Err RouteStoreFailed
         else Ok (map (\<lambda>r. route_of r (decodeGeometry coords (sv_waypoints r)) [])
           (take (nat limit) (newest (filter (\<lambda>r. sv_user r = userID) tab)))))"

definition Get :: "(string \<Rightarrow> real list list option) \<Rightarrow> bool \<Rightarrow> string \<Rightarrow> string \<Rightarrow> saved_row list \<Rightarrow>
    (route_error, Route) outcome" where
  "Get coords fault userID i tab =
     (if fault then Err RouteStoreFailed
      else case find (\<lambda>r. sv_id r = i \<and> sv_user r = userID) tab of
        None \<Rightarrow> Err ErrNotFound
      | Some r \<Rightarrow> Ok (route_of r (decodeGeometry coords (sv_waypoints r)) (decodeGeometry coords (sv_geom r))))"

definition Delete :: "bool \<Rightarrow> string \<Rightarrow> string \<Rightarrow> saved_row list \<Rightarrow> route_error option \<times> saved_row list" where
  "Delete fault userID i tab =
     (if fault then (Some RouteStoreFailed, tab)
      else let doomed = (\<lambda>r. sv_id r = i \<and> sv_user r = userID)
           in (if filter doomed tab = [] then Some ErrNotFound else None, filter (\<lambda>r. \<not> doomed r) tab))"

section \<open>What PostGIS is relied on for\<close>

text \<open>The points a list of coordinates comes back as: seven decimals are kept.\<close>

definition point7 :: "LatLon \<Rightarrow> LatLon" where
  "point7 p = \<lparr>Lat = rounded 7 (Lat p), Lon = rounded 7 (Lon p)\<rparr>"

text \<open>The coordinates of a WKT text: after the word and its bracket, pairs separated by commas.\<close>

definition read_pair :: "string \<Rightarrow> real list option" where
  "read_pair s =
     (let body = filter (\<lambda>c. c \<noteq> CHR ''('' \<and> c \<noteq> CHR '')'') s
      in case split_on (CHR '' '') body of
           [x, y] \<Rightarrow> (case (ParseFloat x, ParseFloat y) of
              (Some (Fin a), Some (Fin b)) \<Rightarrow> Some [a, b] | _ \<Rightarrow> None)
         | _ \<Rightarrow> None)"

definition read_wkt :: "string \<Rightarrow> real list option list" where
  "read_wkt s = map read_pair (split_on (CHR '','') (tl (dropWhile (\<lambda>c. c \<noteq> CHR ''('') s)))"

definition postgis_ok :: "(string \<Rightarrow> string option) \<Rightarrow> (string \<Rightarrow> real list list option) \<Rightarrow> bool" where
  "postgis_ok postgis coords \<longleftrightarrow> (\<forall>s g cs. postgis s = Some g \<longrightarrow> read_wkt s = map Some cs \<longrightarrow>
     (\<forall>c\<in>set cs. \<forall>x\<in>set c. \<exists>v. x = rounded 7 v) \<longrightarrow> coords g = Some cs)"

section \<open>What was saved comes back\<close>

definition small_point :: "LatLon \<Rightarrow> bool" where
  "small_point p \<longleftrightarrow> \<bar>Lat p\<bar> < 10 ^ 300 \<and> \<bar>Lon p\<bar> < 10 ^ 300"

definition point_text :: "string \<Rightarrow> string \<Rightarrow> LatLon \<Rightarrow> string" where
  "point_text lp rp p = lp @ FormatFloat (Lon p) 7 @ '' '' @ FormatFloat (Lat p) 7 @ rp"

lemma number_text_chars:
  "c \<in> set (FormatFloat v 7) \<Longrightarrow> c \<noteq> CHR '' '' \<and> c \<noteq> CHR '','' \<and> c \<noteq> CHR ''('' \<and> c \<noteq> CHR '')''"
  using FormatFloat_chars [of c v 7] by (auto simp: is_digit_def)

lemma read_point_text:
  assumes "set (lp @ rp) \<subseteq> {CHR ''('', CHR '')''}" and "small_point p"
  shows "read_pair (point_text lp rp p) = Some [rounded 7 (Lon p), rounded 7 (Lat p)]"
proof -
  have keep: "filter (\<lambda>c. c \<noteq> CHR ''('' \<and> c \<noteq> CHR '')'') (FormatFloat v 7) = FormatFloat v 7" for v
    using number_text_chars by (auto simp: filter_id_conv)
  have drop: "filter (\<lambda>c. c \<noteq> CHR ''('' \<and> c \<noteq> CHR '')'') lp = []" "filter (\<lambda>c. c \<noteq> CHR ''('' \<and> c \<noteq> CHR '')'') rp = []"
    using assms(1) by (auto simp: filter_empty_conv)
  have none: "CHR '' '' \<notin> set (FormatFloat v 7)" for v using number_text_chars by blast
  have "split_on (CHR '' '') (FormatFloat (Lon p) 7 @ CHR '' '' # FormatFloat (Lat p) 7) =
      [FormatFloat (Lon p) 7, FormatFloat (Lat p) 7]"
    by (simp add: split_on_append [OF none] split_on_none [OF none])
  then show ?thesis using assms(2)
    by (simp add: read_pair_def point_text_def keep drop small_point_def ParseFloat_FormatFloat)
qed

lemma wkt_points_split:
  assumes "set (lp @ rp) \<subseteq> {CHR ''('', CHR '')''}" and "pts \<noteq> []"
  shows "split_on (CHR '','') (wkt_points lp rp pts @ '')'') =
    map (point_text lp rp) (butlast pts) @ [point_text lp (rp @ '')'') (last pts)]"
  using assms(2)
proof (induction pts rule: induct_list012)
  case (2 p)
  have "CHR '','' \<notin> set (point_text lp (rp @ '')'') p)" using assms(1) number_text_chars by (auto simp: point_text_def)
  then show ?case by (simp add: split_on_none point_text_def)
next
  case (3 p q ps)
  have "CHR '','' \<notin> set (point_text lp rp p)" using assms(1) number_text_chars by (auto simp: point_text_def)
  from split_on_append [OF this, of "wkt_points lp rp (q # ps) @ '')''"] 3 show ?case
    by (simp add: point_text_def)
qed simp

lemma read_points:
  assumes "set (lp @ rp) \<subseteq> {CHR ''('', CHR '')''}" and "pts \<noteq> []" and "\<forall>p\<in>set pts. small_point p"
  shows "map read_pair (split_on (CHR '','') (wkt_points lp rp pts @ '')'')) =
    map (\<lambda>p. Some [rounded 7 (Lon p), rounded 7 (Lat p)]) pts"
proof -
  have sub: "set (lp @ rp @ '')'') \<subseteq> {CHR ''('', CHR '')''}" using assms(1) by auto
  have "map (\<lambda>p. read_pair (point_text lp rp p)) (butlast pts) =
      map (\<lambda>p. Some [rounded 7 (Lon p), rounded 7 (Lat p)]) (butlast pts)"
    using assms(3) in_set_butlastD read_point_text [OF assms(1)] by (metis (no_types, lifting) map_eq_conv)
  moreover have "read_pair (point_text lp (rp @ '')'') (last pts)) = Some [rounded 7 (Lon (last pts)), rounded 7 (Lat (last pts))]"
    using read_point_text [of lp "rp @ '')''"] sub assms(2,3) by simp
  moreover have "map f pts = map f (butlast pts) @ [f (last pts)]" for f :: "LatLon \<Rightarrow> real list option"
    using assms(2) by (metis append_butlast_last_id list.map_disc_iff list.simps(9) map_append map_is_Nil_conv list.map(1))
  ultimately show ?thesis by (simp add: wkt_points_split [OF assms(1,2)] o_def)
qed

lemma read_multiPoint:
  assumes "pts \<noteq> []" and "\<forall>p\<in>set pts. small_point p"
  shows "read_wkt (multiPointWKT pts) = map Some (map (\<lambda>p. [rounded 7 (Lon p), rounded 7 (Lat p)]) pts)"
  using read_points [of "''(''" "'')''", OF _ assms]
  by (simp add: read_wkt_def multiPointWKT_def o_def)

lemma read_lineString:
  assumes "pts \<noteq> []" and "\<forall>p\<in>set pts. small_point p"
  shows "read_wkt (lineStringWKT pts) = map Some (map (\<lambda>p. [rounded 7 (Lon p), rounded 7 (Lat p)]) pts)"
  using read_points [of "[]" "[]", OF _ assms]
  by (simp add: read_wkt_def lineStringWKT_def o_def)

lemma decode_points:
  assumes "postgis_ok postgis coords" and "postgis s = Some g"
    and "read_wkt s = map Some (map (\<lambda>p. [rounded 7 (Lon p), rounded 7 (Lat p)]) pts)"
  shows "decodeGeometry coords g = map point7 pts"
proof -
  have "coords g = Some (map (\<lambda>p. [rounded 7 (Lon p), rounded 7 (Lat p)]) pts)"
    using assms unfolding postgis_ok_def by (elim allE impE) auto
  then show ?thesis by (simp add: decodeGeometry_def toLatLons_def point7_def o_def)
qed

text \<open>Nothing but \<open>Create\<close> adds a row, and only for its user.\<close>

definition rows_of :: "string \<Rightarrow> saved_row list \<Rightarrow> saved_row list" where
  "rows_of u tab = filter (\<lambda>r. sv_user r = u) tab"

lemma Create_cases:
  obtains (failed) "Create postgis fault newid now u i tab = (Err RouteStoreFailed, tab)"
  | (stored) wp geom r where "Create postgis fault newid now u i tab = (Ok (route_of r (inWaypoints i) []), tab @ [r])"
    "postgis (multiPointWKT (inWaypoints i)) = Some wp" "postgis (lineStringWKT (inGeometry i)) = Some geom"
    "r = \<lparr>sv_id = newid, sv_user = u, sv_name = inName i, sv_waypoints = wp, sv_geom = geom,
       sv_distance = inDistanceM i, sv_duration = Some (inDurationS i),
       sv_score = Some (f32 (inSafetyScore i)), sv_profile = inProfile i, sv_created = now\<rparr>"
proof (cases "Create postgis fault newid now u i tab = (Err RouteStoreFailed, tab)")
  case False
  then obtain wp geom where g: "postgis (multiPointWKT (inWaypoints i)) = Some wp"
    "postgis (lineStringWKT (inGeometry i)) = Some geom"
    by (auto simp: Create_def split: option.splits)
  moreover have "\<not> (fault \<or> inDurationS i < - (2 ^ 31) \<or> 2 ^ 31 \<le> inDurationS i)"
    using False g by (auto simp: Create_def split: if_splits)
  ultimately show ?thesis using stored [OF _ g refl] by (simp add: Create_def Let_def)
qed (rule failed)

lemma Create_others: "v \<noteq> u \<Longrightarrow> rows_of v (snd (Create postgis fault newid now u i tab)) = rows_of v tab"
  by (cases postgis fault newid now u i tab rule: Create_cases) (auto simp: rows_of_def)

lemma Delete_others: "v \<noteq> u \<Longrightarrow> rows_of v (snd (Delete fault u k tab)) = rows_of v tab"
  by (auto simp: Delete_def rows_of_def Let_def intro!: filter_cong)

lemma find_snoc_none: "(\<forall>y\<in>set xs. \<not> P y) \<Longrightarrow> find P (xs @ [x]) = (if P x then Some x else None)"
  by (induction xs) auto

text \<open>What \<open>Get\<close> answers its owner is what was stored, to seven decimals and a \<open>float32\<close> score.\<close>

lemma Create_Get:
  assumes c: "Create postgis fault newid now u i tab = (Ok r, tab')" and pg: "postgis_ok postgis coords"
    and fresh: "\<forall>r\<in>set tab. sv_id r \<noteq> newid"
    and pts: "inWaypoints i \<noteq> []" "inGeometry i \<noteq> []" "\<forall>p\<in>set (inWaypoints i @ inGeometry i). small_point p"
  shows "Get coords False u newid tab' =
    Ok (r\<lparr>rtWaypoints := map point7 (inWaypoints i), rtGeometry := map point7 (inGeometry i)\<rparr>) \<and>
    r = \<lparr>rtID = newid, rtName = inName i, rtWaypoints = inWaypoints i, rtDistanceM = inDistanceM i,
      rtDurationS = Some (inDurationS i), rtSafetyScore = Some (f32 (inSafetyScore i)),
      rtProfile = inProfile i, rtCreatedAt = now, rtGeometry = []\<rparr>"
proof (cases postgis fault newid now u i tab rule: Create_cases)
  case (stored wp geom row)
  have "decodeGeometry coords wp = map point7 (inWaypoints i)"
    by (rule decode_points [OF pg stored(2) read_multiPoint]) (use pts in auto)
  moreover have "decodeGeometry coords geom = map point7 (inGeometry i)"
    by (rule decode_points [OF pg stored(3) read_lineString]) (use pts in auto)
  moreover have "find (\<lambda>r. sv_id r = newid \<and> sv_user r = u) (tab @ [row]) = Some row"
    using fresh stored(4) by (subst find_snoc_none) auto
  ultimately show ?thesis using stored c by (simp add: Get_def route_of_def)
qed (use c in simp)

text \<open>To anyone else the route does not exist, and is not theirs to delete.\<close>

lemma Get_foreign:
  assumes "\<forall>r\<in>set tab. sv_id r = k \<longrightarrow> sv_user r \<noteq> v"
  shows "Get coords False v k tab = Err ErrNotFound \<and> Delete False v k tab = (Some ErrNotFound, tab)"
proof -
  have "find (\<lambda>r. sv_id r = k \<and> sv_user r = v) tab = None" using assms by (auto simp: find_None_iff)
  moreover have "filter (\<lambda>r. sv_id r = k \<and> sv_user r = v) tab = []" using assms by (auto simp: filter_empty_conv)
  moreover have "filter (\<lambda>r. sv_id r = k \<longrightarrow> sv_user r \<noteq> v) tab = tab" using assms by (simp add: filter_id_conv)
  ultimately show ?thesis by (simp add: Get_def Delete_def Let_def)
qed

lemma Delete_gone: "Delete False u k tab = (x, tab') \<Longrightarrow> Get coords False u k tab' = Err ErrNotFound"
  using Get_foreign [of tab' k u coords] by (auto simp: Delete_def Let_def)

lemma List_own:
  assumes "List_routes coords newest fault u limit tab = Ok rs" and "\<And>xs. mset (newest xs) = mset xs"
  shows "length rs \<le> 200 \<and> (\<forall>r\<in>set rs. \<exists>row\<in>set tab. sv_user row = u \<and> sv_id row = rtID r \<and> rtName r = sv_name row)"
proof -
  let ?own = "filter (\<lambda>r. sv_user r = u) tab"
  have "set (newest ?own) = set ?own" by (rule mset_eq_setD [OF assms(2)])
  moreover have rs: "rs = map (\<lambda>r. route_of r (decodeGeometry coords (sv_waypoints r)) [])
      (take (nat (if limit \<le> 0 \<or> limit > 200 then 50 else limit)) (newest ?own))"
    using assms(1) by (cases fault) (auto simp: List_routes_def Let_def)
  ultimately have "\<exists>row\<in>set tab. sv_user row = u \<and> sv_id row = rtID r \<and> rtName r = sv_name row" if "r \<in> set rs" for r
  proof -
    from that rs obtain row where "row \<in> set (newest ?own)" "r = route_of row (decodeGeometry coords (sv_waypoints row)) []"
      by (auto dest: in_set_takeD)
    then show ?thesis using \<open>set (newest ?own) = set ?own\<close> by (auto simp: route_of_def)
  qed
  moreover have "length rs \<le> 200" unfolding rs by (auto simp: min_le_iff_disj)
  ultimately show ?thesis by blast
qed

interpretation saving: transaction "Create postgis fault newid now userID i" "\<lambda>_. False"
  for postgis fault newid now userID i
  by unfold_locales (auto simp: Create_def Let_def split: option.splits if_splits)

end
