(* ===== verification/Hazards.thy ===== *)
theory Hazards
  imports Geo Graph_Facts Go_Strings Transactions
begin

text \<open>
  The package \<open>internal/hazard\<close>: rider-reported hazards and the overlay of per-edge scores the
  router reads.  The table \<open>hazard_report\<close> is a list of rows on which the statements are written
  out.  The spatial join of the scoring query is a parameter: \<open>near h\<close> lists the edges within the
  match radius of a report with their distances.  So is the order in which the database returns
  groups and rows, and \<open>fault\<close>, that it fails.
\<close>

section \<open>Kinds and reports\<close>

definition Kinds :: "(string \<times> real) list" where
  "Kinds = [(''debris'', 4 / 10), (''pothole'', 5 / 10), (''poor_visibility'', 6 / 10),
     (''aggressive_traffic'', 7 / 10), (''blocked_lane'', 8 / 10), (''construction'', 9 / 10),
     (''dangerous_junction'', 1), (''other'', 3 / 10)]"

definition MatchRadiusM :: real where "MatchRadiusM = 30"
definition saturationConstant :: real where "saturationConstant = 15 / 10"

datatype hazard_error = BadLocation | ErrUnknownKind string | NotesTooLong | HazardStoreFailed | NoSuchHazard

record Submission =
  Location :: LatLon
  hKind :: string
  hNotes :: string

definition Submission_Validate :: "Submission \<Rightarrow> hazard_error option" where
  "Submission_Validate s =
     (if \<not> Valid (Location s) then Some BadLocation
      else if map_of Kinds (hKind s) = None then Some (ErrUnknownKind (hKind s))
      else if length (hNotes s) > 500 then Some NotesTooLong
      else None)"

text \<open>Times are in seconds.\<close>

record Report =
  rpID :: int
  rpLocation :: LatLon
  rpKind :: string
  rpNotes :: string
  rpConfirmations :: int
  rpCreatedAt :: int
  rpExpiresAt :: int

record hazard_row =
  hz_report :: Report
  hz_user :: "string option"

definition day :: int where "day = 86400"

section \<open>The table\<close>

definition Hazard_Create :: "bool \<Rightarrow> int \<Rightarrow> int \<Rightarrow> Submission \<Rightarrow> string option \<Rightarrow> hazard_row list \<Rightarrow>
    (hazard_error, Report) outcome \<times> hazard_row list" where
  "Hazard_Create fault newid now s userID tab =
     (if fault then (Err HazardStoreFailed, tab)
      else let r = \<lparr>rpID = newid, rpLocation = Location s, rpKind = hKind s, rpNotes = hNotes s,
               rpConfirmations = 0, rpCreatedAt = now, rpExpiresAt = now + 90 * day\<rparr>
           in (Ok r, tab @ [\<lparr>hz_report = r, hz_user = userID\<rparr>]))"

definition active :: "int \<Rightarrow> Report \<Rightarrow> bool" where
  "active now r \<longleftrightarrow> rpExpiresAt r > now"

text \<open>A bound of the box as it was parsed, which may be infinite or not a number.\<close>

definition below :: "float_text \<Rightarrow> real \<Rightarrow> bool" where
  "below b x \<longleftrightarrow> (case b of Fin a \<Rightarrow> a \<le> x | Inf neg \<Rightarrow> neg | NaN \<Rightarrow> False)"

definition above :: "float_text \<Rightarrow> real \<Rightarrow> bool" where
  "above b x \<longleftrightarrow> (case b of Fin a \<Rightarrow> x \<le> a | Inf neg \<Rightarrow> \<not> neg | NaN \<Rightarrow> False)"

definition in_bbox :: "float_text \<Rightarrow> float_text \<Rightarrow> float_text \<Rightarrow> float_text \<Rightarrow> LatLon \<Rightarrow> bool" where
  "in_bbox minLon minLat maxLon maxLat p \<longleftrightarrow>
     below minLon (Lon p) \<and> above maxLon (Lon p) \<and> below minLat (Lat p) \<and> above maxLat (Lat p)"

definition ListInBBox :: "(Report list \<Rightarrow> Report list) \<Rightarrow> bool \<Rightarrow> int \<Rightarrow> float_text \<Rightarrow> float_text \<Rightarrow>
    float_text \<Rightarrow> float_text \<Rightarrow> int \<Rightarrow> hazard_row list \<Rightarrow> (hazard_error, Report list) outcome" where
  "ListInBBox newest fault now minLon minLat maxLon maxLat limit tab =
     (let limit = (if limit \<le> 0 \<or> limit > 500 then 200 else limit)
      in if fault then Err HazardStoreFailed
         else Ok (take (nat limit) (newest (filter (\<lambda>r. active now r \<and>
           in_bbox minLon minLat maxLon maxLat (rpLocation r)) (map hz_report tab)))))"

definition confirm_report :: "Report \<Rightarrow> Report" where
  "confirm_report r = r\<lparr>rpConfirmations := rpConfirmations r + 1, rpExpiresAt := rpExpiresAt r + 14 * day\<rparr>"

definition Hazard_Confirm :: "bool \<Rightarrow> int \<Rightarrow> int \<Rightarrow> hazard_row list \<Rightarrow>
    (hazard_error, Report) outcome \<times> hazard_row list" where
  "Hazard_Confirm fault now i tab =
     (let hit = (\<lambda>h. rpID (hz_report h) = i \<and> active now (hz_report h))
      in if fault then (Err HazardStoreFailed, tab)
         else case find hit tab of
           None \<Rightarrow> (Err NoSuchHazard, tab)
         | Some h \<Rightarrow> (Ok (confirm_report (hz_report h)),
             map (\<lambda>h. if hit h then h\<lparr>hz_report := confirm_report (hz_report h)\<rparr> else h) tab))"

section \<open>The overlay\<close>

text \<open>An index: the pointer to the scores, \<open>None\<close> where it is nil.\<close>

type_synonym Index = "real list option"

definition NewIndex :: "nat \<Rightarrow> Index" where
  "NewIndex numEdges = Some (replicate numEdges 0)"

definition Snapshot :: "Index \<Rightarrow> real list" where
  "Snapshot i = (case i of None \<Rightarrow> [] | Some s \<Rightarrow> s)"

definition replace :: "real list \<Rightarrow> Index \<Rightarrow> Index" where
  "replace s i = Some s"

definition saturate :: "real \<Rightarrow> real" where
  "saturate x =
     (if x \<le> 0 then 0
      else let v = 1 - exp (- x / saturationConstant) in if v > 1 then 1 else v)"

text \<open>
  The weight of a report on an edge at a distance: its kind, its confirmations, how fresh it is,
  and how far away.  A report that expires when it was created has no weight (SQL's \<open>NULL\<close>, which
  \<open>sum\<close> passes over).
\<close>

definition freshness :: "int \<Rightarrow> Report \<Rightarrow> real" where
  "freshness now r = max 0 (of_int (rpExpiresAt r - now) / of_int (rpExpiresAt r - rpCreatedAt r))"

definition hazard_weight :: "int \<Rightarrow> Report \<Rightarrow> real \<Rightarrow> real" where
  "hazard_weight now r d =
     (case map_of Kinds (rpKind r) of None \<Rightarrow> 3 / 10 | Some w \<Rightarrow> w)
       * (1 + 25 / 100 * of_int (min (rpConfirmations r) 8)) * freshness now r * exp (- d / 15)"

definition matched :: "(Report \<Rightarrow> (int \<times> real) list) \<Rightarrow> int \<Rightarrow> hazard_row list \<Rightarrow> (int \<times> real) list" where
  "matched near now tab = concat (map (\<lambda>r. map (\<lambda>(i, d). (i, hazard_weight now r d)) (near r))
     (filter (\<lambda>r. active now r \<and> rpExpiresAt r \<noteq> rpCreatedAt r) (map hz_report tab)))"

definition total_weight :: "(int \<times> real) list \<Rightarrow> int \<Rightarrow> real" where
  "total_weight ms i = sum_list (map snd (filter (\<lambda>(j, w). j = i) ms))"

definition score_groups :: "(int \<times> real) list \<Rightarrow> (int \<times> real) list" where
  "score_groups ms = map (\<lambda>i. (i, total_weight ms i)) (remdups (map fst ms))"

text \<open>The loop over the result rows; \<open>None\<close> is a row that fails to scan.\<close>

fun scan_scores :: "graph \<Rightarrow> (int \<times> real) option list \<Rightarrow> real list \<Rightarrow> (hazard_error, real list) outcome" where
  "scan_scores g [] scores = Ok scores"
| "scan_scores g (None # rs) scores = Err HazardStoreFailed"
| "scan_scores g (Some (edgeID, pressure) # rs) scores =
     (case IndexOfDBID g edgeID of
        None \<Rightarrow> scan_scores g rs scores
      | Some idx \<Rightarrow>
          if idx < length scores then scan_scores g rs (scores[idx := f32 (saturate pressure)]) else Panic)"

text \<open>\<open>query\<close> turns the groups into what the database returns, \<open>None\<close> where the query fails.\<close>

definition Refresh :: "((int \<times> real) list \<Rightarrow> (int \<times> real) cursor option) \<Rightarrow> (Report \<Rightarrow> (int \<times> real) list) \<Rightarrow>
    int \<Rightarrow> graph \<Rightarrow> hazard_row list \<Rightarrow> Index \<Rightarrow> (hazard_error, unit) outcome \<times> Index" where
  "Refresh query near now g tab i =
     (case query (score_groups (matched near now tab)) of
        None \<Rightarrow> (Err HazardStoreFailed, i)
      | Some c \<Rightarrow>
          (case scan_scores g (rows c) (replicate (NumEdges g) 0) of
             Err e \<Rightarrow> (Err e, i)
           | Panic \<Rightarrow> (Panic, i)
           | Ok scores \<Rightarrow> if rows_err c then (Err HazardStoreFailed, i) else (Ok (), replace scores i)))"

section \<open>Scores\<close>

lemma saturate_range: "0 \<le> saturate x \<and> saturate x \<le> 1"
  by (auto simp: saturate_def Let_def saturationConstant_def)

lemma saturate_zero [simp]: "saturate 0 = 0"
  by (simp add: saturate_def)

lemma saturate_mono: "x \<le> y \<Longrightarrow> saturate x \<le> saturate y"
  by (auto simp: saturate_def Let_def saturationConstant_def)

lemma score_range: "0 \<le> f32 (saturate x) \<and> f32 (saturate x) \<le> 1"
  using saturate_range [of x] f32_mono [of "saturate x" 1] by simp

lemma kind_weight_pos: "0 \<le> (case map_of Kinds k of None \<Rightarrow> 3 / 10 | Some w \<Rightarrow> w)"
  by (auto simp: Kinds_def)

text \<open>Sound reports: created in the past, and never with a negative count.\<close>

definition report_ok :: "int \<Rightarrow> Report \<Rightarrow> bool" where
  "report_ok now r \<longleftrightarrow> 0 \<le> rpConfirmations r \<and> rpCreatedAt r \<le> now"

lemma freshness_range:
  assumes "report_ok now r" and "active now r"
  shows "0 \<le> freshness now r \<and> freshness now r \<le> 1"
proof -
  have "(of_int (rpExpiresAt r - now) :: real) \<le> of_int (rpExpiresAt r - rpCreatedAt r)"
    "(0 :: real) < of_int (rpExpiresAt r - rpCreatedAt r)"
    using assms by (simp_all add: report_ok_def active_def)
  then show ?thesis by (simp add: freshness_def divide_le_eq)
qed

lemma freshness_confirm:
  assumes "report_ok now r" and "active now r"
  shows "freshness now r \<le> freshness now (confirm_report r)"
proof -
  define a b where "a = (of_int (rpExpiresAt r - now) :: real)" and "b = (of_int (rpExpiresAt r - rpCreatedAt r) :: real)"
  have ab: "0 < a" "a \<le> b" using assms by (simp_all add: a_def b_def report_ok_def active_def)
  define t where "t = (of_int (14 * day) :: real)"
  have t: "0 < t" by (simp add: t_def day_def)
  have "a * t \<le> b * t" using ab t by simp
  then have "a * (b + t) \<le> (a + t) * b" by (simp add: algebra_simps)
  then have "a / b \<le> (a + t) / (b + t)" using ab t by (simp add: divide_le_eq le_divide_eq mult.commute)
  moreover have "freshness now (confirm_report r) = max 0 ((a + t) / (b + t))"
    by (simp add: freshness_def confirm_report_def a_def b_def t_def algebra_simps)
  moreover have "freshness now r = max 0 (a / b)" by (simp add: freshness_def a_def b_def)
  ultimately show ?thesis by simp
qed

lemma hazard_weight_nonneg: "report_ok now r \<Longrightarrow> active now r \<Longrightarrow> 0 \<le> hazard_weight now r d"
  unfolding hazard_weight_def
  by (intro mult_nonneg_nonneg kind_weight_pos) (simp_all add: freshness_range report_ok_def)

lemma hazard_weight_confirm:
  assumes "report_ok now r" and "active now r"
  shows "hazard_weight now r d \<le> hazard_weight now (confirm_report r) d"
proof -
  have conf: "1 + 25 / 100 * (of_int (min (rpConfirmations r) 8) :: real)
      \<le> 1 + 25 / 100 * of_int (min (rpConfirmations (confirm_report r)) 8)"
    by (simp add: confirm_report_def)
  have "0 \<le> 1 + 25 / 100 * (of_int (min (rpConfirmations r) 8) :: real)" using assms(1) by (simp add: report_ok_def)
  moreover have "rpKind (confirm_report r) = rpKind r" by (simp add: confirm_report_def)
  ultimately show ?thesis unfolding hazard_weight_def
    using conf freshness_confirm [OF assms] freshness_range [OF assms] kind_weight_pos [of "rpKind r"]
    by (intro mult_right_mono mult_mono) (auto intro!: mult_nonneg_nonneg)
qed

section \<open>Refreshing\<close>

definition ids_ok :: "graph \<Rightarrow> bool" where
  "ids_ok g \<longleftrightarrow> length (DBID g) = NumEdges g \<and>
     (\<forall>i e. IndexOfDBID g i = Some e \<longrightarrow> e < NumEdges g \<and> DBID g ! e = i)"

text \<open>A database that answers: every group once, in some order, and no error at the end.\<close>

definition answers_groups :: "((int \<times> real) list \<Rightarrow> (int \<times> real) cursor option) \<Rightarrow> bool" where
  "answers_groups query \<longleftrightarrow> (\<forall>gs. \<exists>c. query gs = Some c \<and> \<not> rows_err c \<and> mset (rows c) = mset (map Some gs))"

lemma scan_scores_all:
  assumes "ids_ok g" and "length scores = NumEdges g" and "distinct (map fst gs)"
  shows "\<exists>s. scan_scores g (map Some gs) scores = Ok s \<and> length s = NumEdges g \<and>
    (\<forall>e<NumEdges g. s ! e = (if IndexOfDBID g (DBID g ! e) = Some e then
       (case map_of gs (DBID g ! e) of None \<Rightarrow> scores ! e | Some w \<Rightarrow> f32 (saturate w)) else scores ! e))"
  using assms(2,3)
proof (induction gs arbitrary: scores)
  case Nil
  then show ?case by simp
next
  case (Cons x gs)
  obtain i w where x: "x = (i, w)" by (cases x)
  show ?case
  proof (cases "IndexOfDBID g i")
    case None
    then show ?thesis using Cons.IH [OF Cons.prems(1)] Cons.prems(2) x by auto
  next
    case (Some k)
    then have k: "k < NumEdges g" "DBID g ! k = i" using assms(1) by (auto simp: ids_ok_def)
    have new: "length (scores[k := f32 (saturate w)]) = NumEdges g" "distinct (map fst gs)"
      using Cons.prems by simp_all
    obtain s where s: "scan_scores g (map Some gs) (scores[k := f32 (saturate w)]) = Ok s" "length s = NumEdges g"
      "\<forall>e<NumEdges g. s ! e = (if IndexOfDBID g (DBID g ! e) = Some e then
         (case map_of gs (DBID g ! e) of None \<Rightarrow> scores[k := f32 (saturate w)] ! e
          | Some v \<Rightarrow> f32 (saturate v)) else scores[k := f32 (saturate w)] ! e)"
      using Cons.IH [OF new] by blast
    have "map_of gs i = None" using Cons.prems(2) x by (simp add: map_of_eq_None_iff)
    then have "s ! e = (if IndexOfDBID g (DBID g ! e) = Some e then
         (case map_of (x # gs) (DBID g ! e) of None \<Rightarrow> scores ! e
          | Some v \<Rightarrow> f32 (saturate v)) else scores ! e)" if e: "e < NumEdges g" for e
    proof (cases "e = k")
      case True
      then show ?thesis using s(3) e k Some x Cons.prems(1) \<open>map_of gs i = None\<close> by simp
    next
      case False
      then have "IndexOfDBID g (DBID g ! e) = Some e \<Longrightarrow> DBID g ! e \<noteq> i" using Some by auto
      moreover have "scores[k := f32 (saturate w)] ! e = scores ! e" using False by simp
      ultimately show ?thesis using s(3) e x by (simp split: option.split)
    qed
    then show ?thesis using s(1,2) x Some k Cons.prems(1) by auto
  qed
qed

lemma map_of_groups:
  "map_of (score_groups ms) i = (if i \<in> fst ` set ms then Some (total_weight ms i) else None)"
  by (simp add: score_groups_def map_of_map_restrict restrict_map_def)

lemma total_weight_none: "i \<notin> fst ` set ms \<Longrightarrow> total_weight ms i = 0"
  by (induction ms) (auto simp: total_weight_def)

lemma mset_map_Some:
  assumes "mset rs = mset (map Some gs)"
  obtains gs' where "rs = map Some gs'" "mset gs' = mset gs"
proof -
  have "set rs = Some ` set gs" using mset_eq_setD [OF assms] by simp
  then have "\<forall>x\<in>set rs. Some (the x) = x" by auto
  then have "rs = map Some (map the rs)" by (simp add: map_idI)
  moreover have "mset (map the rs) = mset gs"
    using arg_cong [OF assms, of "image_mset the"] by (simp add: mset_map [symmetric] o_def del: mset_map)
  ultimately show ?thesis using that by blast
qed

lemma Refresh_answers:
  assumes ids: "ids_ok g" and q: "answers_groups query"
  shows "\<exists>s. Refresh query near now g tab i = (Ok (), Some s) \<and> length s = NumEdges g \<and>
    (\<forall>e<NumEdges g. s ! e = (if IndexOfDBID g (DBID g ! e) = Some e
       then f32 (saturate (total_weight (matched near now tab) (DBID g ! e))) else 0))"
proof -
  let ?ms = "matched near now tab" and ?zero = "replicate (NumEdges g) (0::real)"
  obtain c where c: "query (score_groups ?ms) = Some c" "\<not> rows_err c"
    "mset (rows c) = mset (map Some (score_groups ?ms))" using q unfolding answers_groups_def by blast
  obtain gs where gs: "rows c = map Some gs" "mset gs = mset (score_groups ?ms)" using mset_map_Some [OF c(3)] .
  have ids': "map fst (score_groups ?ms) = remdups (map fst ?ms)" by (simp add: score_groups_def o_def)
  have "mset (map fst gs) = mset (remdups (map fst ?ms))" using gs(2) ids' by (metis mset_map)
  then have d: "distinct (map fst gs)" by (metis distinct_remdups mset_eq_imp_distinct_iff)
  have "map_of gs = map_of (score_groups ?ms)"
    by (rule map_of_inject_set [THEN iffD2]) (use d ids' mset_eq_setD [OF gs(2)] in simp_all)
  then have look: "map_of gs k = (if k \<in> fst ` set ?ms then Some (total_weight ?ms k) else None)" for k
    by (simp add: map_of_groups)
  obtain s where s: "scan_scores g (map Some gs) ?zero = Ok s" "length s = NumEdges g"
    "\<forall>e<NumEdges g. s ! e = (if IndexOfDBID g (DBID g ! e) = Some e then
       (case map_of gs (DBID g ! e) of None \<Rightarrow> ?zero ! e | Some w \<Rightarrow> f32 (saturate w)) else ?zero ! e)"
    using scan_scores_all [OF ids _ d, of ?zero] by auto
  have "(case map_of gs k of None \<Rightarrow> 0 | Some w \<Rightarrow> f32 (saturate w)) = f32 (saturate (total_weight ?ms k))" for k
    by (simp add: look total_weight_none)
  then have "\<forall>e<NumEdges g. s ! e = (if IndexOfDBID g (DBID g ! e) = Some e
       then f32 (saturate (total_weight ?ms (DBID g ! e))) else 0)"
    using s(3) by (simp cong: option.case_cong)
  then show ?thesis using c(1,2) gs(1) s(1,2) by (simp add: Refresh_def replace_def)
qed

text \<open>An error leaves the overlay as it was.\<close>

lemma Refresh_error: "fst (Refresh query near now g tab i) \<noteq> Ok () \<Longrightarrow> snd (Refresh query near now g tab i) = i"
  by (auto simp: Refresh_def split: option.splits outcome.splits)

section \<open>Confirmations\<close>

lemma matched_Cons:
  "matched near now (h # tab) = (if active now (hz_report h) \<and> rpExpiresAt (hz_report h) \<noteq> rpCreatedAt (hz_report h)
     then map (\<lambda>(i, d). (i, hazard_weight now (hz_report h) d)) (near (hz_report h)) else []) @ matched near now tab"
  by (simp add: matched_def)

lemma total_weight_append: "total_weight (a @ b) i = total_weight a i + total_weight b i"
  by (simp add: total_weight_def)

lemma total_weight_mono:
  assumes "\<forall>(i, d)\<in>set ds. f d \<le> (f' d :: real)"
  shows "total_weight (map (\<lambda>(i, d). (i, f d)) ds) k \<le> total_weight (map (\<lambda>(i, d). (i, f' d)) ds) k"
  using assms by (induction ds) (auto simp: total_weight_def)

text \<open>
  Another rider's confirmation never lowers an edge's total, where where a report is does not
  depend on how often it was confirmed.
\<close>

lemma confirm_raises_total:
  assumes ok: "\<forall>h\<in>set tab. report_ok now (hz_report h)"
    and place: "\<And>r. near (confirm_report r) = near r"
  shows "total_weight (matched near now tab) k \<le> total_weight (matched near now (snd (Hazard_Confirm fault now i tab))) k"
proof -
  define hit where "hit = (\<lambda>h :: hazard_row. rpID (hz_report h) = i \<and> active now (hz_report h))"
  define up where "up = (\<lambda>h :: hazard_row. if hit h then h\<lparr>hz_report := confirm_report (hz_report h)\<rparr> else h)"
  have tab: "snd (Hazard_Confirm fault now i tab) = tab \<or> snd (Hazard_Confirm fault now i tab) = map up tab"
    by (auto simp: Hazard_Confirm_def Let_def hit_def up_def split: option.splits)
  have "total_weight (matched near now tab) k \<le> total_weight (matched near now (map up tab)) k"
    using ok
  proof (induction tab)
    case (Cons h tab)
    let ?r = "hz_report h" and ?r' = "hz_report (up h)"
    have r: "report_ok now ?r" using Cons.prems by simp
    have same: "active now (confirm_report ?r) \<longleftrightarrow> active now ?r" "rpExpiresAt (confirm_report ?r) \<noteq> rpCreatedAt (confirm_report ?r)"
      if "active now ?r"
      using that r by (auto simp: confirm_report_def active_def day_def report_ok_def)
    have "total_weight (matched near now [h]) k \<le> total_weight (matched near now [up h]) k"
    proof (cases "hit h")
      case True
      then have a: "active now ?r" and u: "?r' = confirm_report ?r" by (simp_all add: hit_def up_def)
      then have ne: "rpExpiresAt ?r \<noteq> rpCreatedAt ?r" using r by (auto simp: active_def report_ok_def)
      have "total_weight (map (\<lambda>(i, d). (i, hazard_weight now ?r d)) (near ?r)) k \<le>
          total_weight (map (\<lambda>(i, d). (i, hazard_weight now ?r' d)) (near ?r)) k"
        by (rule total_weight_mono) (use hazard_weight_confirm [OF r a] u in auto)
      then show ?thesis using a ne u same [OF a] place [of ?r] by (simp add: matched_def)
    qed (simp add: up_def)
    then show ?case using Cons
      by (simp add: matched_Cons [of near now h tab] matched_Cons [of near now "up h" "map up tab"]
          total_weight_append matched_def [of near now "[]"] matched_Cons [of near now h "[]"]
          matched_Cons [of near now "up h" "[]"])
  qed (simp add: matched_def)
  then show ?thesis using tab by auto
qed

interpretation reporting: transaction "Hazard_Create fault newid now s userID" "\<lambda>_. False" for fault newid now s userID
  by unfold_locales (auto simp: Hazard_Create_def Let_def split: if_splits)

interpretation confirming: transaction "Hazard_Confirm fault now i" "\<lambda>_. False" for fault now i
  by unfold_locales (auto simp: Hazard_Confirm_def Let_def split: option.splits if_splits)

end
