(* ===== verification/Http_Text.thy ===== *)
theory Http_Text
  imports Go_Strings
begin

text \<open>
  The number formatting of \<open>internal/httpapi/route_handler.go\<close>: \<open>round1\<close>, \<open>round2\<close> and the
  hand-written \<open>itoa\<close>, \<open>pad2\<close> and \<open>ftoa\<close>.  \<open>itoa\<close> fills a buffer of twelve bytes from its end;
  a number with more digits runs out of the buffer and panics.

  Shown here: \<open>itoa\<close> writes a number that fits as \<open>strconv\<close> would, and exactly what \<open>ftoa\<close>
  prints, which is not the number rounded to two decimals where its fraction rounds up to one.
\<close>

section \<open>The code\<close>

definition round1 :: "real \<Rightarrow> real" where
  "round1 v = of_int (to_int64 (v * 10 + 1 / 2)) / 10"

definition round2 :: "real \<Rightarrow> real" where
  "round2 v = of_int (to_int64 (v * 100 + 1 / 2)) / 100"

text \<open>The loop of \<open>itoa\<close>: \<open>i\<close> bytes of the buffer are still free, \<open>s\<close> is what stands after them.\<close>

fun itoa_loop :: "nat \<Rightarrow> int \<Rightarrow> string \<Rightarrow> (unit, string) outcome" where
  "itoa_loop 0 n s = (if n > 0 then Panic else Ok s)"
| "itoa_loop (Suc i) n s =
     (if n > 0 then itoa_loop i (n div 10) (digit_char (nat (n mod 10)) # s) else Ok s)"

definition itoa :: "int \<Rightarrow> (unit, string) outcome" where
  "itoa n = (if n = 0 then Ok ''0'' else itoa_loop 12 n [])"

definition pad2 :: "int \<Rightarrow> (unit, string) outcome" where
  "pad2 n = (if n < 10 then obind (itoa n) (\<lambda>s. Ok (CHR ''0'' # s)) else itoa n)"

definition ftoa :: "real \<Rightarrow> (unit, string) outcome" where
  "ftoa v =
     (let whole = to_int64 v;
          frac = to_int64 ((v - of_int whole) * 100 + 1 / 2)
      in obind (itoa whole) (\<lambda>w. obind (pad2 frac) (\<lambda>f. Ok (w @ ''.'' @ f))))"

section \<open>What is printed\<close>

lemma itoa_loop_text:
  assumes "0 < n" "n < 10 ^ i"
  shows "itoa_loop i n s = Ok (nat_text (nat n) @ s)"
  using assms
proof (induction i arbitrary: n s)
  case (Suc i)
  have d: "nat (n div 10) = nat n div 10" "nat (n mod 10) = nat n mod 10"
    using Suc.prems(1) by (simp_all add: nat_div_distrib nat_mod_distrib)
  show ?case
  proof (cases "n < 10")
    case True
    then have "itoa_loop i (n div 10) s' = Ok s'" for s' using Suc.prems(1) by (cases i) simp_all
    then show ?thesis using True Suc.prems(1) by (subst nat_text.simps) simp
  next
    case False
    have "n div 10 < 10 ^ i" using Suc.prems(2) by simp
    then have "itoa_loop i (n div 10) (digit_char (nat (n mod 10)) # s) =
        Ok (nat_text (nat (n div 10)) @ digit_char (nat (n mod 10)) # s)"
      using Suc.IH [of "n div 10"] False by simp
    then show ?thesis using False d by (subst nat_text.simps) simp
  qed
qed simp

lemma itoa_loop_panics: "10 ^ i \<le> n \<Longrightarrow> itoa_loop i n s = Panic"
proof (induction i arbitrary: n s)
  case (Suc i)
  then have "10 ^ i \<le> n div 10" by simp
  moreover have "0 < n" using Suc.prems by (smt (verit) zero_less_power)
  ultimately show ?case using Suc.IH by simp
qed simp

lemma digit_char_0: "digit_char 0 = CHR ''0''"
  by code_simp

lemma digit_char_1: "digit_char (Suc 0) = CHR ''1''"
  by code_simp

lemma itoa_FormatInt: "0 \<le> n \<Longrightarrow> n < 10 ^ 12 \<Longrightarrow> itoa n = Ok (FormatInt n)"
  using itoa_loop_text [of n 12 "[]"] by (auto simp: itoa_def FormatInt_def nat_text.simps digit_char_0 digit_char_1)

lemma itoa_panics: "10 ^ 12 \<le> n \<Longrightarrow> itoa n = Panic"
  using itoa_loop_panics [of 12 n "[]"] by (simp add: itoa_def)

lemma itoa_negative: "n < 0 \<Longrightarrow> itoa n = Ok []"
  by (simp add: itoa_def numeral_eq_Suc)

lemma pad2_text: "0 \<le> n \<Longrightarrow> n < 100 \<Longrightarrow> pad2 n = Ok (frac_text 2 (nat n))"
proof -
  assume n: "0 \<le> n" "n < 100"
  have "nat_text (nat n) = (if nat n < 10 then [digit_char (nat n)]
      else [digit_char (nat n div 10), digit_char (nat n mod 10)])"
    using n by (subst nat_text.simps) (simp add: nat_text.simps [of "nat n div 10"])
  moreover have "nat n div 10 mod 10 = nat n div 10" using n by simp
  ultimately show ?thesis using n
    by (auto simp: pad2_def itoa_FormatInt FormatInt_def numeral_2_eq_2 digit_char_0)
qed

lemma ftoa_text:
  assumes "0 \<le> v" "v < 10 ^ 12"
  shows "ftoa v = Ok (FormatInt \<lfloor>v\<rfloor> @ ''.'' @
    (if \<lfloor>frac v * 100 + 1 / 2\<rfloor> = 100 then ''100'' else frac_text 2 (nat \<lfloor>frac v * 100 + 1 / 2\<rfloor>)))"
proof -
  have whole: "to_int64 v = \<lfloor>v\<rfloor>" using assms by (simp add: to_int64_small)
  have f: "v - of_int \<lfloor>v\<rfloor> = frac v" by (simp add: frac_def)
  have fr: "0 \<le> frac v * 100 + 1 / 2" "frac v * 100 + 1 / 2 < 101"
    using frac_ge_0 [of v] frac_lt_1 [of v] by linarith+
  then have "to_int64 (frac v * 100 + 1 / 2) = \<lfloor>frac v * 100 + 1 / 2\<rfloor>" by (simp add: to_int64_small)
  moreover have "0 \<le> \<lfloor>frac v * 100 + 1 / 2\<rfloor>" "\<lfloor>frac v * 100 + 1 / 2\<rfloor> < 101"
    using fr by (simp_all add: floor_less_iff)
  moreover have "itoa \<lfloor>v\<rfloor> = Ok (FormatInt \<lfloor>v\<rfloor>)"
    using assms by (intro itoa_FormatInt) (simp_all add: floor_less_iff)
  moreover have "pad2 100 = Ok ''100''"
    by (simp add: pad2_def itoa_FormatInt FormatInt_def nat_text.simps digit_char_0 digit_char_1)
  moreover have "\<lfloor>frac v * 100 + 1 / 2\<rfloor> \<noteq> 100 \<Longrightarrow> pad2 \<lfloor>frac v * 100 + 1 / 2\<rfloor> =
      Ok (frac_text 2 (nat \<lfloor>frac v * 100 + 1 / 2\<rfloor>))"
    by (rule pad2_text) (use calculation in linarith)+
  ultimately show ?thesis unfolding ftoa_def whole Let_def f
    by (cases "\<lfloor>frac v * 100 + 1 / 2\<rfloor> = 100") simp_all
qed

lemma to_int64_mono: "x \<le> y \<Longrightarrow> 0 \<le> x \<Longrightarrow> y < 2 ^ 63 \<Longrightarrow> to_int64 x \<le> to_int64 y"
  using floor_mono [of x y] by (simp add: to_int64_small)

lemma round1_error: "0 \<le> v \<Longrightarrow> v < 10 ^ 17 \<Longrightarrow> \<bar>round1 v - v\<bar> \<le> 1 / 20"
proof -
  assume v: "0 \<le> v" "v < 10 ^ 17"
  then have "to_int64 (v * 10 + 1 / 2) = \<lfloor>v * 10 + 1 / 2\<rfloor>" by (intro to_int64_small) simp_all
  moreover have "of_int \<lfloor>v * 10 + 1 / 2\<rfloor> \<le> v * 10 + 1 / 2" "v * 10 + 1 / 2 < of_int \<lfloor>v * 10 + 1 / 2\<rfloor> + 1"
    by linarith+
  ultimately show ?thesis unfolding round1_def by (simp only: abs_le_iff) linarith
qed

lemma round1_mono: "0 \<le> x \<Longrightarrow> x \<le> y \<Longrightarrow> y < 10 ^ 17 \<Longrightarrow> round1 x \<le> round1 y"
  by (simp add: round1_def divide_right_mono to_int64_mono)

end
