(* ===== verification/Http_Reply.thy ===== *)
theory Http_Reply
  imports Accounts Saved_Routes Hazards Http_Text
begin

text \<open>
  \<open>internal/httpapi/errors.go\<close>: the replies of the handlers.  A handler's outcome is \<open>Ok (status,
  response)\<close>, \<open>Err\<close> the one envelope every failure has, or \<open>Panic\<close>.  A handler that writes a
  failure returns at once, so that a failure is an early exit of \<open>obind\<close>.

  The decoded body of a request is a parameter: the request, or what the JSON decoder complains
  about.  Where a message quotes an error of a lower layer, the error itself stands for its text.
\<close>

section \<open>The envelope\<close>

datatype detail = Text string | BadProfile profile_error | UnknownProfile string
  | BadName route_error | BadHazard hazard_error | BadAccount auth_error

record ErrorResponse =
  Code :: string
  Message :: string
  Details :: "string \<rightharpoonup> detail"

datatype failure = Failure (failure_status: nat) (failure_body: ErrorResponse)

definition CodeBadRequest :: string where "CodeBadRequest = ''bad_request''"
definition CodeUnauthorized :: string where "CodeUnauthorized = ''unauthorized''"
definition CodeForbidden :: string where "CodeForbidden = ''forbidden''"
definition CodeNotFound :: string where "CodeNotFound = ''not_found''"
definition CodeConflict :: string where "CodeConflict = ''conflict''"
definition CodeInternal :: string where "CodeInternal = ''internal_error''"
definition CodeUnroutable :: string where "CodeUnroutable = ''unroutable''"

lemmas codes = CodeBadRequest_def CodeUnauthorized_def CodeForbidden_def CodeNotFound_def
  CodeConflict_def CodeInternal_def CodeUnroutable_def

definition writeError :: "nat \<Rightarrow> string \<Rightarrow> string \<Rightarrow> (failure, 'a) outcome" where
  "writeError status code msg = Err (Failure status \<lparr>Code = code, Message = msg, Details = Map.empty\<rparr>)"

definition writeValidationError :: "string \<Rightarrow> (string \<rightharpoonup> detail) \<Rightarrow> (failure, 'a) outcome" where
  "writeValidationError msg details =
     Err (Failure 400 \<lparr>Code = CodeBadRequest, Message = msg, Details = details\<rparr>)"

definition writeInternalError :: "(failure, 'a) outcome" where
  "writeInternalError = writeError 500 CodeInternal ''an internal error occurred''"

definition decodeJSON :: "string + 'a \<Rightarrow> (failure, 'a) outcome" where
  "decodeJSON body = (case body of
     Inl complaint \<Rightarrow> writeError 400 CodeBadRequest (''invalid JSON body: '' @ complaint)
   | Inr req \<Rightarrow> Ok req)"

lemmas write_defs = writeError_def writeValidationError_def writeInternalError_def

text \<open>A text that is formatted for a message; the formatting may panic.\<close>

definition with_text :: "(unit, string) outcome \<Rightarrow> (string \<Rightarrow> ('e, 'a) outcome) \<Rightarrow> ('e, 'a) outcome" where
  "with_text r k = (case r of Ok s \<Rightarrow> k s | _ \<Rightarrow> Panic)"

lemma with_text_Ok [simp]: "with_text (Ok s) k = k s"
  by (simp add: with_text_def)

text \<open>A step that need not return, before the rest of a handler.\<close>

definition run_then :: "('e, 'a) outcome option \<Rightarrow> ('a \<Rightarrow> ('e, 'b) outcome option) \<Rightarrow>
    ('e, 'b) outcome option" where
  "run_then r k = (case r of None \<Rightarrow> None | Some (Ok a) \<Rightarrow> k a | Some (Err e) \<Rightarrow> Some (Err e)
     | Some Panic \<Rightarrow> Some Panic)"

lemma run_then_simps [simp]:
  "run_then (Some (Ok a)) k = k a" "run_then (Some (Err e)) k = Some (Err e)"
  "run_then (Some Panic) k = Some Panic"
  by (simp_all add: run_then_def)

lemma run_then_Ok_iff: "run_then r k = Some (Ok b) \<longleftrightarrow> (\<exists>a. r = Some (Ok a) \<and> k a = Some (Ok b))"
  by (auto simp: run_then_def split: option.splits outcome.splits)

lemma run_then_Err_iff:
  "run_then r k = Some (Err e) \<longleftrightarrow> r = Some (Err e) \<or> (\<exists>a. r = Some (Ok a) \<and> k a = Some (Err e))"
  by (auto simp: run_then_def split: option.splits outcome.splits)

end
