(* ===== verification/Http_Route.thy ===== *)
theory Http_Route
  imports Http_Reply Snapping Path_Geometry Alternatives Safety_Report
begin

text \<open>
  \<open>internal/httpapi/route_handler.go\<close>: the handler of \<open>POST /v1/route/plan\<close>, from the decoded
  request to the response: choosing the profile, checking and snapping the waypoints, routing the
  legs, the distance baseline, the geometry and its segments, the warning, and the alternatives.

  What the handler asks of the database, the pooled workspaces, the order in which Go walks the
  map of weights and the elapsed time are the record \<open>world\<close>.
\<close>

section \<open>Requests and responses\<close>

definition assumedSpeedKPH :: real where "assumedSpeedKPH = 15"

record PlanRequest =
  Waypoints :: "LatLon list"
  rProfile :: string
  Custom :: "Profile option"
  rNight :: bool
  rAlternatives :: int

text \<open>\<open>Type\<close> of a GeoJSON geometry is always a line string; its coordinates are what is kept.\<close>

type_synonym geometry = "(real \<times> real) list"

record RouteSegment =
  segStart :: int
  segEnd :: int
  segLTS :: nat
  segInfra :: string
  segLengthM :: real

record SnapInfo =
  Requested :: LatLon
  siDistanceM :: real
  siRoadName :: string

record AlternativeRoute =
  altGeometry :: geometry
  altDistanceM :: real
  altDurationS :: int
  altCost :: real
  altSafetyScore :: real
  altBreakdown :: Breakdown
  altBudgetUsedM :: real

record PlanResponse =
  Geometry :: geometry
  rDistanceM :: real
  DurationS :: int
  Cost :: real
  SafetyScore :: real
  rBreakdown :: Breakdown
  Segments :: "RouteSegment list"
  rStressBudgetM :: real
  StressBudgetUsedM :: real
  BaselineDistanceM :: real
  BaselineScore :: real
  DetourRatio :: real
  pProfile :: Profile
  Warnings :: "string list"
  Snapped :: "SnapInfo list"
  EdgeCount :: int
  ComputeMS :: int
  rAlternativesList :: "AlternativeRoute list"

section \<open>The runs of a route\<close>

text \<open>One turn of the loop of \<open>buildSegments\<close>: the edge and the ends of its part of the line.\<close>

definition seg_step :: "graph \<Rightarrow> nat \<times> int \<times> int \<Rightarrow> RouteSegment list \<Rightarrow> RouteSegment list" where
  "seg_step g x out =
     (let (e, s, t) = x;
          degenerate = t \<le> s;
          lts = LTS g ! e; infra = infra_String (Infra g ! e); l = LengthM g ! e
      in if out \<noteq> [] \<and> (degenerate \<or> segLTS (last out) = lts \<and> segInfra (last out) = infra)
         then butlast out @ [(last out)\<lparr>segEnd := max (segEnd (last out)) t,
                segLengthM := segLengthM (last out) + l\<rparr>]
         else if degenerate then out
         else out @ [\<lparr>segStart = s, segEnd = t, segLTS = lts, segInfra = infra, segLengthM = l\<rparr>])"

definition edge_spans :: "nat list \<Rightarrow> int list \<Rightarrow> (nat \<times> int \<times> int) list" where
  "edge_spans edges offs = zip edges (zip offs (tl offs))"

definition raw_segments :: "graph \<Rightarrow> nat list \<Rightarrow> int list \<Rightarrow> RouteSegment list" where
  "raw_segments g edges offs = fold (seg_step g) (edge_spans edges offs) []"

definition buildSegments :: "graph \<Rightarrow> nat list \<Rightarrow> int list \<Rightarrow> RouteSegment list" where
  "buildSegments g edges offs =
     (if edges = [] \<or> length offs \<noteq> length edges + 1 then []
      else map (\<lambda>s. s\<lparr>segLengthM := round1 (segLengthM s)\<rparr>) (raw_segments g edges offs))"

section \<open>Checking the request\<close>

text \<open>\<open>order\<close> is the order in which the map of weights is walked.\<close>

definition resolveProfile :: "((string \<times> real) list \<Rightarrow> (string \<times> real) list) \<Rightarrow> PlanRequest \<Rightarrow>
    (failure, Profile) outcome" where
  "resolveProfile order req =
     (case Custom req of
        Some p \<Rightarrow>
          let p = (if Name p = [] then p\<lparr>Name := ''custom''\<rparr> else p)
          in (case Validate (order (profile_weights p)) p of
                Some problem \<Rightarrow> writeValidationError ''invalid custom profile''
                  [''custom'' \<mapsto> BadProfile problem]
              | None \<Rightarrow> Ok (p\<lparr>Night := Night p \<or> rNight req\<rparr>))
      | None \<Rightarrow>
          (case ProfileByName (rProfile req) of
             None \<Rightarrow> writeValidationError ''unknown profile'' [''profile'' \<mapsto> UnknownProfile (rProfile req)]
           | Some p \<Rightarrow> Ok (p\<lparr>Night := rNight req\<rparr>)))"

fun valid_points :: "nat \<Rightarrow> LatLon list \<Rightarrow> (failure, unit) outcome" where
  "valid_points i [] = Ok ()"
| "valid_points i (p # ps) =
     (if \<not> Valid p then
        with_text (itoa (int i)) (\<lambda>n. writeValidationError ''invalid coordinate''
          [''waypoints'' \<mapsto> Text (''point '' @ n @ '' is out of range'')])
      else valid_points (Suc i) ps)"

definition validWaypoints :: "LatLon list \<Rightarrow> (failure, unit) outcome" where
  "validWaypoints pts =
     (if length pts < 2 then writeValidationError ''at least two waypoints are required''
        [''waypoints'' \<mapsto> Text ''provide an origin and a destination'']
      else if length pts > 10 then writeValidationError ''too many waypoints''
        [''waypoints'' \<mapsto> Text ''at most 10 are supported'']
      else valid_points 0 pts)"

section \<open>Snapping and routing\<close>

record world =
  w_order :: "(string \<times> real) list \<Rightarrow> (string \<times> real) list"
  w_near :: "nat \<Rightarrow> real \<Rightarrow> real \<Rightarrow> snap_row cursor option"
  w_pool :: "nat \<Rightarrow> workspace option"
  w_base_pool :: "nat \<Rightarrow> workspace option"
  w_alt_pool :: "nat \<Rightarrow> workspace option"
  w_shapes :: "nat \<Rightarrow> int list \<Rightarrow> (int \<times> string) cursor option"
  w_unmarshal :: "string \<Rightarrow> real list list option"
  w_elapsed :: int

record Server =
  sGraph :: "graph option"
  sSnapper :: "bool list option option"
  sHazards :: "real list option"

fun snap_all :: "bool list option \<Rightarrow> world \<Rightarrow> nat \<Rightarrow> LatLon list \<Rightarrow> (failure, Snap list) outcome" where
  "snap_all main wd i [] = Ok []"
| "snap_all main wd i (p # ps) =
     (case SnapPoint main (w_near wd i) p of
        Panic \<Rightarrow> Panic
      | Err x \<Rightarrow>
          if x = ErrNoNearbyRoad then
            with_text (itoa (int i)) (\<lambda>n.
              writeError 422 CodeUnroutable (''no rideable road near waypoint '' @ n))
          else writeInternalError
      | Ok sn \<Rightarrow> obind (snap_all main wd (Suc i) ps) (\<lambda>sns. Ok (sn # sns)))"

definition plan_options :: "Model \<Rightarrow> options" where
  "plan_options m = \<lparr>EdgeCost = Model_EdgeCost m, TurnCost = Some (Model_TurnCost m),
     Allow = Some (Model_Allow m), Over = Some (Model_Over m),
     BudgetM = StressBudgetM (mProfile m), BudgetSteps = 0, MaxExpansions = 0, NoHeuristic = False\<rparr>"

definition baseline_options :: options where
  "baseline_options = \<lparr>EdgeCost = LengthOnlyCost, TurnCost = None, Allow = None, Over = None,
     BudgetM = 0, BudgetSteps = 0, MaxExpansions = 0, NoHeuristic = False\<rparr>"

record legs =
  lEdges :: "nat list"
  lCost :: real
  lLengthM :: real
  lBudgetUsedM :: real

fun legs_loop :: "(nat \<Rightarrow> workspace option) \<Rightarrow> graph \<Rightarrow> options \<Rightarrow> nat \<Rightarrow> Snap list \<Rightarrow> legs \<Rightarrow>
    (search_err, legs) outcome option" where
  "legs_loop pool g opt i (a # b # rest) acc =
     run_then (Search g (pool i) (NodeID a) (NodeID b) opt) (\<lambda>leg.
       legs_loop pool g opt (Suc i) (b # rest)
         \<lparr>lEdges = lEdges acc @ pEdges leg, lCost = lCost acc + pCost leg,
          lLengthM = lLengthM acc + pLengthM leg, lBudgetUsedM = lBudgetUsedM acc + pBudgetUsedM leg\<rparr>)"
| "legs_loop pool g opt i _ acc = Some (Ok acc)"

definition no_legs :: legs where
  "no_legs = \<lparr>lEdges = [], lCost = 0, lLengthM = 0, lBudgetUsedM = 0\<rparr>"

definition routeLegs :: "(nat \<Rightarrow> workspace option) \<Rightarrow> graph \<Rightarrow> Snap list \<Rightarrow> options \<Rightarrow>
    (search_err, legs) outcome option" where
  "routeLegs pool g snaps opt = legs_loop pool g opt 0 snaps no_legs"

text \<open>What the handler says when a leg has no route, and when the search fails otherwise.\<close>

definition refuse :: "Profile \<Rightarrow> search_err \<Rightarrow> (failure, 'a) outcome" where
  "refuse p x =
     (if x = ErrUnroutable then
        with_text (itoa (to_int64 (StressBudgetM p))) (\<lambda>budget. with_text (itoa (int (MaxLTS p))) (\<lambda>lts.
          Err (Failure 422 \<lparr>Code = CodeUnroutable,
            Message =
              (if StressBudgetM p = 0
               then ''no route satisfies this profile's maximum traffic stress of LTS '' @ lts
               else ''no route stays within this profile's stress budget of '' @ budget @
                 '' m above LTS '' @ lts),
            Details = [''max_lts'' \<mapsto> Text lts, ''stress_budget_m'' \<mapsto> Text budget, ''hint'' \<mapsto>
              Text ''raise stress_budget_m, or use a profile that tolerates more traffic stress'']\<rparr>)))
      else writeInternalError)"

definition plan_legs :: "world \<Rightarrow> graph \<Rightarrow> Model \<Rightarrow> Snap list \<Rightarrow> (failure, legs) outcome option" where
  "plan_legs wd g m snaps =
     (case routeLegs (w_pool wd) g snaps (plan_options m) of
        None \<Rightarrow> None
      | Some Panic \<Rightarrow> Some Panic
      | Some (Err x) \<Rightarrow> Some (refuse (mProfile m) x)
      | Some (Ok l) \<Rightarrow>
          if lEdges l = [] then Some (writeError 422 CodeUnroutable
            ''origin and destination resolve to the same point'')
          else Some (Ok l))"

text \<open>The baseline's error is dropped; the results that come with it are the empty route.\<close>

definition baseline :: "world \<Rightarrow> graph \<Rightarrow> Snap list \<Rightarrow> (failure, legs) outcome option" where
  "baseline wd g snaps =
     (case routeLegs (w_base_pool wd) g snaps baseline_options of
        None \<Rightarrow> None
      | Some Panic \<Rightarrow> Some Panic
      | Some (Err x) \<Rightarrow> Some (Ok no_legs)
      | Some (Ok l) \<Rightarrow> Some (Ok l))"

definition fetch :: "world \<Rightarrow> nat \<Rightarrow> graph \<Rightarrow> nat list \<Rightarrow>
    (failure, LatLon list \<times> int list) outcome" where
  "fetch wd q g edges =
     (case FetchGeometry (w_unmarshal wd) (w_shapes wd q) g edges of
        Ok r \<Rightarrow> Ok r | Err x \<Rightarrow> writeInternalError | Panic \<Rightarrow> Panic)"

definition duration :: "real \<Rightarrow> int" where
  "duration l = to_int64 (l / 1000 / assumedSpeedKPH * 3600)"

section \<open>Alternatives\<close>

text \<open>
  The loop of \<open>addAlternatives\<close>: a failed query ends it, and what was attached before stays.
\<close>

fun attach :: "world \<Rightarrow> graph \<Rightarrow> Model \<Rightarrow> nat \<Rightarrow> path list \<Rightarrow> (failure, AlternativeRoute list) outcome" where
  "attach wd g m q [] = Ok []"
| "attach wd g m q (p # ps) =
     (case FetchGeometry (w_unmarshal wd) (w_shapes wd q) g (pEdges p) of
        Panic \<Rightarrow> Panic
      | Err x \<Rightarrow> Ok []
      | Ok (pts, _) \<Rightarrow> obind (attach wd g m (Suc q) ps) (\<lambda>more. Ok (
          \<lparr>altGeometry = map GeoJSON pts, altDistanceM = round1 (pLengthM p),
           altDurationS = duration (pLengthM p), altCost = round1 (pCost p),
           altSafetyScore = round1 (Score g (pEdges p)), altBreakdown = Summarise m g (pEdges p),
           altBudgetUsedM = round1 (pBudgetUsedM p)\<rparr> # more)))"

text \<open>An error of the search is logged, and costs the extras only.\<close>

definition addAlternatives :: "world \<Rightarrow> graph \<Rightarrow> Model \<Rightarrow> Snap \<Rightarrow> Snap \<Rightarrow> int \<Rightarrow>
    (failure, AlternativeRoute list) outcome option" where
  "addAlternatives wd g m a b want =
     (let want = (if want > 2 then 2 else want)
      in case Alternatives g (w_alt_pool wd) (NodeID a) (NodeID b) (plan_options m) want of
           None \<Rightarrow> None
         | Some Panic \<Rightarrow> Some Panic
         | Some (Err x) \<Rightarrow> Some (Ok [])
         | Some (Ok paths) \<Rightarrow>
             if paths = [] then Some Panic else Some (attach wd g m 1 (tl paths)))"

definition plan_alternatives :: "world \<Rightarrow> graph \<Rightarrow> Model \<Rightarrow> Snap list \<Rightarrow> int \<Rightarrow>
    (failure, AlternativeRoute list) outcome option" where
  "plan_alternatives wd g m snaps want =
     (if want > 0 \<and> length snaps = 2 then addAlternatives wd g m (snaps ! 0) (snaps ! 1) want
      else Some (Ok []))"

section \<open>The response\<close>

definition detour :: "legs \<Rightarrow> legs \<Rightarrow> real" where
  "detour l base = (if lLengthM base > 0 then round2 (lLengthM l / lLengthM base) else 0)"

definition plan_warnings :: "Profile \<Rightarrow> legs \<Rightarrow> legs \<Rightarrow> (failure, string list) outcome" where
  "plan_warnings p l base =
     (if lLengthM base > 0 \<and> detour l base > MaxDetourRatio p then
        with_text (ftoa (detour l base)) (\<lambda>r. with_text (ftoa (MaxDetourRatio p)) (\<lambda>limit.
          Ok [''this route is '' @ r @ ''x the shortest distance, beyond this profile's limit of '' @
              limit @ ''; a less cautious profile would be more direct'']))
      else Ok [])"

definition snap_info :: "LatLon \<Rightarrow> Snap \<Rightarrow> SnapInfo" where
  "snap_info p sn = \<lparr>Requested = p, siDistanceM = round1 (SnapDistanceM sn), siRoadName = RoadName sn\<rparr>"

definition plan_response :: "graph \<Rightarrow> Model \<Rightarrow> PlanRequest \<Rightarrow> Snap list \<Rightarrow> legs \<Rightarrow> legs \<Rightarrow>
    LatLon list \<Rightarrow> int list \<Rightarrow> string list \<Rightarrow> AlternativeRoute list \<Rightarrow> int \<Rightarrow> PlanResponse" where
  "plan_response g m req snaps l base pts offs warnings alts elapsed =
     \<lparr>Geometry = map GeoJSON pts, rDistanceM = round1 (lLengthM l), DurationS = duration (lLengthM l),
      Cost = round1 (lCost l), SafetyScore = round1 (Score g (lEdges l)),
      rBreakdown = Summarise m g (lEdges l), Segments = buildSegments g (lEdges l) offs,
      rStressBudgetM = StressBudgetM (mProfile m), StressBudgetUsedM = round1 (lBudgetUsedM l),
      BaselineDistanceM = (if lLengthM base > 0 then round1 (lLengthM base) else 0),
      BaselineScore = (if lLengthM base > 0 then round1 (Score g (lEdges base)) else 0),
      DetourRatio = detour l base, pProfile = mProfile m, Warnings = warnings,
      Snapped = map2 snap_info (Waypoints req) snaps, EdgeCount = int (length (lEdges l)),
      ComputeMS = elapsed, rAlternativesList = alts\<rparr>"

definition handleRoutePlan :: "Server \<Rightarrow> world \<Rightarrow> string + PlanRequest \<Rightarrow>
    (failure, nat \<times> PlanResponse) outcome option" where
  "handleRoutePlan srv wd body =
     (case sGraph srv of
        None \<Rightarrow> Some (writeError 503 CodeInternal ''routing graph is not loaded yet'')
      | Some g \<Rightarrow>
          run_then (Some (decodeJSON body)) (\<lambda>req.
          run_then (Some (resolveProfile (w_order wd) req)) (\<lambda>p.
          run_then (Some (validWaypoints (Waypoints req))) (\<lambda>_.
          case sSnapper srv of
            None \<Rightarrow> Some Panic
          | Some main \<Rightarrow>
              run_then (Some (snap_all main wd 0 (Waypoints req))) (\<lambda>snaps.
              let m = WithHazards (NewModel p) (case sHazards srv of None \<Rightarrow> [] | Some h \<Rightarrow> h)
              in run_then (plan_legs wd g m snaps) (\<lambda>l.
                 run_then (baseline wd g snaps) (\<lambda>base.
                 run_then (Some (fetch wd 0 g (lEdges l))) (\<lambda>(pts, offs).
                 run_then (Some (plan_warnings p l base)) (\<lambda>warnings.
                 run_then (plan_alternatives wd g m snaps (rAlternatives req)) (\<lambda>alts.
                   Some (Ok (200, plan_response g m req snaps l base pts offs warnings alts
                     (w_elapsed wd)))))))))))))"

end
