(* ===== verification/Http_Plan.thy ===== *)
theory Http_Plan
  imports Http_Route
begin

text \<open>
  What \<open>handleRoutePlan\<close> promises: on a well-formed graph it always answers; what it answers is a
  ride through the snapped waypoints, leg by leg; and a refusal for want of a route means that
  some leg has no route within the rider's comfort.
\<close>

section \<open>The legs\<close>

definition map_ok :: "graph \<Rightarrow> bool" where
  "map_ok g \<longleftrightarrow> wf_graph g \<and> (\<forall>e<NumEdges g. 0 \<le> LengthM g ! e) \<and>
     int (NumEdges g) * 16 < 2147483648 \<and> int (NumNodes g) < 2147483648"

lemma map_ok_search: "map_ok g \<Longrightarrow> search_ok g opt"
proof -
  assume g: "map_ok g"
  have "int (NumEdges g) * fst (budgetBuckets opt) \<le> int (NumEdges g) * 16"
    using budgetBuckets_range by (intro mult_left_mono) auto
  then show "search_ok g opt" using g by (simp add: map_ok_def search_ok_def fits_def)
qed

definition leg_ok :: "graph \<Rightarrow> options \<Rightarrow> Snap \<Rightarrow> Snap \<Rightarrow> path \<Rightarrow> bool" where
  "leg_ok g opt a b p \<longleftrightarrow>
     (if NodeID a = NodeID b then p = empty_path
      else 0 \<le> NodeID a \<and> nat (NodeID a) < NumNodes g \<and>
        found_path g opt (nat (NodeID a)) (nat (NodeID b)) p)"

fun legs_ok :: "graph \<Rightarrow> options \<Rightarrow> Snap list \<Rightarrow> path list \<Rightarrow> bool" where
  "legs_ok g opt (a # b # rest) (p # ps) \<longleftrightarrow> leg_ok g opt a b p \<and> legs_ok g opt (b # rest) ps"
| "legs_ok g opt (a # b # rest) [] \<longleftrightarrow> False"
| "legs_ok g opt _ ps \<longleftrightarrow> ps = []"

definition legs_of :: "path list \<Rightarrow> legs" where
  "legs_of ps = \<lparr>lEdges = concat (map pEdges ps), lCost = sum_list (map pCost ps),
     lLengthM = sum_list (map pLengthM ps), lBudgetUsedM = sum_list (map pBudgetUsedM ps)\<rparr>"

definition add_legs :: "legs \<Rightarrow> legs \<Rightarrow> legs" where
  "add_legs a b = \<lparr>lEdges = lEdges a @ lEdges b, lCost = lCost a + lCost b,
     lLengthM = lLengthM a + lLengthM b, lBudgetUsedM = lBudgetUsedM a + lBudgetUsedM b\<rparr>"

lemma add_legs_Cons:
  "add_legs acc (legs_of (p # ps)) = add_legs \<lparr>lEdges = lEdges acc @ pEdges p,
     lCost = lCost acc + pCost p, lLengthM = lLengthM acc + pLengthM p,
     lBudgetUsedM = lBudgetUsedM acc + pBudgetUsedM p\<rparr> (legs_of ps)"
  by (simp add: add_legs_def legs_of_def)

lemma add_no_legs [simp]: "add_legs no_legs l = l"
  by (simp add: add_legs_def no_legs_def)

text \<open>Some leg of the trip that a search refuses.\<close>

definition leg_refused :: "(nat \<Rightarrow> workspace option) \<Rightarrow> graph \<Rightarrow> options \<Rightarrow> search_err \<Rightarrow> Snap \<Rightarrow> Snap \<Rightarrow> bool" where
  "leg_refused pool g opt x a b \<longleftrightarrow> (\<exists>i. Search g (pool i) (NodeID a) (NodeID b) opt = Some (Err x))"

lemma legs_loop_returns:
  assumes ok: "search_ok g opt"
  shows "(\<exists>ps. legs_ok g opt snaps ps \<and> legs_loop pool g opt i snaps acc = Some (Ok (add_legs acc (legs_of ps)))) \<or>
    (\<exists>x k. Suc k < length snaps \<and> leg_refused pool g opt x (snaps ! k) (snaps ! Suc k) \<and>
      legs_loop pool g opt i snaps acc = Some (Err x))"
proof (induction snaps arbitrary: i acc rule: induct_list012)
  case (3 a b rest)
  from Search_returns [OF ok, of "NodeID a" "NodeID b" "pool i"]
  consider x where "Search g (pool i) (NodeID a) (NodeID b) opt = Some (Err x)"
    | p where "Search g (pool i) (NodeID a) (NodeID b) opt = Some (Ok p)" "leg_ok g opt a b p"
    by (auto simp: leg_ok_def)
  then show ?case
  proof cases
    case 1
    then have "legs_loop pool g opt i (a # b # rest) acc = Some (Err x)" by simp
    moreover have "leg_refused pool g opt x ((a # b # rest) ! 0) ((a # b # rest) ! Suc 0)"
      using 1 by (auto simp: leg_refused_def)
    ultimately show ?thesis by (intro disjI2 exI [of _ x] exI [of _ 0]) simp
  next
    case 2
    define acc' where "acc' = \<lparr>lEdges = lEdges acc @ pEdges p, lCost = lCost acc + pCost p,
      lLengthM = lLengthM acc + pLengthM p, lBudgetUsedM = lBudgetUsedM acc + pBudgetUsedM p\<rparr>"
    have step: "legs_loop pool g opt i (a # b # rest) acc = legs_loop pool g opt (Suc i) (b # rest) acc'"
      using 2 by (simp add: acc'_def)
    have add: "add_legs acc (legs_of (p # ps)) = add_legs acc' (legs_of ps)" for ps
      by (simp add: add_legs_Cons acc'_def)
    from "3.IH"(2) [of "Suc i" acc'] show ?thesis
    proof (elim disjE exE conjE)
      fix ps assume "legs_ok g opt (b # rest) ps"
        "legs_loop pool g opt (Suc i) (b # rest) acc' = Some (Ok (add_legs acc' (legs_of ps)))"
      then show ?thesis using 2 step add by (intro disjI1 exI [of _ "p # ps"]) simp
    next
      fix x k assume "Suc k < length (b # rest)"
        "leg_refused pool g opt x ((b # rest) ! k) ((b # rest) ! Suc k)"
        "legs_loop pool g opt (Suc i) (b # rest) acc' = Some (Err x)"
      then show ?thesis using step by (intro disjI2 exI [of _ x] exI [of _ "Suc k"]) simp
    qed
  qed
qed (auto simp: add_legs_def legs_of_def)

lemma routeLegs_returns:
  assumes "search_ok g opt"
  shows "(\<exists>ps. legs_ok g opt snaps ps \<and> routeLegs pool g snaps opt = Some (Ok (legs_of ps))) \<or>
    (\<exists>x k. Suc k < length snaps \<and> leg_refused pool g opt x (snaps ! k) (snaps ! Suc k) \<and>
      routeLegs pool g snaps opt = Some (Err x))"
  unfolding routeLegs_def using legs_loop_returns [OF assms, of snaps pool 0 no_legs] by simp

lemma legs_ok_nth:
  "legs_ok g opt snaps ps \<Longrightarrow> length ps = length snaps - 1 \<and>
     (\<forall>k<length ps. leg_ok g opt (snaps ! k) (snaps ! Suc k) (ps ! k))"
proof (induction g opt snaps ps rule: legs_ok.induct)
  case (1 g opt a b rest p ps)
  then show ?case by (auto simp: nth_Cons split: nat.splits)
qed simp_all

section \<open>What a leg is\<close>

text \<open>
  A leg of a trip with profile \<open>p\<close>: nothing where both ends are the same node, otherwise a route
  of allowed edges whose cost and length are the sums over it, and which is over the rider's
  comfort for no more than the budget, up to the rounding of the running total.
\<close>

definition is_leg :: "graph \<Rightarrow> Model \<Rightarrow> Snap \<Rightarrow> Snap \<Rightarrow> path \<Rightarrow> bool" where
  "is_leg g m a b p \<longleftrightarrow>
     (let opt = plan_options m; budget = StressBudgetM (mProfile m);
          k = length (filter (Model_Over m g) (pEdges p))
      in (if NodeID a = NodeID b then pEdges p = []
          else route g opt (nat (NodeID a)) (nat (NodeID b)) (pEdges p)) \<and>
         pCost p = path_cost g opt (pEdges p) \<and> pLengthM p = path_length g (pEdges p) \<and>
         pLengthM p \<le> pCost p \<and> 0 \<le> pLengthM p \<and>
         (budget = 0 \<or> 2 powr (- 126) \<le> budget \<longrightarrow>
            OverThresholdM m g (pEdges p) \<le> budget + real k * (budget / 2 ^ 24)))"

lemma plan_options_floor:
  assumes "profile_ok (mProfile m)" and "\<forall>e<NumEdges g. 0 \<le> LengthM g ! e"
  shows "cost_floor g (plan_options m)"
  using assms
  by (simp add: cost_floor_def plan_options_def turn_cost_def Model_EdgeCost_ge_length Model_TurnCost_range)

lemma plan_is_over [simp]: "is_over (plan_options m) g = Model_Over m g"
  by (simp add: is_over_def plan_options_def fun_eq_iff)

lemma plan_BudgetM [simp]: "BudgetM (plan_options m) = StressBudgetM (mProfile m)"
  by (simp add: plan_options_def)

text \<open>Without a budget no edge over the threshold is allowed at all.\<close>

lemma no_budget_no_exposure:
  assumes "StressBudgetM (mProfile m) \<le> 0" and "\<forall>e\<in>set es. allowed (plan_options m) g e"
  shows "filter (Model_Over m g) es = []"
  using assms by (auto simp: allowed_def plan_options_def Model_Allow_def filter_empty_conv)

lemma plan_exposure: "exposure (plan_options m) g es = OverThresholdM m g es"
  by (rule OverThresholdM_exposure [symmetric]) (simp add: plan_options_def)

lemma route_exposure:
  assumes ok: "search_ok g (plan_options m)" and prof: "profile_ok (mProfile m)"
    and start: "start < NumNodes g" and f: "found_path g (plan_options m) start goal p"
    and r: "route g (plan_options m) start goal (pEdges p)"
    and b: "b = 0 \<or> 2 powr (- 126) \<le> b" "b = StressBudgetM (mProfile m)"
  shows "OverThresholdM m g (pEdges p) \<le> b + real (length (filter (Model_Over m g) (pEdges p))) * (b / 2 ^ 24)"
proof (cases "b = 0")
  case True
  then have "filter (Model_Over m g) (pEdges p) = []"
    using r b(2) by (intro no_budget_no_exposure) (auto simp: route_def)
  then show ?thesis using True by (simp add: plan_exposure [symmetric] exposure_def path_length_def)
next
  case False
  let ?k = "length (filter (Model_Over m g) (pEdges p))"
  have b0: "0 \<le> b" using prof b(2) by (simp add: profile_ok_def)
  have re: "reaches g (plan_options m) start (rev (pEdges p)) (pCost p) (pBudgetUsedM p)"
    using f by (simp add: found_path_def)
  have "2 powr (- 126) \<le> BudgetM (plan_options m)" using False b by simp
  note ex = reaches_exposure [OF ok start this re]
  have "length (filter (is_over (plan_options m) g) (rev (pEdges p))) = ?k" by (simp add: rev_filter [symmetric])
  then have "?k \<noteq> 0 \<longrightarrow> OverThresholdM m g (pEdges p) \<le> b + real (?k - 1) * (b / 2 ^ 24)"
    using ex b(2) by (simp add: plan_exposure) (metis length_0_conv)
  moreover have "real (?k - 1) * (b / 2 ^ 24) \<le> real ?k * (b / 2 ^ 24)"
    using b0 by (intro mult_right_mono) auto
  moreover have "?k = 0 \<Longrightarrow> OverThresholdM m g (pEdges p) = 0"
    by (simp add: plan_exposure [symmetric] exposure_def path_length_def)
  ultimately show ?thesis using b0 by (cases "?k = 0") auto
qed

lemma leg_ok_is_leg:
  assumes g: "map_ok g" and prof: "profile_ok (mProfile m)" and l: "leg_ok g (plan_options m) a b p"
  shows "is_leg g m a b p"
proof (cases "NodeID a = NodeID b")
  case True
  then have "p = empty_path" using l by (simp add: leg_ok_def)
  moreover have "0 \<le> StressBudgetM (mProfile m)" using prof by (simp add: profile_ok_def)
  moreover have "OverThresholdM m g [] = 0" by (simp add: OverThresholdM_def)
  ultimately show ?thesis using True by (simp add: is_leg_def Let_def empty_path_def path_length_def)
next
  case False
  let ?opt = "plan_options m"
  note ok = map_ok_search [OF g, of ?opt]
  have start: "nat (NodeID a) < NumNodes g" and f: "found_path g ?opt (nat (NodeID a)) (nat (NodeID b)) p"
    using l False by (simp_all add: leg_ok_def)
  note r = found_path_route [OF ok start f]
  have pos: "\<forall>e\<in>set (pEdges p). 0 \<le> LengthM g ! e" using r g by (auto simp: route_def map_ok_def)
  have "edge_pricing.priced (Model_EdgeCost m) (Model_TurnCost m) ?opt"
    using valid_model_pricing [OF prof] by (simp add: edge_pricing.priced_def plan_options_def)
  then have "path_length g (pEdges p) \<le> path_cost g ?opt (pEdges p)"
    using edge_pricing.path_cost_ge_length [OF valid_model_pricing [OF prof]] pos by blast
  moreover have "0 \<le> path_length g (pEdges p)" by (rule path_length_nonneg [OF pos])
  ultimately show ?thesis
    using False r route_exposure [OF ok prof start f _ _ refl]
    unfolding is_leg_def Let_def by (simp only: if_False) blast
qed

section \<open>Profiles\<close>

definition fair_order :: "((string \<times> real) list \<Rightarrow> (string \<times> real) list) \<Rightarrow> bool" where
  "fair_order order \<longleftrightarrow> (\<forall>ws. mset (order ws) = mset ws)"

lemma resolveProfile_ok:
  assumes "fair_order order" and "resolveProfile order req = Ok p"
  shows "profile_ok p"
proof -
  have night: "profile_ok (q\<lparr>Night := b\<rparr>) = profile_ok q" for q b
    by (simp add: profile_ok_def profile_weights_def)
  show ?thesis
    using assms Validate_iff ProfileByName_ok
    by (auto simp: resolveProfile_def fair_order_def Let_def night writeValidationError_def
        split: option.splits if_splits)
qed

lemma resolveProfile_error:
  "resolveProfile order req = Err f \<Longrightarrow> failure_status f = 400 \<and> Code (failure_body f) = CodeBadRequest \<and>
     Details (failure_body f) ''hint'' = None"
  "resolveProfile order req \<noteq> Panic"
  by (auto simp: resolveProfile_def Let_def writeValidationError_def split: option.splits if_splits)

section \<open>Every step answers\<close>

text \<open>The kinds of failure the handler has, and those that do not mean a missing route.\<close>

definition plan_failure :: "failure \<Rightarrow> bool" where
  "plan_failure f \<longleftrightarrow> (failure_status f, Code (failure_body f)) \<in>
     {(503, CodeInternal), (400, CodeBadRequest), (422, CodeUnroutable), (500, CodeInternal)}"

definition plain_failure :: "failure \<Rightarrow> bool" where
  "plain_failure f \<longleftrightarrow> plan_failure f \<and> Details (failure_body f) ''hint'' = None"

definition answers :: "(failure, 'a) outcome \<Rightarrow> bool" where
  "answers r \<longleftrightarrow> r \<noteq> Panic \<and> (\<forall>f. r = Err f \<longrightarrow> plain_failure f)"

lemma answers_simps [simp]:
  "answers (Ok x)" "\<not> answers Panic" "answers (Err f) \<longleftrightarrow> plain_failure f"
  by (simp_all add: answers_def)

lemma answers_obind: "answers r \<Longrightarrow> (\<And>a. r = Ok a \<Longrightarrow> answers (k a)) \<Longrightarrow> answers (obind r k)"
  by (cases r) auto

lemma answers_internal [simp]: "answers writeInternalError"
  by (simp add: write_defs plain_failure_def plan_failure_def)

lemma answers_decode [simp]: "answers (decodeJSON body)"
  by (cases body) (simp_all add: decodeJSON_def writeError_def plain_failure_def plan_failure_def)

lemma answers_profile [simp]: "answers (resolveProfile order req)"
  using resolveProfile_error [of order req]
  by (cases "resolveProfile order req") (auto simp: plain_failure_def plan_failure_def)

lemma itoa_index: "n < 10 ^ 12 \<Longrightarrow> itoa (int n) = Ok (FormatInt (int n))"
  by (rule itoa_FormatInt) simp_all

lemma answers_points: "length ps + i \<le> 10 \<Longrightarrow> answers (valid_points i ps)"
  by (induction i ps rule: valid_points.induct)
    (auto simp: itoa_index writeValidationError_def plain_failure_def plan_failure_def)

lemma answers_waypoints: "answers (validWaypoints pts)"
  using answers_points [of pts 0]
  by (auto simp: validWaypoints_def writeValidationError_def plain_failure_def plan_failure_def)

lemma validWaypoints_length: "validWaypoints pts = Ok () \<Longrightarrow> 2 \<le> length pts \<and> length pts \<le> 10"
  by (auto simp: validWaypoints_def writeValidationError_def split: if_splits)

lemma answers_snaps:
  "length ps + i \<le> 10 \<Longrightarrow> \<forall>i p. SnapPoint main (w_near wd i) p \<noteq> Panic \<Longrightarrow> answers (snap_all main wd i ps)"
proof (induction main wd i ps rule: snap_all.induct)
  case (2 main wd i p ps)
  show ?case
  proof (cases "SnapPoint main (w_near wd i) p")
    case (Ok sn)
    then have "answers (snap_all main wd (Suc i) ps)" using 2 by simp
    then show ?thesis using Ok by (auto intro: answers_obind)
  next
    case (Err x)
    then show ?thesis using 2
      by (auto simp: itoa_index writeError_def plain_failure_def plan_failure_def)
  next
    case Panic
    then show ?thesis using 2 by blast
  qed
qed simp

lemma snap_all_length: "snap_all main wd i ps = Ok snaps \<Longrightarrow> length snaps = length ps"
  by (induction main wd i ps arbitrary: snaps rule: snap_all.induct)
    (auto simp: obind_Ok_iff with_text_def write_defs split: outcome.splits if_splits)

lemma snap_all_nth:
  "snap_all main wd i ps = Ok snaps \<Longrightarrow> k < length ps \<Longrightarrow> SnapPoint main (w_near wd (i + k)) (ps ! k) = Ok (snaps ! k)"
proof (induction main wd i ps arbitrary: snaps k rule: snap_all.induct)
  case (2 main wd i p ps)
  then show ?case
    by (auto simp: obind_Ok_iff with_text_def write_defs nth_Cons split: outcome.splits if_splits nat.splits)
qed simp

text \<open>Nothing in fetching the geometry panics.\<close>

lemma obind_no_panic: "r \<noteq> Panic \<Longrightarrow> (\<And>a. r = Ok a \<Longrightarrow> k a \<noteq> Panic) \<Longrightarrow> obind r k \<noteq> Panic"
  by (cases r) auto

lemma assemble_loop_no_panic: "assemble_loop shapes ids out offs \<noteq> Panic"
  by (induction shapes ids out offs rule: assemble_loop.induct) (auto simp: Let_def split: option.splits)

lemma decode_coords_no_panic: "decode_coords cs \<noteq> Panic"
proof (induction cs)
  case (Cons c cs)
  then show ?case by (cases "decode_coords cs") auto
qed simp

lemma read_shapes_no_panic: "read_shapes unmarshal rs shapes \<noteq> Panic"
proof (induction unmarshal rs shapes rule: read_shapes.induct)
  case (3 unmarshal i raw rs shapes)
  have "decodeLineString unmarshal raw \<noteq> Panic"
    using decode_coords_no_panic by (simp add: decodeLineString_def split: option.splits)
  then show ?case unfolding read_shapes.simps by (rule obind_no_panic) (rule 3)
qed simp_all

lemma FetchGeometry_no_panic: "FetchGeometry unmarshal query g edges \<noteq> Panic"
proof -
  have "assemble ids shapes \<noteq> Panic" for ids shapes by (simp add: assemble_def assemble_loop_no_panic)
  then have "obind (read_shapes unmarshal (rows c) Map.empty) (\<lambda>shapes.
      if rows_err c then Err ReadFailed else assemble ids shapes) \<noteq> Panic" for c :: "(int \<times> string) cursor" and ids
    by (intro obind_no_panic read_shapes_no_panic) simp
  then show ?thesis by (simp add: FetchGeometry_def Let_def split: option.splits)
qed

lemma answers_fetch [simp]: "answers (fetch wd q g es)"
  using FetchGeometry_no_panic by (auto simp: fetch_def split: outcome.splits)

lemma attach_ok: "\<exists>alts. attach wd g m q ps = Ok alts \<and> length alts \<le> length ps"
proof (induction ps arbitrary: q)
  case (Cons p ps)
  obtain alts where "attach wd g m (Suc q) ps = Ok alts" "length alts \<le> length ps" using Cons by blast
  then show ?case using FetchGeometry_no_panic [of "w_unmarshal wd" "w_shapes wd q" g "pEdges p"]
    by (cases "FetchGeometry (w_unmarshal wd) (w_shapes wd q) g (pEdges p)") auto
qed simp

section \<open>Routing\<close>

lemma refuse_cases:
  assumes "profile_ok p"
  shows "refuse p x = (writeInternalError :: (failure, legs) outcome) \<or> (x = ErrUnroutable \<and>
    (\<exists>f. (refuse p x :: (failure, legs) outcome) = Err f \<and> failure_status f = 422 \<and> Code (failure_body f) = CodeUnroutable))"
proof -
  have "0 \<le> StressBudgetM p" "StressBudgetM p \<le> 20000" "MaxLTS p \<le> 4" using assms by (simp_all add: profile_ok_def)
  then have "itoa (to_int64 (StressBudgetM p)) = Ok (FormatInt \<lfloor>StressBudgetM p\<rfloor>)"
    "itoa (int (MaxLTS p)) = Ok (FormatInt (int (MaxLTS p)))"
    by (simp_all add: to_int64_small itoa_FormatInt floor_less_iff)
  then show ?thesis by (simp add: refuse_def)
qed

lemma plan_legs_cases:
  assumes g: "map_ok g" and p: "profile_ok (mProfile m)"
  shows "(\<exists>ps. legs_ok g (plan_options m) snaps ps \<and> lEdges (legs_of ps) \<noteq> [] \<and>
      plan_legs wd g m snaps = Some (Ok (legs_of ps))) \<or>
    (\<exists>f. plan_legs wd g m snaps = Some (Err f) \<and> plan_failure f \<and>
      (Details (failure_body f) ''hint'' \<noteq> None \<longrightarrow> (\<exists>k. Suc k < length snaps \<and>
         leg_refused (w_pool wd) g (plan_options m) ErrUnroutable (snaps ! k) (snaps ! Suc k))))"
proof -
  have plain: "plan_failure f \<and> Details (failure_body f) ''hint'' = None" if "writeInternalError = Err f" for f
    using that by (auto simp: write_defs plan_failure_def)
  from routeLegs_returns [OF map_ok_search [OF g], where snaps = snaps and pool = "w_pool wd" and opt = "plan_options m"]
  show ?thesis
  proof (elim disjE exE conjE)
    fix ps assume "legs_ok g (plan_options m) snaps ps"
      "routeLegs (w_pool wd) g snaps (plan_options m) = Some (Ok (legs_of ps))"
    then show ?thesis
      by (cases "lEdges (legs_of ps) = []") (auto simp: plan_legs_def writeError_def plan_failure_def)
  next
    fix x k assume k: "Suc k < length snaps"
      "leg_refused (w_pool wd) g (plan_options m) x (snaps ! k) (snaps ! Suc k)"
      "routeLegs (w_pool wd) g snaps (plan_options m) = Some (Err x)"
    from refuse_cases [OF p, of x]
    show ?thesis
    proof (elim disjE exE conjE)
      assume "refuse (mProfile m) x = (writeInternalError :: (failure, legs) outcome)"
      then have "plan_legs wd g m snaps = Some writeInternalError" using k by (simp add: plan_legs_def)
      then show ?thesis using plain by (auto simp: write_defs plan_failure_def)
    next
      fix f assume f: "x = ErrUnroutable" "(refuse (mProfile m) x :: (failure, legs) outcome) = Err f" "failure_status f = 422"
        "Code (failure_body f) = CodeUnroutable"
      then have "plan_legs wd g m snaps = Some (Err f)" using k by (simp add: plan_legs_def)
      then show ?thesis using k f by (auto simp: plan_failure_def)
    qed
  qed
qed

lemma baseline_returns: "map_ok g \<Longrightarrow> \<exists>base. baseline wd g snaps = Some (Ok base)"
  using routeLegs_returns [OF map_ok_search, where snaps = snaps and pool = "w_base_pool wd" and opt = baseline_options]
  by (fastforce simp: baseline_def)

lemma plan_alternatives_returns:
  assumes g: "map_ok g" and legs: "legs_ok g (plan_options m) snaps ps" "lEdges (legs_of ps) \<noteq> []"
  shows "\<exists>alts. plan_alternatives wd g m snaps want = Some (Ok alts) \<and> length alts \<le> 2"
proof (cases "want > 0 \<and> length snaps = 2")
  case True
  then obtain a b where ab: "snaps = [a, b]" by (metis length_0_conv length_Suc_conv numeral_2_eq_2)
  have "NodeID a \<noteq> NodeID b"
  proof
    assume "NodeID a = NodeID b"
    then have "ps = [empty_path]" using legs(1) ab by (cases ps) (auto simp: leg_ok_def)
    then show False using legs(2) by (simp add: legs_of_def empty_path_def)
  qed
  from Alternatives_returns [OF map_ok_search [OF g] this, of "w_alt_pool wd" "plan_options m" "if want > 2 then 2 else want"]
  show ?thesis
  proof (elim disjE exE conjE)
    fix x assume "Alternatives g (w_alt_pool wd) (NodeID a) (NodeID b) (plan_options m) (if want > 2 then 2 else want) = Some (Err x)"
    then show ?thesis using True ab by (simp add: plan_alternatives_def addAlternatives_def Let_def)
  next
    fix p more assume A: "Alternatives g (w_alt_pool wd) (NodeID a) (NodeID b) (plan_options m)
        (if want > 2 then 2 else want) = Some (Ok (p # more))"
      "int (length more) \<le> max 0 (if want > 2 then 2 else want)"
    obtain alts where "attach wd g m 1 more = Ok alts" "length alts \<le> length more" using attach_ok by blast
    then show ?thesis using True ab A by (auto simp: plan_alternatives_def addAlternatives_def Let_def split: if_splits)
  qed
qed (auto simp: plan_alternatives_def)

lemma plan_warnings_cases:
  assumes "profile_ok p"
  shows "(\<exists>ws. plan_warnings p l base = Ok ws) \<or> (plan_warnings p l base = Panic \<and> 10 ^ 12 \<le> detour l base)"
proof (cases "lLengthM base > 0 \<and> detour l base > MaxDetourRatio p")
  case True
  have m: "0 \<le> MaxDetourRatio p" "MaxDetourRatio p < 10 ^ 12" using assms by (simp_all add: profile_ok_def)
  then have "0 \<le> detour l base" using True by linarith
  then show ?thesis using ftoa_text [OF m] ftoa_text [of "detour l base"] True
    by (cases "detour l base < 10 ^ 12") (auto simp: plan_warnings_def with_text_def split: outcome.splits)
qed (auto simp: plan_warnings_def)

section \<open>The whole handler\<close>

definition plan_model :: "Server \<Rightarrow> Profile \<Rightarrow> Model" where
  "plan_model srv p = WithHazards (NewModel p) (case sHazards srv of None \<Rightarrow> [] | Some h \<Rightarrow> h)"

lemma plan_model_profile [simp]: "mProfile (plan_model srv p) = p"
  by (simp add: plan_model_def WithHazards_def NewModel_def)

text \<open>The handler from the point where the waypoints are snapped.\<close>

definition plan_rest :: "world \<Rightarrow> graph \<Rightarrow> Model \<Rightarrow> PlanRequest \<Rightarrow> Snap list \<Rightarrow>
    (failure, nat \<times> PlanResponse) outcome option" where
  "plan_rest wd g m req snaps =
     run_then (plan_legs wd g m snaps) (\<lambda>l.
     run_then (baseline wd g snaps) (\<lambda>base.
     run_then (Some (fetch wd 0 g (lEdges l))) (\<lambda>(pts, offs).
     run_then (Some (plan_warnings (mProfile m) l base)) (\<lambda>warnings.
     run_then (plan_alternatives wd g m snaps (rAlternatives req)) (\<lambda>alts.
       Some (Ok (200, plan_response g m req snaps l base pts offs warnings alts (w_elapsed wd))))))))"

lemma handler_unfold:
  assumes "sGraph srv = Some g" and "sSnapper srv = Some main"
  shows "handleRoutePlan srv wd body =
    run_then (Some (decodeJSON body)) (\<lambda>req.
    run_then (Some (resolveProfile (w_order wd) req)) (\<lambda>p.
    run_then (Some (validWaypoints (Waypoints req))) (\<lambda>_.
    run_then (Some (snap_all main wd 0 (Waypoints req))) (\<lambda>snaps.
      plan_rest wd g (plan_model srv p) req snaps))))"
  by (simp add: handleRoutePlan_def assms plan_rest_def plan_model_def [symmetric] Let_def)

text \<open>The three ways the rest can end.\<close>

definition rest_ends :: "world \<Rightarrow> graph \<Rightarrow> Model \<Rightarrow> PlanRequest \<Rightarrow> Snap list \<Rightarrow>
    (failure, nat \<times> PlanResponse) outcome \<Rightarrow> bool" where
  "rest_ends wd g m req snaps r \<longleftrightarrow> (case r of
     Err f \<Rightarrow> plan_failure f \<and> (Details (failure_body f) ''hint'' \<noteq> None \<longrightarrow>
       (\<exists>k. Suc k < length snaps \<and>
          leg_refused (w_pool wd) g (plan_options m) ErrUnroutable (snaps ! k) (snaps ! Suc k)))
   | Panic \<Rightarrow> (\<exists>ps base. legs_ok g (plan_options m) snaps ps \<and> baseline wd g snaps = Some (Ok base) \<and>
       10 ^ 12 \<le> detour (legs_of ps) base)
   | Ok (st, resp) \<Rightarrow> st = 200 \<and> (\<exists>ps base pts offs warnings alts.
       legs_ok g (plan_options m) snaps ps \<and> lEdges (legs_of ps) \<noteq> [] \<and>
       baseline wd g snaps = Some (Ok base) \<and> fetch wd 0 g (lEdges (legs_of ps)) = Ok (pts, offs) \<and>
       length alts \<le> 2 \<and> resp = plan_response g m req snaps (legs_of ps) base pts offs warnings alts
         (w_elapsed wd)))"

lemma plain_failure_ends: "plain_failure f \<Longrightarrow> rest_ends wd g m req snaps (Err f)"
  by (simp add: rest_ends_def plain_failure_def)

lemma plan_rest_ends:
  assumes g: "map_ok g" and p: "profile_ok (mProfile m)"
  shows "\<exists>r. plan_rest wd g m req snaps = Some r \<and> rest_ends wd g m req snaps r"
  using plan_legs_cases [OF g p, of snaps wd]
proof (elim disjE exE conjE)
  fix f assume "plan_legs wd g m snaps = Some (Err f)" "plan_failure f"
    "Details (failure_body f) ''hint'' \<noteq> None \<longrightarrow> (\<exists>k. Suc k < length snaps \<and>
       leg_refused (w_pool wd) g (plan_options m) ErrUnroutable (snaps ! k) (snaps ! Suc k))"
  then show ?thesis by (simp add: plan_rest_def rest_ends_def)
next
  fix ps assume ps: "legs_ok g (plan_options m) snaps ps" "lEdges (legs_of ps) \<noteq> []"
    "plan_legs wd g m snaps = Some (Ok (legs_of ps))"
  obtain base where base: "baseline wd g snaps = Some (Ok base)" using baseline_returns [OF g] by blast
  obtain alts where alts: "plan_alternatives wd g m snaps (rAlternatives req) = Some (Ok alts)" "length alts \<le> 2"
    using plan_alternatives_returns [OF g ps(1,2)] by blast
  note so_far = plan_rest_def ps(3) base alts
  show ?thesis
  proof (cases "fetch wd 0 g (lEdges (legs_of ps))")
    case (Err f)
    then have "plain_failure f" using answers_fetch [of wd 0 g "lEdges (legs_of ps)"] by simp
    then show ?thesis using Err plain_failure_ends by (simp add: so_far)
  next
    case Panic
    then show ?thesis using answers_fetch [of wd 0 g "lEdges (legs_of ps)"] by simp
  next
    case (Ok shape)
    then obtain pts offs where shape: "fetch wd 0 g (lEdges (legs_of ps)) = Ok (pts, offs)" by (cases shape) auto
    from plan_warnings_cases [OF p, of "legs_of ps" base] show ?thesis
    proof (elim disjE exE conjE)
      fix ws assume "plan_warnings (mProfile m) (legs_of ps) base = Ok ws"
      then have "plan_rest wd g m req snaps = Some (Ok (200,
          plan_response g m req snaps (legs_of ps) base pts offs ws alts (w_elapsed wd)))"
        by (simp add: so_far shape)
      moreover have "rest_ends wd g m req snaps (Ok (200,
          plan_response g m req snaps (legs_of ps) base pts offs ws alts (w_elapsed wd)))"
        unfolding rest_ends_def
        by (simp, intro exI [of _ ps] exI [of _ base] exI [of _ pts] exI [of _ offs] exI [of _ ws]
          exI [of _ alts] conjI) (use ps base alts(2) shape in auto)
      ultimately show ?thesis by blast
    next
      assume "plan_warnings (mProfile m) (legs_of ps) base = Panic" "10 ^ 12 \<le> detour (legs_of ps) base"
      then show ?thesis using ps base shape by (auto simp: so_far rest_ends_def)
    qed
  qed
qed

section \<open>A refusal is true\<close>

lemma straight_half_way_round:
  assumes "\<forall>e<NumEdges g. 0 \<le> LengthM g ! e"
  shows "straight g (pi * EarthRadiusM)"
proof -
  have "DistanceM a b \<le> l + pi * EarthRadiusM" if "0 \<le> l" for a b l
    using DistanceM_le [of a b] that by linarith
  moreover have "0 \<le> pi * EarthRadiusM" using less_imp_le [OF EarthRadiusM_pos] by simp
  ultimately show ?thesis using assms by (simp add: straight_def)
qed

lemma plan_buckets: "fst (budgetBuckets (plan_options m)) \<le> 4"
  by (simp add: budgetBuckets_def plan_options_def defaultBudgetSteps_def maxBudgetSteps_def)

lemma unroutable_in_range:
  assumes "fits g opt" and "Search g pooled start goal opt = Some (Err ErrUnroutable)"
  shows "start \<noteq> goal \<and> 0 \<le> start \<and> nat start < NumNodes g \<and> 0 \<le> goal \<and> nat goal < NumNodes g"
proof -
  have ne: "start \<noteq> goal" using assms(2) by (auto simp: Search_def)
  have "validate g start goal \<noteq> Some ErrNodeRange" using assms(2) ne by (auto simp: Search_def)
  then show ?thesis using ne assms(1) by (auto simp: validate_def Let_def fits_def int32_id split: if_splits)
qed

lemma refused_no_route:
  assumes g: "map_ok g" and p: "profile_ok (mProfile m)" and few: "NumEdges g \<le> 1000000"
    and refused: "leg_refused pool g (plan_options m) ErrUnroutable a b"
  shows "NodeID a \<noteq> NodeID b \<and> \<not> free_route g (plan_options m) (nat (NodeID a)) (nat (NodeID b)) r"
proof -
  let ?opt = "plan_options m"
  obtain i where S: "Search g (pool i) (NodeID a) (NodeID b) ?opt = Some (Err ErrUnroutable)"
    using refused by (auto simp: leg_refused_def)
  note ok = map_ok_search [OF g, of ?opt]
  have rng: "NodeID a \<noteq> NodeID b" "int (nat (NodeID a)) = NodeID a" "int (nat (NodeID b)) = NodeID b"
    "nat (NodeID a) < NumNodes g" "nat (NodeID a) \<noteq> nat (NodeID b)"
    using unroutable_in_range [OF search_ok_facts(4) [OF ok] S] by auto
  have pos: "\<forall>e<NumEdges g. 0 \<le> LengthM g ! e" using g by (simp add: map_ok_def)
  have "1 \<le> pi * EarthRadiusM"
    using mult_mono [of 1 pi 1 EarthRadiusM] pi_ge_two by (simp add: EarthRadiusM_def)
  then have ec: "free_route g ?opt (nat (NodeID a)) (nat (NodeID b)) r \<Longrightarrow>
      eps_consistent g ?opt (nat (NodeID b)) (pi * EarthRadiusM + pi * EarthRadiusM / 2 ^ 23) r"
    by (intro eps_consistent_guided [OF plan_options_floor [OF p pos] straight_half_way_round [OF pos] _ _
        search_ok_facts(1) [OF ok]]) (simp_all add: goal_dist_def DistanceM_le)
  have "int (NumEdges g) * fst (budgetBuckets ?opt) \<le> 1000000 * 4"
    using few plan_buckets budgetBuckets_range [of ?opt] by (intro mult_mono) auto
  then have "\<not> expansion_limit ?opt < int (NumEdges g) * fst (budgetBuckets ?opt)"
    by (simp add: expansion_limit_def plan_options_def defaultMaxExpansions_def)
  then show ?thesis
    using Search_rival [OF ok rng(4,5) _ ec, of "pool i"] S rng by auto
qed

section \<open>From the request to the reply\<close>

definition server_ok :: "Server \<Rightarrow> world \<Rightarrow> bool" where
  "server_ok srv wd \<longleftrightarrow> fair_order (w_order wd) \<and> (case sGraph srv of None \<Rightarrow> True
     | Some g \<Rightarrow> map_ok g \<and> (case sSnapper srv of None \<Rightarrow> False
         | Some main \<Rightarrow> \<forall>i p. SnapPoint main (w_near wd i) p \<noteq> Panic))"

definition accepted :: "Server \<Rightarrow> world \<Rightarrow> string + PlanRequest \<Rightarrow> graph \<Rightarrow> PlanRequest \<Rightarrow> Profile \<Rightarrow>
    Snap list \<Rightarrow> bool" where
  "accepted srv wd body g req p snaps \<longleftrightarrow> sGraph srv = Some g \<and> body = Inr req \<and>
     resolveProfile (w_order wd) req = Ok p \<and> validWaypoints (Waypoints req) = Ok () \<and>
     (\<exists>main. sSnapper srv = Some main \<and> snap_all main wd 0 (Waypoints req) = Ok snaps)"

lemma handler_cases:
  assumes "server_ok srv wd"
  shows "(\<exists>f. handleRoutePlan srv wd body = Some (Err f) \<and> plain_failure f) \<or>
    (\<exists>g req p snaps r. accepted srv wd body g req p snaps \<and> map_ok g \<and> profile_ok p \<and>
       handleRoutePlan srv wd body = Some r \<and> rest_ends wd g (plan_model srv p) req snaps r)"
proof (cases "sGraph srv")
  case None
  then show ?thesis
    by (simp add: handleRoutePlan_def writeError_def plain_failure_def plan_failure_def)
next
  case (Some g)
  then obtain main where main: "sSnapper srv = Some main"
    "\<forall>i p. SnapPoint main (w_near wd i) p \<noteq> Panic" and g: "map_ok g" and ord: "fair_order (w_order wd)"
    using assms by (auto simp: server_ok_def split: option.splits)
  note h = handler_unfold [OF Some main(1), of wd body]
  consider f where "decodeJSON body = Err f" | req where "body = Inr req" "decodeJSON body = Ok req"
    by (cases body) (auto simp: decodeJSON_def writeError_def)
  then show ?thesis
  proof cases
    case 1
    then show ?thesis using h answers_decode [of body] by auto
  next
    case (2 req)
    show ?thesis
    proof (cases "resolveProfile (w_order wd) req")
      case (Err f)
      then show ?thesis using 2 h answers_profile [of "w_order wd" req] by auto
    next
      case Panic
      then show ?thesis using answers_profile [of "w_order wd" req] by simp
    next
      case (Ok p)
      note p = resolveProfile_ok [OF ord Ok]
      show ?thesis
      proof (cases "validWaypoints (Waypoints req)")
        case (Err f)
        then show ?thesis using 2 Ok h answers_waypoints [of "Waypoints req"] by auto
      next
        case Panic
        then show ?thesis using answers_waypoints [of "Waypoints req"] by simp
      next
        case way: (Ok u)
        then have "length (Waypoints req) + 0 \<le> 10" using validWaypoints_length by simp
        note snap = answers_snaps [OF this main(2)]
        show ?thesis
        proof (cases "snap_all main wd 0 (Waypoints req)")
          case (Err f)
          then show ?thesis using 2 Ok way h snap by auto
        next
          case Panic
          then show ?thesis using snap by simp
        next
          case snaps: (Ok snaps)
          obtain r where "plan_rest wd g (plan_model srv p) req snaps = Some r"
            "rest_ends wd g (plan_model srv p) req snaps r"
            using plan_rest_ends [OF g, of "plan_model srv p" wd req snaps] p by auto
          moreover have "accepted srv wd body g req p snaps"
            using Some 2 Ok way main snaps by (simp add: accepted_def)
          ultimately show ?thesis using 2 Ok way snaps h g p by auto
        qed
      qed
    qed
  qed
qed

end
