(* ===== verification/Http_Segments.thy ===== *)
theory Http_Segments
  imports Http_Route
begin

text \<open>
  What \<open>buildSegments\<close> promises its readers: the runs join up from the first point of the line to
  the last, neighbours differ in stress or facility, every edge that draws anything lies in a run
  of its own stress and facility, and the runs' lengths are those of the edges from the first one
  that draws anything on.
\<close>

text \<open>Consecutive parts of a line, from \<open>a\<close> to \<open>b\<close>.\<close>

fun spans :: "int \<Rightarrow> (nat \<times> int \<times> int) list \<Rightarrow> int \<Rightarrow> bool" where
  "spans a [] b \<longleftrightarrow> a = b"
| "spans a ((e, s, t) # xs) b \<longleftrightarrow> s = a \<and> s \<le> t \<and> spans t xs b"

lemma spans_snoc: "spans a (xs @ [(e, s, t)]) b \<longleftrightarrow> spans a xs s \<and> s \<le> t \<and> t = b"
  by (induction a xs s rule: spans.induct) auto

definition same_run :: "RouteSegment \<Rightarrow> RouteSegment \<Rightarrow> bool" where
  "same_run a b \<longleftrightarrow> segLTS a = segLTS b \<and> segInfra a = segInfra b"

definition joins :: "RouteSegment \<Rightarrow> RouteSegment \<Rightarrow> bool" where
  "joins a b \<longleftrightarrow> segEnd a = segStart b \<and> \<not> same_run a b"

definition drawn_in :: "graph \<Rightarrow> nat \<times> int \<times> int \<Rightarrow> RouteSegment \<Rightarrow> bool" where
  "drawn_in g x r \<longleftrightarrow> (case x of (e, s, t) \<Rightarrow> segStart r \<le> s \<and> t \<le> segEnd r \<and>
     segLTS r = LTS g ! e \<and> segInfra r = infra_String (Infra g ! e))"

definition drawn_length :: "graph \<Rightarrow> (nat \<times> int \<times> int) list \<Rightarrow> real" where
  "drawn_length g xs = sum_list (map (\<lambda>(e, s, t). LengthM g ! e) (dropWhile (\<lambda>(e, s, t). t \<le> s) xs))"

definition tiled :: "graph \<Rightarrow> int \<Rightarrow> (nat \<times> int \<times> int) list \<Rightarrow> int \<Rightarrow> RouteSegment list \<Rightarrow> bool" where
  "tiled g a xs b out \<longleftrightarrow>
     (if out = [] then a = b \<and> list_all (\<lambda>(e, s, t). t \<le> s) xs
      else segStart (hd out) = a \<and> segEnd (last out) = b) \<and>
     (\<forall>r\<in>set out. segStart r < segEnd r) \<and> successively joins out \<and>
     (\<forall>(e, s, t)\<in>set xs. s < t \<longrightarrow> (\<exists>r\<in>set out. drawn_in g (e, s, t) r)) \<and>
     sum_list (map segLengthM out) = drawn_length g xs"

lemma drawn_length_snoc:
  "drawn_length g (xs @ [(e, s, t)]) =
     (if list_all (\<lambda>(e, s, t). t \<le> s) xs then (if t \<le> s then 0 else LengthM g ! e)
      else drawn_length g xs + LengthM g ! e)"
  unfolding drawn_length_def
  by (cases "list_all (\<lambda>(e, s, t). t \<le> s) xs") (auto simp: dropWhile_append list_all_iff)

lemma drawn_length_none: "list_all (\<lambda>(e, s, t). t \<le> s) xs \<Longrightarrow> drawn_length g xs = 0"
  by (simp add: drawn_length_def list_all_iff dropWhile_eq_Nil_conv [THEN iffD2])

lemma tiled_drawn:
  assumes "tiled g a xs b out" and "out \<noteq> []"
  shows "\<not> list_all (\<lambda>(e, s, t). t \<le> s) xs \<or> sum_list (map segLengthM out) = 0"
  using assms by (auto simp: tiled_def drawn_length_none)

text \<open>Where there is a run, some edge has been drawn.\<close>

lemma tiled_extend:
  assumes t: "tiled g a xs s out" and st: "s \<le> t" and out: "out \<noteq> []"
    and drawn: "\<not> list_all (\<lambda>(e, s, t). t \<le> s) xs"
    and merge: "t \<le> s \<or> segLTS (last out) = LTS g ! e \<and> segInfra (last out) = infra_String (Infra g ! e)"
  shows "tiled g a (xs @ [(e, s, t)]) t (butlast out @ [(last out)\<lparr>segEnd := max (segEnd (last out)) t,
    segLengthM := segLengthM (last out) + LengthM g ! e\<rparr>])"
proof -
  obtain pre r where pre: "out = pre @ [r]" using out by (metis append_butlast_last_id)
  let ?r = "r\<lparr>segEnd := max (segEnd r) t, segLengthM := segLengthM r + LengthM g ! e\<rparr>"
  from t pre have f: "segStart (hd (pre @ [r])) = a" "segEnd r = s"
    "\<forall>q\<in>set pre. segStart q < segEnd q" "segStart r < s" "successively joins (pre @ [r])"
    "\<forall>(e, s, t)\<in>set xs. s < t \<longrightarrow> (\<exists>q\<in>set (pre @ [r]). drawn_in g (e, s, t) q)"
    "sum_list (map segLengthM pre) + segLengthM r = drawn_length g xs"
    by (auto simp: tiled_def)
  have end': "segEnd ?r = t" using f(2) st by simp
  have keep: "drawn_in g x r \<Longrightarrow> drawn_in g x ?r" for x
    using f(2) st by (auto simp: drawn_in_def)
  have here: "s < t \<Longrightarrow> drawn_in g (e, s, t) ?r"
    using merge f(4) end' pre by (auto simp: drawn_in_def)
  have "successively joins (pre @ [?r])"
    using f(5) by (auto simp: successively_append_iff joins_def same_run_def)
  moreover have "segStart (hd (pre @ [?r])) = a" using f(1) by (cases pre) auto
  moreover have "\<forall>(e, s, t)\<in>set xs. s < t \<longrightarrow> (\<exists>q\<in>set (pre @ [?r]). drawn_in g (e, s, t) q)"
    using f(6) keep by (fastforce split: prod.splits)
  moreover have "segStart ?r < segEnd ?r" using f(4) end' st by simp
  ultimately show ?thesis
    using f(3,7) end' here drawn pre by (auto simp: tiled_def drawn_length_snoc)
qed

lemma seg_step_tiled:
  assumes t: "tiled g a xs s out" and st: "s \<le> t"
    and drawn: "out \<noteq> [] \<Longrightarrow> \<not> list_all (\<lambda>(e, s, t). t \<le> s) xs"
  shows "tiled g a (xs @ [(e, s, t)]) t (seg_step g (e, s, t) out)"
proof (cases "out \<noteq> [] \<and> (t \<le> s \<or> segLTS (last out) = LTS g ! e \<and>
    segInfra (last out) = infra_String (Infra g ! e))")
  case True
  then show ?thesis using tiled_extend [OF t st _ drawn] by (auto simp: seg_step_def Let_def)
next
  case no_merge: False
  show ?thesis
  proof (cases "t \<le> s")
    case True
    then have "out = []" using no_merge by blast
    then show ?thesis using t st True by (auto simp: seg_step_def tiled_def drawn_length_snoc)
  next
    case False
    let ?r = "\<lparr>segStart = s, segEnd = t, segLTS = LTS g ! e,
      segInfra = infra_String (Infra g ! e), segLengthM = LengthM g ! e\<rparr>"
    have step: "seg_step g (e, s, t) out = out @ [?r]" using no_merge False by (auto simp: seg_step_def Let_def)
    have "drawn_in g (e, s, t) ?r" by (simp add: drawn_in_def)
    moreover have "successively joins (out @ [?r])"
      using t no_merge False by (auto simp: tiled_def successively_append_iff joins_def same_run_def)
    ultimately show ?thesis
      unfolding step using t False drawn
      by (cases "out = []") (auto simp: tiled_def drawn_length_snoc drawn_length_none)
  qed
qed

lemma fold_tiled:
  "spans a xs b \<Longrightarrow> tiled g a xs b (fold (seg_step g) xs []) \<and>
     (fold (seg_step g) xs [] \<noteq> [] \<longrightarrow> \<not> list_all (\<lambda>(e, s, t). t \<le> s) xs)"
proof (induction xs arbitrary: b rule: rev_induct)
  case Nil
  then show ?case by (simp add: tiled_def drawn_length_def)
next
  case (snoc x xs)
  obtain e s t where x: "x = (e, s, t)" by (cases x)
  have sp: "spans a xs s" "s \<le> t" "b = t" using snoc.prems by (simp_all add: x spans_snoc)
  note IH = snoc.IH [OF sp(1)]
  have "seg_step g (e, s, t) out \<noteq> [] \<Longrightarrow> out \<noteq> [] \<or> \<not> t \<le> s" for out
    by (auto simp: seg_step_def Let_def split: if_splits)
  then show ?case using seg_step_tiled [OF conjunct1 [OF IH] sp(2)] IH by (auto simp: x sp(3))
qed

lemma edge_spans_ok:
  assumes "sorted offs" and "length offs = length edges + 1"
  shows "spans (hd offs) (edge_spans edges offs) (last offs)"
  using assms
proof (induction edges arbitrary: offs)
  case Nil
  then show ?case by (cases offs) (auto simp: edge_spans_def)
next
  case (Cons e edges)
  then obtain a b rest where offs: "offs = a # b # rest" by (cases offs; cases "tl offs") auto
  then show ?case using Cons.IH [of "b # rest"] Cons.prems by (simp add: edge_spans_def)
qed

lemma raw_segments_tiled:
  assumes "sorted offs" and "length offs = length edges + 1"
  shows "tiled g (hd offs) (edge_spans edges offs) (last offs) (raw_segments g edges offs)"
  unfolding raw_segments_def using fold_tiled [OF edge_spans_ok [OF assms]] by blast

lemma edge_spans_nth:
  assumes "length offs = length edges + 1" and "i < length edges"
  shows "(edges ! i, offs ! i, offs ! Suc i) \<in> set (edge_spans edges offs)"
proof -
  have "edge_spans edges offs ! i = (edges ! i, offs ! i, offs ! Suc i)"
    using assms by (simp add: edge_spans_def nth_tl)
  moreover have "i < length (edge_spans edges offs)" using assms by (simp add: edge_spans_def)
  ultimately show ?thesis by (metis nth_mem)
qed

text \<open>Rounding the lengths leaves the rest of the runs as they are.\<close>

lemma rounded_segments:
  fixes f :: "real \<Rightarrow> real"
  assumes "tiled g a xs b out"
  defines "out' \<equiv> map (\<lambda>s. s\<lparr>segLengthM := f (segLengthM s)\<rparr>) out"
  shows "(out' = [] \<longrightarrow> a = b) \<and> (out' \<noteq> [] \<longrightarrow> segStart (hd out') = a \<and> segEnd (last out') = b)"
    and "successively joins out'" and "\<forall>r\<in>set out'. segStart r < segEnd r"
    and "(e, s, t) \<in> set xs \<Longrightarrow> s < t \<Longrightarrow> \<exists>r\<in>set out'. drawn_in g (e, s, t) r"
proof -
  note t = assms(1) [unfolded tiled_def]
  show "(out' = [] \<longrightarrow> a = b) \<and> (out' \<noteq> [] \<longrightarrow> segStart (hd out') = a \<and> segEnd (last out') = b)"
    using t by (auto simp: out'_def hd_map last_map split: if_splits)
  have "joins (x\<lparr>segLengthM := u\<rparr>) (y\<lparr>segLengthM := v\<rparr>) = joins x y" for x y u v
    by (simp add: joins_def same_run_def)
  then show "successively joins out'" using t by (simp add: out'_def successively_map)
  show "\<forall>r\<in>set out'. segStart r < segEnd r" using t by (auto simp: out'_def)
  have "drawn_in g x (r\<lparr>segLengthM := u\<rparr>) = drawn_in g x r" for x r u
    by (simp add: drawn_in_def)
  then show "(e, s, t) \<in> set xs \<Longrightarrow> s < t \<Longrightarrow> \<exists>r\<in>set out'. drawn_in g (e, s, t) r"
    using t by (fastforce simp: out'_def)
qed

lemma rounded_sum:
  assumes "\<forall>x\<in>set xs. 0 \<le> x \<and> x < 10 ^ 17"
  shows "\<bar>sum_list (map round1 xs) - sum_list xs\<bar> \<le> real (length xs) / 20"
  using assms
proof (induction xs)
  case (Cons x xs)
  have "\<bar>round1 x - x\<bar> \<le> 1 / 20" using Cons.prems by (intro round1_error) auto
  moreover have "\<bar>sum_list (map round1 xs) - sum_list xs\<bar> \<le> real (length xs) / 20" using Cons by simp
  ultimately have "\<bar>(round1 x - x) + (sum_list (map round1 xs) - sum_list xs)\<bar> \<le> 1 / 20 + real (length xs) / 20"
    by (intro order_trans [OF abs_triangle_ineq] add_mono)
  then show ?case by (simp add: algebra_simps add_divide_distrib)
qed simp

end
