(* ===== verification/Example_Plan.thy ===== *)
theory Example_Plan
  imports Http_Plan Http_Segments Example_Map
begin

text \<open>
  A server on the small map, and two requests: one from its first junction to its last, and one
  back, for which there is no road.
\<close>

definition demo_near :: "int list \<Rightarrow> nat \<Rightarrow> real \<Rightarrow> real \<Rightarrow> snap_row cursor option" where
  "demo_near nodes i lon lat = Some \<lparr>rows = [Some \<lparr>sr_edge = 0, sr_from = nodes ! i, sr_to = nodes ! i,
     sr_dist = 5, sr_frac = 0, sr_name = ''Main St''\<rparr>], rows_err = False\<rparr>"

definition demo_world :: "int list \<Rightarrow> world" where
  "demo_world nodes = \<lparr>w_order = rev, w_near = demo_near nodes, w_pool = \<lambda>_. None, w_base_pool = \<lambda>_. None,
     w_alt_pool = \<lambda>_. None,
     w_shapes = \<lambda>_ ids. Some \<lparr>rows = map (\<lambda>i. Some (i, ''shape'')) ids, rows_err = False\<rparr>,
     w_unmarshal = \<lambda>_. Some [[- 97, 30], [- 97, 31]], w_elapsed = 3\<rparr>"

definition demo_server :: Server where
  "demo_server = \<lparr>sGraph = Some demo, sSnapper = Some None, sHazards = None\<rparr>"

definition demo_request :: PlanRequest where
  "demo_request = \<lparr>Waypoints = [\<lparr>Lat = 30, Lon = - 97\<rparr>, \<lparr>Lat = 31, Lon = - 97\<rparr>],
     rProfile = ''cautious'', Custom = None, rNight = False, rAlternatives = 1\<rparr>"

lemma demo_map_ok: "map_ok demo"
  using demo_wf demo_lengths by (simp add: map_ok_def)

lemma demo_snap: "SnapPoint None (demo_near nodes i) p \<noteq> Panic"
  by (simp add: SnapPoint_def demo_near_def snap_finish_def Let_def)

lemma demo_server_ok: "server_ok demo_server (demo_world nodes)"
  using demo_snap by (simp add: server_ok_def demo_server_def demo_world_def fair_order_def demo_map_ok)

definition demo_snaps :: "int list \<Rightarrow> Snap list" where
  "demo_snaps nodes = map (\<lambda>n. \<lparr>NodeID = int32 n, SnapDistanceM = 5, EdgeDBID = 0, RoadName = ''Main St''\<rparr>) nodes"

lemma demo_accepted:
  "accepted demo_server (demo_world [a, b]) (Inr demo_request) demo demo_request Cautious (demo_snaps [a, b])"
  by (simp add: accepted_def demo_server_def demo_world_def demo_request_def resolveProfile_def
      ProfileByName_def Cautious_def validWaypoints_def Valid_def SnapPoint_def demo_near_def snap_of_def
      MaxSnapDistanceM_def demo_snaps_def Let_def numeral_2_eq_2)

section \<open>The first request has an answer\<close>

lemma demo_fetch: "\<exists>r. fetch (demo_world nodes) q demo es = Ok r"
proof -
  have read: "\<exists>sh. read_shapes (\<lambda>_. Some [[- 97, 30], [- 97, 31]]) (map (\<lambda>i. Some (i, ''shape'')) ids) m = Ok sh \<and>
      (\<forall>i\<in>set ids \<union> dom m. sh i \<noteq> None)" for ids m
  proof (induction ids arbitrary: m)
    case (Cons i ids)
    let ?m = "m(i \<mapsto> [\<lparr>Lat = 30, Lon = - 97\<rparr>, \<lparr>Lat = 31, Lon = - 97\<rparr>])"
    obtain sh where "read_shapes (\<lambda>_. Some [[- 97, 30], [- 97, 31]]) (map (\<lambda>i. Some (i, ''shape'')) ids) ?m = Ok sh"
      "\<forall>j\<in>set ids \<union> dom ?m. sh j \<noteq> None" using Cons [of ?m] by blast
    then show ?case by (auto simp: decodeLineString_def)
  qed auto
  have loop: "(\<forall>i\<in>set ids. sh i \<noteq> None) \<Longrightarrow> \<exists>r. assemble_loop sh ids out offs = Ok r" for sh ids out offs
    by (induction sh ids out offs rule: assemble_loop.induct) (auto simp: Let_def)
  obtain sh where "read_shapes (\<lambda>_. Some [[- 97, 30], [- 97, 31]])
      (map (\<lambda>i. Some (i, ''shape'')) (map ((!) (DBID demo)) es)) Map.empty = Ok sh"
    "\<forall>i\<in>set (map ((!) (DBID demo)) es). sh i \<noteq> None" using read [of "map ((!) (DBID demo)) es" Map.empty] by auto
  moreover obtain r where "assemble_loop sh (map ((!) (DBID demo)) es) [] [0] = Ok r" using loop [OF calculation(2)] by blast
  ultimately show ?thesis
    by (simp add: fetch_def FetchGeometry_def demo_world_def assemble_def Let_def)
qed

lemma demo_routes: "route demo opt 0 2 es \<Longrightarrow> es = [0, 2] \<or> es = [1]"
proof -
  assume r: "route demo opt 0 2 es"
  then have e3: "\<forall>e\<in>set es. e < 3" by (simp add: route_def)
  have F: "From demo = [0, 0, 1]" "To demo = [1, 2, 2]" by (simp_all add: demo_def)
  have three: "e < 3 \<longleftrightarrow> e = 0 \<or> e = 1 \<or> e = (2::nat)" for e by auto
  obtain e tl where es: "es = e # tl" using r by (cases es) (auto simp: route_def)
  show ?thesis
  proof (cases tl)
    case Nil
    then show ?thesis using r e3 es by (auto simp: route_def three F)
  next
    case (Cons f tl')
    then have "e = 0 \<and> f = 2" using r e3 es by (auto simp: route_def three F)
    moreover have "tl' = []" using r e3 es Cons calculation by (cases tl') (auto simp: route_def three F)
    ultimately show ?thesis using es Cons by simp
  qed
qed

lemma demo_route_length: "route demo opt 0 2 es \<Longrightarrow> path_length demo es \<in> {150, 200}"
  using demo_routes [of opt es] by (auto simp: path_length_def demo_def)

lemma demo_small_detour:
  assumes "l \<le> 200" "0 \<le> l" "b = 0 \<or> 100 \<le> b"
  shows "(if b > 0 then round2 (l / b) else 0) < 10 ^ 12"
proof (cases "b = 0")
  case False
  then have b: "100 \<le> b" using assms by simp
  have "l \<le> 2 * b" using b assms(1) by linarith
  then have q: "0 \<le> l / b" "l / b \<le> 2" using assms b by (simp_all add: divide_le_eq)
  then have "to_int64 (l / b * 100 + 1 / 2) = \<lfloor>l / b * 100 + 1 / 2\<rfloor>" by (intro to_int64_small) auto
  moreover have "of_int \<lfloor>l / b * 100 + 1 / 2\<rfloor> \<le> l / b * 100 + 1 / 2" by (rule of_int_floor_le)
  ultimately show ?thesis using q by (simp add: round2_def)
qed simp

abbreviation demo_model :: Model where "demo_model \<equiv> plan_model demo_server Cautious"

lemma demo_found: "\<exists>p. Search demo pooled 0 2 (plan_options demo_model) = Some (Ok p)"
proof -
  have quiet: "free_route demo (plan_options demo_model) 0 2 [0, 2]"
    by (simp add: free_route_def route_def free_def allowed_def is_over_def plan_options_def
        Model_Allow_def Model_Over_def Cautious_def) (simp add: demo_def)
  have "plan_options demo_model = demo_options demo_model False"
    by (simp add: plan_options_def demo_options_def)
  then have lim: "\<not> expansion_limit (plan_options demo_model)
      < int (NumEdges demo) * fst (budgetBuckets (plan_options demo_model))" using demo_limit by metis
  have "1 \<le> pi * EarthRadiusM"
    using mult_mono [of 1 pi 1 EarthRadiusM] pi_ge_two by (simp add: EarthRadiusM_def)
  then have "eps_consistent demo (plan_options demo_model) 2 (pi * EarthRadiusM + pi * EarthRadiusM / 2 ^ 23) [0, 2]"
    by (intro eps_consistent_guided [OF plan_options_floor demo_straight _ _ demo_wf quiet])
      (simp_all add: builtin_ok demo_lengths [simplified] demo_reach)
  from Search_rival [OF map_ok_search [OF demo_map_ok] _ _ quiet this, of pooled] lim show ?thesis by auto
qed

abbreviation demo_there :: "Snap list" where "demo_there \<equiv> demo_snaps [0, 2]"

lemma demo_there_ids: "NodeID (demo_there ! 0) = 0" "NodeID (demo_there ! Suc 0) = 2" "length demo_there = 2"
  by (simp_all add: demo_snaps_def int32_id)

lemma demo_leg_length:
  assumes "legs_ok demo opt demo_there ps"
  shows "lLengthM (legs_of ps) \<in> {150, 200} \<and> lEdges (legs_of ps) \<noteq> []"
proof -
  obtain p where ps: "ps = [p]" and l: "leg_ok demo opt (demo_there ! 0) (demo_there ! Suc 0) p"
    using assms by (cases ps) (auto simp: demo_snaps_def)
  then have "found_path demo opt 0 2 p" by (simp add: leg_ok_def demo_there_ids)
  from found_path_route [OF map_ok_search [OF demo_map_ok] _ this] demo_route_length [of opt "pEdges p"]
  show ?thesis by (auto simp: legs_of_def ps route_def)
qed

lemma demo_baseline:
  assumes "baseline wd demo demo_there = Some (Ok base)"
  shows "lLengthM base = 0 \<or> 100 \<le> lLengthM base"
proof -
  have "100 \<le> lLengthM (legs_of ps)" if "legs_ok demo baseline_options demo_there ps" for ps
    using demo_leg_length [OF that] by auto
  then show ?thesis
    using routeLegs_returns [OF map_ok_search [OF demo_map_ok], where snaps = demo_there and pool = "w_base_pool wd"
      and opt = baseline_options] assms
    by (auto simp: baseline_def no_legs_def)
qed

lemma demo_legs:
  "\<exists>ps. legs_ok demo (plan_options demo_model) demo_there ps \<and>
     plan_legs wd demo demo_model demo_there = Some (Ok (legs_of ps))"
proof -
  let ?opt = "plan_options demo_model"
  have "\<not> leg_refused (w_pool wd) demo ?opt x (demo_there ! k) (demo_there ! Suc k)" if "Suc k < length demo_there" for x k
  proof -
    have "k = 0" using that by (simp add: demo_there_ids)
    moreover have "Search demo (w_pool wd i) 0 2 ?opt \<noteq> Some (Err x)" for i
      using demo_found [of "w_pool wd i"] by auto
    ultimately show ?thesis by (simp add: leg_refused_def demo_there_ids)
  qed
  then obtain ps where "legs_ok demo ?opt demo_there ps"
    "routeLegs (w_pool wd) demo demo_there ?opt = Some (Ok (legs_of ps))"
    using routeLegs_returns [OF map_ok_search [OF demo_map_ok], where snaps = demo_there and pool = "w_pool wd" and opt = ?opt]
    by blast
  then show ?thesis using demo_leg_length by (auto simp: plan_legs_def)
qed

lemma demo_planned:
  "\<exists>resp. handleRoutePlan demo_server (demo_world [0, 2]) (Inr demo_request) = Some (Ok (200, resp))"
proof -
  let ?wd = "demo_world [0, 2]"
  have H: "handleRoutePlan demo_server ?wd (Inr demo_request) = plan_rest ?wd demo demo_model demo_request demo_there"
    using demo_accepted [of 0 2] handler_unfold [of demo_server demo None ?wd "Inr demo_request"]
    by (auto simp: accepted_def demo_server_def decodeJSON_def)
  obtain ps where ps: "legs_ok demo (plan_options demo_model) demo_there ps"
    "plan_legs ?wd demo demo_model demo_there = Some (Ok (legs_of ps))" using demo_legs by blast
  obtain base where base: "baseline ?wd demo demo_there = Some (Ok base)" using baseline_returns [OF demo_map_ok] by blast
  obtain shape where "fetch ?wd 0 demo (lEdges (legs_of ps)) = Ok shape" using demo_fetch by blast
  then obtain pts offs where shape: "fetch ?wd 0 demo (lEdges (legs_of ps)) = Ok (pts, offs)" by (cases shape) auto
  have "detour (legs_of ps) base < 10 ^ 12"
    using demo_small_detour [of "lLengthM (legs_of ps)" "lLengthM base"] demo_leg_length [OF ps(1)] demo_baseline [OF base]
    by (auto simp: detour_def)
  then obtain ws where ws: "plan_warnings (mProfile demo_model) (legs_of ps) base = Ok ws"
    using plan_warnings_cases [OF builtin_ok(1), of "legs_of ps" base] by auto
  obtain alts where "plan_alternatives ?wd demo demo_model demo_there (rAlternatives demo_request) = Some (Ok alts)"
    using plan_alternatives_returns [OF demo_map_ok ps(1)] demo_leg_length [OF ps(1)] by blast
  then show ?thesis using H ps(2) base shape ws by (simp add: plan_rest_def)
qed

text \<open>The second request: no edge leaves the last junction.\<close>

lemma demo_way_back:
  "\<exists>f. handleRoutePlan demo_server (demo_world [2, 0]) (Inr demo_request) = Some (Err f) \<and>
     Details (failure_body f) ''hint'' \<noteq> None"
proof -
  let ?wd = "demo_world [2, 0]"
  have H: "handleRoutePlan demo_server ?wd (Inr demo_request) =
      plan_rest ?wd demo demo_model demo_request (demo_snaps [2, 0])"
    using demo_accepted [of 2 0] handler_unfold [of demo_server demo None ?wd "Inr demo_request"]
    by (auto simp: accepted_def demo_server_def decodeJSON_def)
  have "Search demo None 2 0 (plan_options demo_model) = Some (Err ErrUnroutable)"
    by (simp add: Search_def validate_def Let_def int32_id OutDegree_def) (simp add: demo_def)
  then have "routeLegs (w_pool ?wd) demo (demo_snaps [2, 0]) (plan_options demo_model) = Some (Err ErrUnroutable)"
    by (simp add: routeLegs_def demo_snaps_def int32_id demo_world_def)
  moreover have "itoa (to_int64 400) = Ok ''400''" "itoa 2 = Ok ''2''" by code_simp+
  ultimately show ?thesis using H
    by (simp add: plan_rest_def plan_legs_def refuse_def Cautious_def)
qed

end
