(* ===== verification/Config.thy ===== *)
theory Config
  imports Main
begin

text \<open>
  The package \<open>internal/config\<close>: settings from the environment (\<open>getenv\<close>, which answers the empty
  string for a variable that is not set).
\<close>

datatype level = LevelDebug | LevelInfo | LevelWarn | LevelError

datatype config_error = UnknownLevel string | NoDatabaseURL | NoSecretInProduction

record Config =
  Addr :: string
  DatabaseURL :: string
  Env :: string
  LogLevel :: level
  JWTSecret :: string
  ShutdownTimeout :: nat

definition env :: "(string \<Rightarrow> string) \<Rightarrow> string \<Rightarrow> string \<Rightarrow> string" where
  "env getenv key def_value = (let v = getenv key in if v \<noteq> [] then v else def_value)"

definition parseLevel :: "string \<Rightarrow> config_error + level" where
  "parseLevel s =
     (if s = ''debug'' then Inr LevelDebug
      else if s = ''info'' then Inr LevelInfo
      else if s = ''warn'' then Inr LevelWarn
      else if s = ''error'' then Inr LevelError
      else Inl (UnknownLevel s))"

definition Load :: "(string \<Rightarrow> string) \<Rightarrow> config_error + Config" where
  "Load getenv =
     (case parseLevel (env getenv ''VIATUTA_LOG_LEVEL'' ''info'') of
        Inl e \<Rightarrow> Inl e
      | Inr lvl \<Rightarrow>
          let cfg = \<lparr>Addr = env getenv ''VIATUTA_ADDR'' '':8080'',
                DatabaseURL = env getenv ''VIATUTA_DATABASE_URL'' ''postgres://localhost:5432/viatuta?sslmode=disable'',
                Env = env getenv ''VIATUTA_ENV'' ''development'', LogLevel = lvl,
                JWTSecret = env getenv ''VIATUTA_JWT_SECRET'' '''', ShutdownTimeout = 15\<rparr>
          in if DatabaseURL cfg = [] then Inl NoDatabaseURL
             else if Env cfg = ''production'' \<and> JWTSecret cfg = [] then Inl NoSecretInProduction
             else Inr cfg)"

definition IsProduction :: "Config \<Rightarrow> bool" where
  "IsProduction c \<longleftrightarrow> Env c = ''production''"

text \<open>The database address has a default, so that its check never fires.\<close>

lemma Load_database: "Load getenv \<noteq> Inl NoDatabaseURL"
  by (auto simp: Load_def env_def parseLevel_def Let_def split: sum.splits if_splits)

lemma Load_production: "Load getenv = Inr c \<Longrightarrow> IsProduction c \<Longrightarrow> JWTSecret c \<noteq> []"
  by (auto simp: Load_def IsProduction_def Let_def split: sum.splits if_splits)

end
