(* ===== verification/Http_Api.thy ===== *)
theory Http_Api
  imports Http_Route Config
begin

text \<open>
  The rest of \<open>internal/httpapi\<close>: the middleware chain, authentication, and the handlers for
  accounts, saved routes, hazards and health, put together by \<open>Server_Handler\<close> as \<open>server.go\<close> does.

  A request names its endpoint and carries its decoded body, as the standard library's multiplexer
  would hand it on; a handler is a function from a request, the caller's user id and the state to
  the headers it sets, its outcome (\<open>None\<close> would be one that does not return) and the new state.  The
  state is the three tables and the hazard overlay.  \<open>env\<close> holds what a request asks of the world.
\<close>

section \<open>State, environment and requests\<close>

record Db =
  dbAccounts :: "account list"
  dbRoutes :: "saved_row list"
  dbHazards :: "hazard_row list"

record Api =
  aGraph :: "graph option"
  aSnapper :: "bool list option option"
  aIndex :: "Index option"
  aSigner :: "Signer option"
  aDb :: Db

record env =
  e_world :: world
  e_fault :: bool
  e_ping :: bool
  e_now :: int
  e_uuid :: string
  e_serial :: int
  e_random :: string
  e_generate :: "string \<Rightarrow> string option"
  e_matches :: "string \<Rightarrow> string \<Rightarrow> bool"
  e_sign :: "string \<Rightarrow> Claims \<Rightarrow> string option"
  e_parse :: "string \<Rightarrow> string list \<Rightarrow> string \<Rightarrow> int \<Rightarrow> string \<Rightarrow> Claims option"
  e_postgis :: "string \<Rightarrow> string option"
  e_coords :: "string \<Rightarrow> real list list option"
  e_newest_routes :: "saved_row list \<Rightarrow> saved_row list"
  e_newest_reports :: "Report list \<Rightarrow> Report list"
  e_near :: "Report \<Rightarrow> (int \<times> real) list"
  e_scores :: "(int \<times> real) list \<Rightarrow> (int \<times> real) cursor option"
  e_kinds :: "string list \<Rightarrow> string list"

record RegisterRequest =
  rgEmail :: string
  rgPassword :: string
  rgDisplayName :: string

record LoginRequest =
  lgEmail :: string
  lgPassword :: string

record SaveRouteRequest =
  svName :: string
  svWaypoints :: "LatLon list"
  svProfile :: string
  svCustom :: "Profile option"
  svNight :: bool

datatype endpoint =
    GetHealth | GetReady | PostPlan "string + PlanRequest"
  | PostRegister "string + RegisterRequest" | PostLogin "string + LoginRequest" | GetMe
  | GetRoutes string | PostRoute "string + SaveRouteRequest" | GetRoute string | DeleteRoute string
  | PostHazard "string + Submission" | GetHazards string string | PostConfirm string

record request =
  rqOptions :: bool
  rqID :: string
  rqAuthorization :: string
  rqEndpoint :: endpoint

record HealthResponse =
  hStatus :: string
  hDatabase :: string
  hGraph :: string
  hNodes :: nat
  hEdges :: nat

datatype body = Empty | Health HealthResponse | Planned PlanResponse | Session string int User | Account User
  | OneRoute Route | RouteList "Route list" | RouteView Route geometry | OneReport Report | ReportList "Report list"

type_synonym headers = "(string \<times> string) list"
type_synonym answer = "headers \<times> (failure, nat \<times> body) outcome option"

definition respond :: "(failure, nat \<times> body) outcome \<Rightarrow> answer" where
  "respond r = ([], Some r)"

text \<open>
  \<open>NewServer\<close>; \<open>pool\<close> says whether there is a database.  The snapper keeps the mask of the largest
  component (\<open>LargestComponent\<close> always returns one).  A secret that is too short disables the
  accounts.
\<close>

definition NewServer :: "Config \<Rightarrow> bool \<Rightarrow> Db \<Rightarrow> graph option \<Rightarrow> Api" where
  "NewServer cfg pool db g =
     \<lparr>aGraph = g,
      aSnapper = (case g of None \<Rightarrow> None | Some g \<Rightarrow> if pool then Some (LargestComponent g) else None),
      aIndex = (case g of None \<Rightarrow> None | Some g \<Rightarrow> if pool then Some (NewIndex (NumEdges g)) else None),
      aSigner = (case NewSigner (JWTSecret cfg) of Ok sg \<Rightarrow> Some sg | _ \<Rightarrow> None),
      aDb = db\<rparr>"

section \<open>Authentication\<close>

definition bearerToken :: "string \<Rightarrow> string option" where
  "bearerToken h =
     (if h = [] then None
      else if length h \<le> length ''bearer '' \<or> ToLower (take (length ''bearer '') h) \<noteq> ''bearer '' then None
      else let t = TrimSpace (drop (length ''bearer '') h) in if t = [] then None else Some t)"

definition not_configured :: "(failure, nat \<times> body) outcome" where
  "not_configured = writeError 503 CodeInternal ''authentication is not configured on this server''"

text \<open>The handler is given the user id that \<open>UserIDFrom\<close> would find in the context.\<close>

definition requireAuth :: "env \<Rightarrow> (string \<Rightarrow> request \<Rightarrow> Api \<Rightarrow> answer \<times> Api) \<Rightarrow> request \<Rightarrow> Api \<Rightarrow> answer \<times> Api" where
  "requireAuth v handle_next rq api =
     (case aSigner api of
        None \<Rightarrow> (respond not_configured, api)
      | Some sg \<Rightarrow>
          (case bearerToken (rqAuthorization rq) of
             None \<Rightarrow> (([(''WWW-Authenticate'', ''Bearer realm=\"viatuta\"'')],
               Some (writeError 401 CodeUnauthorized ''a bearer token is required'')), api)
           | Some t \<Rightarrow>
               (case Verify (e_parse v) (e_now v) sg t of
                  Ok c \<Rightarrow> handle_next (Subject c) rq api
                | _ \<Rightarrow> (([(''WWW-Authenticate'', ''Bearer realm=\"viatuta\", error=\"invalid_token\"'')],
                    Some (writeError 401 CodeUnauthorized ''invalid or expired token'')), api))))"

definition optionalAuth :: "env \<Rightarrow> (string \<Rightarrow> request \<Rightarrow> Api \<Rightarrow> answer \<times> Api) \<Rightarrow> request \<Rightarrow> Api \<Rightarrow> answer \<times> Api" where
  "optionalAuth v handle_next rq api =
     (case aSigner api of
        None \<Rightarrow> handle_next [] rq api
      | Some sg \<Rightarrow>
          (case bearerToken (rqAuthorization rq) of
             None \<Rightarrow> handle_next [] rq api
           | Some t \<Rightarrow>
               (case Verify (e_parse v) (e_now v) sg t of
                  Ok c \<Rightarrow> handle_next (Subject c) rq api
                | _ \<Rightarrow> handle_next [] rq api)))"

section \<open>Accounts\<close>

definition issueToken :: "env \<Rightarrow> Signer \<Rightarrow> User \<Rightarrow> nat \<Rightarrow> (failure, nat \<times> body) outcome" where
  "issueToken v sg user status =
     (case Issue (e_sign v) (e_now v) sg (uID user) (uEmail user) of
        Ok (t, expires) \<Rightarrow> Ok (status, Session t expires user)
      | _ \<Rightarrow> writeInternalError)"

definition register_failure :: "auth_error \<Rightarrow> (failure, nat \<times> body) outcome" where
  "register_failure e = (case e of
     ErrEmailTaken \<Rightarrow> writeError 409 CodeConflict ''that email is already registered''
   | ErrWeakPassword p \<Rightarrow> writeValidationError ''password does not meet requirements'' [''password'' \<mapsto> BadAccount e]
   | ErrInvalidEmail p \<Rightarrow> writeValidationError ''invalid registration'' [''email'' \<mapsto> BadAccount e]
   | _ \<Rightarrow> writeInternalError)"

definition handleRegister :: "env \<Rightarrow> string + RegisterRequest \<Rightarrow> Api \<Rightarrow> answer \<times> Api" where
  "handleRegister v b api =
     (case aSigner api of
        None \<Rightarrow> (respond not_configured, api)
      | Some sg \<Rightarrow>
          (case decodeJSON b of
             Err f \<Rightarrow> (respond (Err f), api)
           | Panic \<Rightarrow> (respond Panic, api)
           | Ok req \<Rightarrow>
               let (res, tab) = Register (e_generate v) (e_fault v) (e_uuid v) (e_now v) (rgEmail req)
                     (rgPassword req) (rgDisplayName req) (dbAccounts (aDb api));
                   api = api\<lparr>aDb := (aDb api)\<lparr>dbAccounts := tab\<rparr>\<rparr>
               in (case res of
                     Ok user \<Rightarrow> (respond (issueToken v sg user 201), api)
                   | Err e \<Rightarrow> (respond (register_failure e), api)
                   | Panic \<Rightarrow> (respond Panic, api))))"

definition handleLogin :: "env \<Rightarrow> string + LoginRequest \<Rightarrow> Api \<Rightarrow> answer \<times> Api" where
  "handleLogin v b api =
     (case aSigner api of
        None \<Rightarrow> (respond not_configured, api)
      | Some sg \<Rightarrow>
          (respond (obind (decodeJSON b) (\<lambda>req.
             case Authenticate (e_matches v) (e_fault v) (lgEmail req) (lgPassword req) (dbAccounts (aDb api)) of
               Ok user \<Rightarrow> issueToken v sg user 200
             | Err e \<Rightarrow> if e = ErrInvalidCredentials
                 then writeError 401 CodeUnauthorized ''invalid email or password'' else writeInternalError
             | Panic \<Rightarrow> Panic)), api))"

definition handleMe :: "env \<Rightarrow> string \<Rightarrow> request \<Rightarrow> Api \<Rightarrow> answer \<times> Api" where
  "handleMe v uid rq api =
     (respond (case ByID (e_fault v) uid (dbAccounts (aDb api)) of
        Ok user \<Rightarrow> Ok (200, Account user)
      | _ \<Rightarrow> writeError 401 CodeUnauthorized ''account no longer exists''), api)"

section \<open>Saved routes\<close>

definition hazard_scores :: "Api \<Rightarrow> real list option" where
  "hazard_scores api = map_option Snapshot (aIndex api)"

text \<open>The route to be stored, computed as for a plan; \<open>None\<close> would be a search that does not return.\<close>

definition save_input :: "env \<Rightarrow> graph \<Rightarrow> Api \<Rightarrow> SaveRouteRequest \<Rightarrow> (failure, Input) outcome option" where
  "save_input v g api req =
          run_then (Some (case ValidateName (svName req) of
              Ok n \<Rightarrow> Ok n
            | Err e \<Rightarrow> writeValidationError ''invalid route name'' [''name'' \<mapsto> BadName e]
            | Panic \<Rightarrow> Panic)) (\<lambda>name.
          run_then (Some (resolveProfile (w_order (e_world v)) \<lparr>Waypoints = [], rProfile = svProfile req,
            Custom = svCustom req, rNight = svNight req, rAlternatives = 0\<rparr>)) (\<lambda>p.
          run_then (Some (validWaypoints (svWaypoints req))) (\<lambda>_.
          case aSnapper api of
            None \<Rightarrow> Some Panic
          | Some main \<Rightarrow>
              run_then (Some (snap_all main (e_world v) 0 (svWaypoints req))) (\<lambda>snaps.
              let m = WithHazards (NewModel p) (case hazard_scores api of None \<Rightarrow> [] | Some h \<Rightarrow> h)
              in run_then (case routeLegs (w_pool (e_world v)) g snaps (plan_options m) of
                   None \<Rightarrow> None
                 | Some (Ok l) \<Rightarrow> Some (Ok l)
                 | Some Panic \<Rightarrow> Some Panic
                 | Some (Err x) \<Rightarrow> Some (if x = ErrUnroutable
                     then writeError 422 CodeUnroutable ''no route satisfies this profile; nothing was saved''
                     else writeInternalError)) (\<lambda>l.
                 if lEdges l = [] then Some (writeError 422 CodeUnroutable
                   ''origin and destination resolve to the same point'')
                 else run_then (Some (fetch (e_world v) 0 g (lEdges l))) (\<lambda>(pts, _).
                   Some (Ok \<lparr>inName = name, inWaypoints = svWaypoints req, inGeometry = pts,
                     inDistanceM = round1 (lLengthM l), inDurationS = duration (lLengthM l),
                     inSafetyScore = round1 (Score g (lEdges l)), inProfile = p\<rparr>)))))))"

definition handleSaveRoute :: "env \<Rightarrow> string + SaveRouteRequest \<Rightarrow> string \<Rightarrow> request \<Rightarrow> Api \<Rightarrow> answer \<times> Api" where
  "handleSaveRoute v b uid rq api =
     (case aGraph api of
        None \<Rightarrow> (respond (writeError 503 CodeInternal ''routing graph is not loaded yet''), api)
      | Some g \<Rightarrow>
          (case run_then (Some (decodeJSON b)) (save_input v g api) of
             None \<Rightarrow> (([], None), api)
           | Some (Err f) \<Rightarrow> (respond (Err f), api)
           | Some Panic \<Rightarrow> (respond Panic, api)
           | Some (Ok i) \<Rightarrow>
               let (res, tab) = Create (e_postgis v) (e_fault v) (e_uuid v) (e_now v) uid i (dbRoutes (aDb api))
               in (respond (case res of Ok r \<Rightarrow> Ok (201, OneRoute r) | _ \<Rightarrow> writeInternalError),
                   api\<lparr>aDb := (aDb api)\<lparr>dbRoutes := tab\<rparr>\<rparr>)))"

text \<open>\<open>strconv.Atoi\<close> with its error ignored.\<close>

definition Atoi :: "string \<Rightarrow> int" where
  "Atoi s = (case ParseInt s of Ok n \<Rightarrow> n | Err n \<Rightarrow> n | Panic \<Rightarrow> 0)"

definition handleListRoutes :: "env \<Rightarrow> string \<Rightarrow> string \<Rightarrow> request \<Rightarrow> Api \<Rightarrow> answer \<times> Api" where
  "handleListRoutes v limit uid rq api =
     (respond (case List_routes (e_coords v) (e_newest_routes v) (e_fault v) uid (Atoi limit) (dbRoutes (aDb api)) of
        Ok rs \<Rightarrow> Ok (200, RouteList rs)
      | _ \<Rightarrow> writeInternalError), api)"

definition handleGetRoute :: "env \<Rightarrow> string \<Rightarrow> string \<Rightarrow> request \<Rightarrow> Api \<Rightarrow> answer \<times> Api" where
  "handleGetRoute v i uid rq api =
     (respond (case Get (e_coords v) (e_fault v) uid i (dbRoutes (aDb api)) of
        Ok r \<Rightarrow> Ok (200, RouteView r (map GeoJSON (rtGeometry r)))
      | _ \<Rightarrow> writeError 404 CodeNotFound ''route not found''), api)"

definition handleDeleteRoute :: "env \<Rightarrow> string \<Rightarrow> string \<Rightarrow> request \<Rightarrow> Api \<Rightarrow> answer \<times> Api" where
  "handleDeleteRoute v i uid rq api =
     (let (res, tab) = Delete (e_fault v) uid i (dbRoutes (aDb api))
      in (respond (case res of None \<Rightarrow> Ok (204, Empty)
            | Some _ \<Rightarrow> writeError 404 CodeNotFound ''route not found''),
          api\<lparr>aDb := (aDb api)\<lparr>dbRoutes := tab\<rparr>\<rparr>))"

section \<open>Hazards\<close>

text \<open>The insertion sort of \<open>kindNames\<close>; strings are compared byte by byte.\<close>

fun str_less :: "string \<Rightarrow> string \<Rightarrow> bool" where
  "str_less _ [] \<longleftrightarrow> False"
| "str_less [] (b # t) \<longleftrightarrow> True"
| "str_less (a # s) (b # t) \<longleftrightarrow> (of_char a :: nat) < of_char b \<or> a = b \<and> str_less s t"

text \<open>\<open>sink x rev_sorted\<close> moves \<open>x\<close> down past the greater ones, on the reversed prefix.\<close>

fun sink :: "string \<Rightarrow> string list \<Rightarrow> string list" where
  "sink x [] = [x]"
| "sink x (y # ys) = (if str_less x y then y # sink x ys else x # y # ys)"

definition kindNames :: "(string list \<Rightarrow> string list) \<Rightarrow> string list" where
  "kindNames order = rev (fold sink (order (map fst Kinds)) [])"

fun join_comma :: "string list \<Rightarrow> string" where
  "join_comma [] = []"
| "join_comma [s] = s"
| "join_comma (s # t # ss) = s @ '', '' @ join_comma (t # ss)"

definition hazard_details :: "env \<Rightarrow> hazard_error \<Rightarrow> (string \<rightharpoonup> detail)" where
  "hazard_details v e = (case e of
     ErrUnknownKind k \<Rightarrow> [''hazard'' \<mapsto> BadHazard e, ''valid_kinds'' \<mapsto> Text (join_comma (kindNames (e_kinds v)))]
   | _ \<Rightarrow> [''hazard'' \<mapsto> BadHazard e])"

text \<open>The overlay is rebuilt where there is one; a failure is logged.\<close>

definition refresh_overlay :: "env \<Rightarrow> Api \<Rightarrow> Api" where
  "refresh_overlay v api =
     (case (aIndex api, aGraph api) of
        (Some i, Some g) \<Rightarrow>
          api\<lparr>aIndex := Some (snd (Refresh (e_scores v) (e_near v) (e_now v) g (dbHazards (aDb api)) i))\<rparr>
      | _ \<Rightarrow> api)"

definition refresh_panics :: "env \<Rightarrow> Api \<Rightarrow> bool" where
  "refresh_panics v api =
     (case (aIndex api, aGraph api) of
        (Some i, Some g) \<Rightarrow> fst (Refresh (e_scores v) (e_near v) (e_now v) g (dbHazards (aDb api)) i) = Panic
      | _ \<Rightarrow> False)"

definition report_stored :: "env \<Rightarrow> nat \<Rightarrow> Report \<Rightarrow> Api \<Rightarrow> answer \<times> Api" where
  "report_stored v status r api =
     (respond (if refresh_panics v api then Panic else Ok (status, OneReport r)), refresh_overlay v api)"

definition handleReportHazard :: "env \<Rightarrow> string + Submission \<Rightarrow> string \<Rightarrow> request \<Rightarrow> Api \<Rightarrow> answer \<times> Api" where
  "handleReportHazard v b uid rq api =
     (case decodeJSON b of
        Err f \<Rightarrow> (respond (Err f), api)
      | Panic \<Rightarrow> (respond Panic, api)
      | Ok sub \<Rightarrow>
          (case Submission_Validate sub of
             Some e \<Rightarrow> (respond (writeValidationError ''invalid hazard report'' (hazard_details v e)), api)
           | None \<Rightarrow>
               let (res, tab) = Hazard_Create (e_fault v) (e_serial v) (e_now v) sub
                     (if uid = [] then None else Some uid) (dbHazards (aDb api));
                   api = api\<lparr>aDb := (aDb api)\<lparr>dbHazards := tab\<rparr>\<rparr>
               in (case res of
                     Ok r \<Rightarrow> report_stored v 201 r api
                   | _ \<Rightarrow> (respond writeInternalError, api))))"

definition exceeds :: "float_text \<Rightarrow> float_text \<Rightarrow> bool" where
  "exceeds a b \<longleftrightarrow> (case (a, b) of
     (Fin x, Fin y) \<Rightarrow> x > y
   | (NaN, _) \<Rightarrow> False | (_, NaN) \<Rightarrow> False
   | (Inf n, Inf n') \<Rightarrow> \<not> n \<and> n'
   | (Inf n, Fin _) \<Rightarrow> \<not> n
   | (Fin _, Inf n) \<Rightarrow> n)"

fun parse_corners :: "nat \<Rightarrow> string list \<Rightarrow> (failure, float_text list) outcome" where
  "parse_corners i [] = Ok []"
| "parse_corners i (p # ps) =
     (case ParseFloat (TrimSpace p) of
        None \<Rightarrow> with_text (itoa (int i)) (\<lambda>n. writeValidationError ''malformed bbox''
          [''bbox'' \<mapsto> Text (''value '' @ n @ '' is not a number'')])
      | Some f \<Rightarrow> obind (parse_corners (Suc i) ps) (\<lambda>fs. Ok (f # fs)))"

definition parse_bbox :: "string \<Rightarrow> (failure, float_text list) outcome" where
  "parse_bbox bbox =
     (if bbox = [] then writeValidationError ''bbox is required'' [''bbox'' \<mapsto> Text ''minLon,minLat,maxLon,maxLat'']
      else let parts = split_on (CHR '','') bbox
           in if length parts \<noteq> 4 then writeValidationError ''malformed bbox'' [''bbox'' \<mapsto>
                Text ''expected four comma-separated numbers: minLon,minLat,maxLon,maxLat'']
              else obind (parse_corners 0 parts) (\<lambda>v.
                if exceeds (v ! 0) (v ! 2) \<or> exceeds (v ! 1) (v ! 3)
                then writeValidationError ''malformed bbox'' [''bbox'' \<mapsto>
                  Text ''minimum values must not exceed maximum values'']
                else Ok v))"

definition handleListHazards :: "env \<Rightarrow> string \<Rightarrow> string \<Rightarrow> Api \<Rightarrow> answer \<times> Api" where
  "handleListHazards e bbox limit api =
     (respond (obind (parse_bbox bbox) (\<lambda>v.
        case ListInBBox (e_newest_reports e) (e_fault e) (e_now e) (v ! 0) (v ! 1) (v ! 2) (v ! 3) (Atoi limit)
            (dbHazards (aDb api)) of
          Ok rs \<Rightarrow> Ok (200, ReportList rs)
        | _ \<Rightarrow> writeInternalError)), api)"

definition handleConfirmHazard :: "env \<Rightarrow> string \<Rightarrow> string \<Rightarrow> request \<Rightarrow> Api \<Rightarrow> answer \<times> Api" where
  "handleConfirmHazard v i uid rq api =
     (case ParseInt i of
        Ok n \<Rightarrow>
          let (res, tab) = Hazard_Confirm (e_fault v) (e_now v) n (dbHazards (aDb api));
              api = api\<lparr>aDb := (aDb api)\<lparr>dbHazards := tab\<rparr>\<rparr>
          in (case res of
                Ok r \<Rightarrow> report_stored v 200 r api
              | _ \<Rightarrow> (respond (writeError 404 CodeNotFound ''no active hazard with that id''), api))
      | _ \<Rightarrow> (respond (writeValidationError ''invalid hazard id'' [''id'' \<mapsto> Text ''must be a number'']), api))"

section \<open>Health\<close>

definition handleHealth :: "Api \<Rightarrow> answer \<times> Api" where
  "handleHealth api = (respond (Ok (200, Health
     \<lparr>hStatus = ''ok'', hDatabase = [], hGraph = [], hNodes = 0, hEdges = 0\<rparr>)), api)"

definition handleReady :: "env \<Rightarrow> Api \<Rightarrow> answer \<times> Api" where
  "handleReady v api =
     (if \<not> e_ping v then (respond (Ok (503, Health \<lparr>hStatus = ''degraded'', hDatabase = ''unreachable'',
        hGraph = [], hNodes = 0, hEdges = 0\<rparr>)), api)
      else case aGraph api of
        None \<Rightarrow> (respond (Ok (503, Health \<lparr>hStatus = ''starting'', hDatabase = ''ok'', hGraph = ''not loaded'',
          hNodes = 0, hEdges = 0\<rparr>)), api)
      | Some g \<Rightarrow> (respond (Ok (200, Health \<lparr>hStatus = ''ok'', hDatabase = ''ok'', hGraph = ''ok'',
          hNodes = NumNodes g, hEdges = NumEdges g\<rparr>)), api))"

section \<open>The route table and the middleware\<close>

definition plan_server :: "Api \<Rightarrow> Server" where
  "plan_server api = \<lparr>sGraph = aGraph api, sSnapper = aSnapper api, sHazards = hazard_scores api\<rparr>"

definition handlePlan :: "env \<Rightarrow> string + PlanRequest \<Rightarrow> Api \<Rightarrow> answer \<times> Api" where
  "handlePlan v b api =
     (([], map_option (\<lambda>r. obind r (\<lambda>(st, resp). Ok (st, Planned resp)))
        (handleRoutePlan (plan_server api) (e_world v) b)), api)"

definition mux :: "env \<Rightarrow> request \<Rightarrow> Api \<Rightarrow> answer \<times> Api" where
  "mux v rq api =
     (case rqEndpoint rq of
        GetHealth \<Rightarrow> handleHealth api
      | GetReady \<Rightarrow> handleReady v api
      | PostPlan b \<Rightarrow> handlePlan v b api
      | PostRegister b \<Rightarrow> handleRegister v b api
      | PostLogin b \<Rightarrow> handleLogin v b api
      | GetMe \<Rightarrow> requireAuth v (handleMe v) rq api
      | GetRoutes limit \<Rightarrow> requireAuth v (handleListRoutes v limit) rq api
      | PostRoute b \<Rightarrow> requireAuth v (handleSaveRoute v b) rq api
      | GetRoute i \<Rightarrow> requireAuth v (handleGetRoute v i) rq api
      | DeleteRoute i \<Rightarrow> requireAuth v (handleDeleteRoute v i) rq api
      | PostHazard b \<Rightarrow> optionalAuth v (handleReportHazard v b) rq api
      | GetHazards bbox limit \<Rightarrow> handleListHazards v bbox limit api
      | PostConfirm i \<Rightarrow> optionalAuth v (handleConfirmHazard v i) rq api)"

type_synonym handler = "request \<Rightarrow> Api \<Rightarrow> answer \<times> Api"

definition chain_handlers :: "handler \<Rightarrow> (handler \<Rightarrow> handler) list \<Rightarrow> handler" where
  "chain_handlers h ms = foldr (\<lambda>m h. m h) ms h"

definition withRequestID :: "env \<Rightarrow> handler \<Rightarrow> handler" where
  "withRequestID v handle_next rq api =
     (let i = (if rqID rq = [] then e_random v else rqID rq); ((hs, r), api) = handle_next (rq\<lparr>rqID := i\<rparr>) api
      in (((''X-Request-ID'', i) # hs, r), api))"

definition withRecover :: "handler \<Rightarrow> handler" where
  "withRecover handle_next rq api =
     (case handle_next rq api of
        ((hs, Some Panic), api) \<Rightarrow> ((hs, Some writeInternalError), api)
      | r \<Rightarrow> r)"

text \<open>Logging records the status and passes everything through.\<close>

definition withLogging :: "handler \<Rightarrow> handler" where
  "withLogging handle_next rq api = handle_next rq api"

definition withCORS :: "handler \<Rightarrow> handler" where
  "withCORS handle_next rq api =
     (let cors = [(''Access-Control-Allow-Origin'', ''*''),
            (''Access-Control-Allow-Methods'', ''GET, POST, DELETE, OPTIONS''),
            (''Access-Control-Allow-Headers'', ''Content-Type, Authorization'')]
      in if rqOptions rq then ((cors, Some (Ok (204, Empty))), api)
         else let ((hs, r), api) = handle_next rq api in ((cors @ hs, r), api))"

definition Server_Handler :: "env \<Rightarrow> handler" where
  "Server_Handler v = chain_handlers (mux v) [withRequestID v, withRecover, withLogging, withCORS]"

text \<open>A session: requests one after another, each in its own environment.\<close>

fun serve_all :: "(env \<times> request) list \<Rightarrow> Api \<Rightarrow> Api" where
  "serve_all [] api = api"
| "serve_all ((v, rq) # rest) api = serve_all rest (snd (Server_Handler v rq api))"

end
