(* ===== verification/Http_Session.thy ===== *)
theory Http_Session
  imports Http_Api Http_Plan
begin

text \<open>
  What the assembled server promises: whose token a request carries decides whose saved routes it
  can read or change; every panic becomes a 500; and a hazard that is accepted is in the overlay
  the next route is planned with.
\<close>

section \<open>Who is calling\<close>

definition caller :: "env \<Rightarrow> request \<Rightarrow> Api \<Rightarrow> string option" where
  "caller v rq api =
     (case aSigner api of
        None \<Rightarrow> None
      | Some sg \<Rightarrow>
          (case bearerToken (rqAuthorization rq) of
             None \<Rightarrow> None
           | Some t \<Rightarrow> (case Verify (e_parse v) (e_now v) sg t of Ok c \<Rightarrow> Some (Subject c) | _ \<Rightarrow> None)))"

lemma requireAuth_known: "caller v rq api = Some u \<Longrightarrow> requireAuth v h rq api = h u rq api"
  by (auto simp: requireAuth_def caller_def split: option.splits outcome.splits)

lemma requireAuth_refused:
  "caller v rq api = None \<Longrightarrow> \<exists>hs f. requireAuth v h rq api = ((hs, Some (Err f)), api) \<and>
     (failure_status f = 401 \<or> failure_status f = 503)"
  by (auto simp: requireAuth_def caller_def respond_def not_configured_def writeError_def
      split: option.splits outcome.splits)

lemma optionalAuth_uid:
  "optionalAuth v h rq api = h (case caller v rq api of None \<Rightarrow> [] | Some u \<Rightarrow> u) rq api"
  by (auto simp: optionalAuth_def caller_def split: option.splits outcome.splits)

lemma caller_id [simp]: "caller v (rq\<lparr>rqID := i\<rparr>) api = caller v rq api"
  by (simp add: caller_def cong: option.case_cong)

section \<open>Saved routes\<close>

abbreviation routes_of :: "string \<Rightarrow> Api \<Rightarrow> saved_row list" where
  "routes_of u api \<equiv> rows_of u (dbRoutes (aDb api))"

text \<open>An answer shows only rows of the user \<open>u\<close>.\<close>

definition shows_row :: "saved_row list \<Rightarrow> Route \<Rightarrow> bool" where
  "shows_row mine r \<longleftrightarrow> (\<exists>row\<in>set mine. sv_id row = rtID r \<and> sv_name row = rtName r)"

definition own_only :: "saved_row list \<Rightarrow> body \<Rightarrow> bool" where
  "own_only mine b \<longleftrightarrow> (case b of
     OneRoute r \<Rightarrow> shows_row mine r | RouteView r g \<Rightarrow> shows_row mine r
   | RouteList rs \<Rightarrow> \<forall>r\<in>set rs. shows_row mine r | _ \<Rightarrow> True)"

definition no_routes :: "body \<Rightarrow> bool" where
  "no_routes b \<longleftrightarrow> (case b of OneRoute r \<Rightarrow> False | RouteView r g \<Rightarrow> False | RouteList rs \<Rightarrow> False | _ \<Rightarrow> True)"

lemma no_routes_simps [simp]:
  "no_routes Empty" "no_routes (Health x)" "no_routes (Planned p)" "no_routes (Session t e us)"
  "no_routes (Account us)" "no_routes (OneReport rp)" "no_routes (ReportList rps)"
  by (simp_all add: no_routes_def)

lemma save_route_step:
  assumes "handleSaveRoute v b u rq api = ((hs, r), api')"
  shows "(\<forall>w. w \<noteq> u \<longrightarrow> routes_of w api' = routes_of w api) \<and>
    (\<forall>st x. r = Some (Ok (st, x)) \<longrightarrow> own_only (routes_of u api') x) \<and>
    aGraph api' = aGraph api \<and> dbAccounts (aDb api') = dbAccounts (aDb api) \<and> dbHazards (aDb api') = dbHazards (aDb api)"
proof (cases "\<exists>g i. aGraph api = Some g \<and> run_then (Some (decodeJSON b)) (save_input v g api) = Some (Ok i)")
  case True
  then obtain g i where gi: "aGraph api = Some g" "run_then (Some (decodeJSON b)) (save_input v g api) = Some (Ok i)" by blast
  show ?thesis
  proof (cases "e_postgis v" "e_fault v" "e_uuid v" "e_now v" u i "dbRoutes (aDb api)" rule: Create_cases)
    case failed
    then show ?thesis using assms gi by (auto simp: handleSaveRoute_def respond_def writeInternalError_def writeError_def)
  next
    case (stored wp geom row)
    then show ?thesis using assms gi
      by (auto simp: handleSaveRoute_def respond_def own_only_def shows_row_def rows_of_def route_of_def)
  qed
next
  case False
  then show ?thesis using assms
    by (auto simp: handleSaveRoute_def respond_def writeError_def split: option.splits outcome.splits)
qed

lemma delete_route_step:
  assumes "handleDeleteRoute v i u rq api = ((hs, r), api')"
  shows "(\<forall>w. w \<noteq> u \<longrightarrow> routes_of w api' = routes_of w api) \<and>
    (\<forall>st x. r = Some (Ok (st, x)) \<longrightarrow> no_routes x)"
proof -
  obtain res tab where d: "Delete (e_fault v) u i (dbRoutes (aDb api)) = (res, tab)" by fastforce
  have "rows_of w tab = routes_of w api" if "w \<noteq> u" for w
    using Delete_others [OF that, of "e_fault v" i "dbRoutes (aDb api)"] d by simp
  then show ?thesis using assms d
    by (auto simp: handleDeleteRoute_def respond_def writeError_def split: option.splits)
qed

lemma get_route_step:
  assumes "handleGetRoute v i u rq api = ((hs, r), api')"
  shows "api' = api \<and> (\<forall>st x. r = Some (Ok (st, x)) \<longrightarrow> own_only (routes_of u api') x)"
  using assms
  by (auto simp: handleGetRoute_def respond_def writeError_def Get_def own_only_def shows_row_def rows_of_def
      route_of_def find_Some_iff split: option.splits outcome.splits if_splits)
    (metis nth_mem)+

lemma list_routes_step:
  assumes "handleListRoutes v limit u rq api = ((hs, r), api')" and "\<And>xs. mset (e_newest_routes v xs) = mset xs"
  shows "api' = api \<and> (\<forall>st x. r = Some (Ok (st, x)) \<longrightarrow> own_only (routes_of u api') x)"
  using assms(1) List_own [OF _ assms(2)]
  by (auto simp: handleListRoutes_def respond_def writeInternalError_def writeError_def own_only_def
      shows_row_def rows_of_def split: outcome.splits) metis

text \<open>What every handler keeps: the routes of everyone but the caller, and what it shows.\<close>

definition discreet :: "string option \<Rightarrow> Api \<Rightarrow> answer \<times> Api \<Rightarrow> bool" where
  "discreet who api out \<longleftrightarrow> (case out of ((hs, r), api') \<Rightarrow>
     (\<forall>w. who \<noteq> Some w \<longrightarrow> routes_of w api' = routes_of w api) \<and>
     (\<forall>st x. r = Some (Ok (st, x)) \<longrightarrow> no_routes x \<or> (\<exists>u. who = Some u \<and> own_only (routes_of u api') x)))"

lemma discreet_same:
  assumes "dbRoutes (aDb api') = dbRoutes (aDb api)" and "\<And>st x. r = Some (Ok (st, x)) \<Longrightarrow> no_routes x"
  shows "discreet who api ((hs, r), api')"
  using assms by (auto simp: discreet_def)

lemma discreet_requireAuth:
  assumes "\<And>u hs r api'. h u rq api = ((hs, r), api') \<Longrightarrow> (\<forall>w. w \<noteq> u \<longrightarrow> routes_of w api' = routes_of w api) \<and>
    (\<forall>st x. r = Some (Ok (st, x)) \<longrightarrow> no_routes x \<or> own_only (routes_of u api') x)"
  shows "discreet (caller v rq api) api (requireAuth v h rq api)"
proof (cases "caller v rq api")
  case None
  then show ?thesis using requireAuth_refused [of v rq api h] by (auto simp: discreet_def)
next
  case (Some u)
  obtain hs r api' where "h u rq api = ((hs, r), api')" by (metis surj_pair)
  then show ?thesis using assms [of u hs r api'] requireAuth_known [OF Some] Some by (auto simp: discreet_def)
qed

lemma refresh_overlay_db [simp]: "aDb (refresh_overlay v api) = aDb api"
  by (auto simp: refresh_overlay_def split: option.splits)

lemma discreet_hazards:
  "discreet who api (handleReportHazard v b u rq api)" "discreet who api (handleConfirmHazard v i u rq api)"
  "discreet who api (handleListHazards v bbox limit api)"
proof -
  show "discreet who api (handleReportHazard v b u rq api)"
    by (auto simp: handleReportHazard_def respond_def write_defs writeValidationError_def report_stored_def Let_def
        intro!: discreet_same split: outcome.splits option.splits prod.splits if_splits)
  show "discreet who api (handleConfirmHazard v i u rq api)"
    by (auto simp: handleConfirmHazard_def respond_def write_defs writeValidationError_def report_stored_def Let_def
        intro!: discreet_same split: outcome.splits option.splits prod.splits if_splits)
  show "discreet who api (handleListHazards v bbox limit api)"
  proof -
    have "no_routes x" if "(case L of Ok rs \<Rightarrow> Ok (200, ReportList rs) | _ \<Rightarrow> writeInternalError) = Ok (st, x)"
      for L :: "(hazard_error, Report list) outcome" and st x
      using that by (cases L) (auto simp: write_defs)
    then show ?thesis unfolding handleListHazards_def respond_def
      by (intro discreet_same) (auto simp only: obind_Ok_iff option.inject)
  qed
qed

lemma discreet_accounts:
  "discreet who api (handleRegister v b api)" "discreet who api (handleLogin v b' api)"
proof -
  have issue: "issueToken v sg user st = Ok (st', x) \<Longrightarrow> no_routes x" for sg user st st' x
    by (auto simp: issueToken_def write_defs split: outcome.splits prod.splits)
  have fail: "register_failure e \<noteq> Ok y" for e y
    by (auto simp: register_failure_def write_defs writeValidationError_def split: auth_error.splits)
  show "discreet who api (handleRegister v b api)"
    by (auto simp: handleRegister_def respond_def not_configured_def write_defs Let_def fail
        intro!: discreet_same intro: issue split: outcome.splits option.splits prod.splits)
  show "discreet who api (handleLogin v b' api)"
  proof (cases "aSigner api")
    case None
    then show ?thesis by (auto simp: handleLogin_def respond_def not_configured_def writeError_def intro!: discreet_same)
  next
    case (Some sg)
    have "no_routes x" if "(case A of Ok user \<Rightarrow> issueToken v sg user 200
        | Err e \<Rightarrow> if e = ErrInvalidCredentials then writeError 401 CodeUnauthorized ''invalid email or password''
            else writeInternalError | Panic \<Rightarrow> Panic) = Ok (st, x)" for A st x
      using that issue by (cases A) (auto simp: write_defs split: if_splits)
    then show ?thesis using Some
      by (auto simp only: handleLogin_def respond_def obind_Ok_iff option.inject option.case intro!: discreet_same)
  qed
qed

definition fair_rows :: "env \<Rightarrow> bool" where
  "fair_rows v \<longleftrightarrow> (\<forall>xs. mset (e_newest_routes v xs) = mset xs)"

lemma mux_discreet:
  assumes "fair_rows v"
  shows "discreet (caller v rq api) api (mux v rq api)"
proof (cases "rqEndpoint rq")
  case GetHealth
  then show ?thesis by (auto simp: mux_def handleHealth_def respond_def intro!: discreet_same)
next
  case GetReady
  then show ?thesis by (auto simp: mux_def handleReady_def respond_def intro!: discreet_same split: option.splits)
next
  case (PostPlan b)
  then show ?thesis by (auto simp: mux_def handlePlan_def obind_Ok_iff intro!: discreet_same)
next
  case (PostRegister b)
  then show ?thesis by (simp add: mux_def discreet_accounts)
next
  case (PostLogin b)
  then show ?thesis by (simp add: mux_def discreet_accounts)
next
  case GetMe
  then show ?thesis
    by (auto simp: mux_def handleMe_def respond_def writeError_def intro!: discreet_requireAuth split: outcome.splits)
next
  case (GetRoutes limit)
  have "discreet (caller v rq api) api (requireAuth v (handleListRoutes v limit) rq api)"
    by (rule discreet_requireAuth) (use list_routes_step assms in \<open>fastforce simp: fair_rows_def\<close>)
  then show ?thesis using GetRoutes by (simp add: mux_def)
next
  case (PostRoute b)
  have "discreet (caller v rq api) api (requireAuth v (handleSaveRoute v b) rq api)"
    by (rule discreet_requireAuth) (use save_route_step in blast)
  then show ?thesis using PostRoute by (simp add: mux_def)
next
  case (GetRoute i)
  have "discreet (caller v rq api) api (requireAuth v (handleGetRoute v i) rq api)"
    by (rule discreet_requireAuth) (use get_route_step in blast)
  then show ?thesis using GetRoute by (simp add: mux_def)
next
  case (DeleteRoute i)
  have "discreet (caller v rq api) api (requireAuth v (handleDeleteRoute v i) rq api)"
    by (rule discreet_requireAuth) (use delete_route_step in blast)
  then show ?thesis using DeleteRoute by (simp add: mux_def)
next
  case (PostHazard b)
  then show ?thesis by (simp add: mux_def optionalAuth_uid discreet_hazards)
next
  case (GetHazards bbox limit)
  then show ?thesis by (simp add: mux_def discreet_hazards)
next
  case (PostConfirm i)
  then show ?thesis by (simp add: mux_def optionalAuth_uid discreet_hazards)
qed

section \<open>The whole server\<close>

definition recovered :: "(failure, nat \<times> body) outcome option \<Rightarrow> (failure, nat \<times> body) outcome option" where
  "recovered r = (if r = Some Panic then Some writeInternalError else r)"

definition with_id :: "env \<Rightarrow> request \<Rightarrow> request" where
  "with_id v rq = rq\<lparr>rqID := (if rqID rq = [] then e_random v else rqID rq)\<rparr>"

lemma with_id_simps [simp]:
  "caller v (with_id v rq) api = caller v rq api" "rqEndpoint (with_id v rq) = rqEndpoint rq"
  by (simp_all add: with_id_def)

lemma served:
  "((\<exists>hs. Server_Handler v rq api = ((hs, Some (Ok (204, Empty))), api)) \<and> rqOptions rq) \<or>
   (\<exists>hs hs' r api'. mux v (with_id v rq) api = ((hs', r), api') \<and>
      Server_Handler v rq api = ((hs, recovered r), api'))"
proof (cases "rqOptions rq")
  case True
  then show ?thesis
    by (simp add: Server_Handler_def chain_handlers_def withRequestID_def withRecover_def withLogging_def
        withCORS_def Let_def)
next
  case False
  obtain hs r api' where m: "mux v (with_id v rq) api = ((hs, r), api')" by (metis surj_pair)
  have "rqOptions (with_id v rq) = rqOptions rq" by (simp add: with_id_def)
  then have "\<exists>hs. Server_Handler v rq api = ((hs, recovered r), api')" using False m
    by (cases r; cases "the r")
      (auto simp: Server_Handler_def chain_handlers_def withRequestID_def withRecover_def withLogging_def
        withCORS_def Let_def with_id_def recovered_def write_defs)
  then show ?thesis using m by blast
qed

lemma server_discreet:
  assumes "fair_rows v"
  shows "discreet (caller v rq api) api (Server_Handler v rq api)"
  using served [of v rq api]
proof (elim disjE exE conjE)
  fix hs hs' r api'
  assume m: "mux v (with_id v rq) api = ((hs', r), api')" "Server_Handler v rq api = ((hs, recovered r), api')"
  then have "discreet (caller v rq api) api ((hs', r), api')" using mux_discreet [OF assms, of "with_id v rq" api] by simp
  then show ?thesis using m by (auto simp: discreet_def recovered_def write_defs split: if_splits)
qed (simp add: discreet_def)

text \<open>No request ends in a panic.\<close>

lemma server_recovers: "snd (fst (Server_Handler v rq api)) \<noteq> Some Panic"
  using served [of v rq api] by (auto simp: recovered_def write_defs split: if_split_asm)

text \<open>The graph and the signer stay.\<close>

definition same_server :: "Api \<Rightarrow> Api \<Rightarrow> bool" where
  "same_server api api' \<longleftrightarrow> aSigner api' = aSigner api \<and> aGraph api' = aGraph api \<and> aSnapper api' = aSnapper api"

lemma same_server_simps [simp]:
  "same_server api api" "same_server api (api\<lparr>aDb := d\<rparr>)"
  "same_server api (refresh_overlay v api') = same_server api api'"
  by (auto simp: same_server_def refresh_overlay_def split: option.splits)

lemma same_server_handlers:
  "same_server api (snd (handleRegister v rb api))" "same_server api (snd (handleLogin v lb api))"
  "same_server api (snd (handleMe v u rq api))" "same_server api (snd (handleSaveRoute v sb u rq api))"
  "same_server api (snd (handleListRoutes v l u rq api))" "same_server api (snd (handleGetRoute v i u rq api))"
  "same_server api (snd (handleDeleteRoute v i u rq api))" "same_server api (snd (handleReportHazard v hb u rq api))"
  "same_server api (snd (handleListHazards v bb l api))" "same_server api (snd (handleConfirmHazard v i u rq api))"
  by (auto simp: handleRegister_def handleLogin_def handleMe_def handleSaveRoute_def handleListRoutes_def
      handleGetRoute_def handleDeleteRoute_def handleReportHazard_def handleListHazards_def
      handleConfirmHazard_def report_stored_def Let_def split: option.splits outcome.splits prod.splits)

lemma same_server_auth:
  "(\<And>u. same_server api (snd (h u rq api))) \<Longrightarrow> same_server api (snd (requireAuth v h rq api))"
  "(\<And>u. same_server api (snd (h u rq api))) \<Longrightarrow> same_server api (snd (optionalAuth v h rq api))"
  using requireAuth_refused [of v rq api h] requireAuth_known [of v rq api _ h]
  by (cases "caller v rq api") (auto simp: optionalAuth_uid)

lemma same_server_mux: "same_server api (snd (mux v rq api))"
  by (cases "rqEndpoint rq")
    (simp_all add: mux_def same_server_auth same_server_handlers handleHealth_def handleReady_def handlePlan_def
      split: option.splits)

lemma same_server_served: "same_server api (snd (Server_Handler v rq api))"
  using served [of v rq api] same_server_mux [of api v "with_id v rq"] by auto

lemma caller_same: "same_server api api' \<Longrightarrow> caller v rq api' = caller v rq api"
  by (simp add: caller_def same_server_def)

text \<open>A session in which nobody shows a token of \<open>u\<close> leaves the routes of \<open>u\<close> alone.\<close>

lemma session_keeps:
  assumes "\<forall>(v, rq)\<in>set reqs. fair_rows v \<and> caller v rq api \<noteq> Some u"
  shows "routes_of u (serve_all reqs api) = routes_of u api"
  using assms
proof (induction reqs api rule: serve_all.induct)
  case (2 v rq rest api)
  let ?api = "snd (Server_Handler v rq api)"
  have "\<forall>(v, rq)\<in>set rest. fair_rows v \<and> caller v rq ?api \<noteq> Some u"
    using 2(2) caller_same [OF same_server_served] by auto
  then have "routes_of u (serve_all rest ?api) = routes_of u ?api" by (rule 2(1))
  moreover have "routes_of u ?api = routes_of u api"
    using server_discreet [of v rq api] 2(2) by (auto simp: discreet_def split: prod.splits)
  ultimately show ?case by simp
qed simp

section \<open>Hazards\<close>

lemma stored_report_answer:
  assumes "report_stored v st r api = ((hs, Some (Ok (st', x))), api')"
  shows "x = OneReport r \<and> api' = refresh_overlay v api"
  using assms by (auto simp: report_stored_def respond_def split: if_splits)

lemma accepted_report:
  assumes "handleReportHazard v b u rq api = ((hs, Some (Ok (st, OneReport r))), api') \<or>
    handleConfirmHazard v i u rq api = ((hs, Some (Ok (st, OneReport r))), api')"
  shows "\<exists>api1. aIndex api1 = aIndex api \<and> aGraph api1 = aGraph api \<and> api' = refresh_overlay v api1 \<and>
    r \<in> hz_report ` set (dbHazards (aDb api1)) \<and> active (e_now v) r"
  using assms
proof
  assume h: "handleReportHazard v b u rq api = ((hs, Some (Ok (st, OneReport r))), api')"
  then obtain sub where sub: "decodeJSON b = Ok sub" "Submission_Validate sub = None" "\<not> e_fault v"
    by (auto simp: handleReportHazard_def respond_def write_defs writeValidationError_def Hazard_Create_def Let_def
        split: outcome.splits option.splits if_splits)
  then show ?thesis using h
    by (auto simp: handleReportHazard_def Hazard_Create_def Let_def active_def day_def
        dest!: stored_report_answer intro!: exI [of _ "api\<lparr>aDb := (aDb api)\<lparr>dbHazards := _\<rparr>\<rparr>"])
next
  assume h: "handleConfirmHazard v i u rq api = ((hs, Some (Ok (st, OneReport r))), api')"
  then obtain n where n: "ParseInt i = Ok n"
    by (auto simp: handleConfirmHazard_def respond_def writeValidationError_def split: outcome.splits)
  obtain res tab where c: "Hazard_Confirm (e_fault v) (e_now v) n (dbHazards (aDb api)) = (res, tab)" by fastforce
  let ?api = "api\<lparr>aDb := (aDb api)\<lparr>dbHazards := tab\<rparr>\<rparr>"
  have "res = Ok r" "api' = refresh_overlay v ?api"
    using h n c stored_report_answer
    by (cases res; force simp: handleConfirmHazard_def respond_def writeError_def)+
  moreover have "r \<in> hz_report ` set tab \<and> active (e_now v) r"
    using c \<open>res = Ok r\<close>
    by (auto simp: Hazard_Confirm_def Let_def find_Some_iff active_def confirm_report_def day_def image_iff
        split: if_splits option.splits intro!: bexI [OF _ nth_mem])
  ultimately show ?thesis by (intro exI [of _ ?api]) simp
qed

section \<open>Sessions\<close>

lemma same_server_trans: "same_server a b \<Longrightarrow> same_server b c \<Longrightarrow> same_server a c"
  by (simp add: same_server_def)

lemma same_server_all: "same_server api (serve_all reqs api)"
  by (induction reqs api rule: serve_all.induct) (auto intro: same_server_trans same_server_served)

lemma TrimSpace_plain: "\<forall>c\<in>set s. \<not> is_space c \<Longrightarrow> TrimSpace s = s"
proof -
  assume a: "\<forall>c\<in>set s. \<not> is_space c"
  have "dropWhile is_space xs = xs" if "set xs \<subseteq> set s" for xs using a that by (cases xs) auto
  then show ?thesis by (simp add: TrimSpace_def TrimBoth_def)
qed

lemma bearerToken_Bearer: "t \<noteq> [] \<Longrightarrow> \<forall>c\<in>set t. \<not> is_space c \<Longrightarrow> bearerToken (''Bearer '' @ t) = Some t"
proof -
  have "ToLower ''Bearer '' = ''bearer ''" by code_simp
  then show "t \<noteq> [] \<Longrightarrow> \<forall>c\<in>set t. \<not> is_space c \<Longrightarrow> bearerToken (''Bearer '' @ t) = Some t"
    by (simp add: bearerToken_def TrimSpace_plain Let_def)
qed

lemma login_result:
  assumes "handleLogin v b api = ((hs, Some (Ok y)), api')"
  shows "api' = api \<and> (\<exists>sg user. aSigner api = Some sg \<and> issueToken v sg user 200 = Ok y)"
proof -
  have "\<exists>user. issueToken v sg user 200 = Ok y" if "(case A of Ok user \<Rightarrow> issueToken v sg user 200
      | Err e \<Rightarrow> if e = ErrInvalidCredentials then writeError 401 CodeUnauthorized ''invalid email or password''
          else writeInternalError | Panic \<Rightarrow> Panic) = Ok y" for A sg
    using that by (cases A) (auto simp: write_defs split: if_splits)
  moreover have "not_configured \<noteq> Ok y" by (simp add: not_configured_def writeError_def)
  ultimately show ?thesis using assms
    by (cases "aSigner api")
      (auto simp only: handleLogin_def respond_def obind_Ok_iff option.inject option.case prod.inject, blast)
qed

lemma session_token:
  assumes "handleRegister v b api = ((hs, Some (Ok (st, Session t expires user))), api') \<or>
    handleLogin v lb api = ((hs, Some (Ok (st, Session t expires user))), api')"
  shows "\<exists>sg. aSigner api' = Some sg \<and> Issue (e_sign v) (e_now v) sg (uID user) (uEmail user) = Ok (t, expires)"
proof -
  have issue: "issueToken v sg us st' = Ok (st, Session t expires user) \<Longrightarrow>
      Issue (e_sign v) (e_now v) sg (uID user) (uEmail user) = Ok (t, expires)" for sg us st'
    by (auto simp: issueToken_def write_defs split: outcome.splits)
  have fail: "register_failure e \<noteq> Ok y" for e y
    by (auto simp: register_failure_def write_defs writeValidationError_def split: auth_error.splits)
  show ?thesis using assms
  proof
    assume "handleRegister v b api = ((hs, Some (Ok (st, Session t expires user))), api')"
    then show ?thesis
      by (auto simp: handleRegister_def respond_def not_configured_def writeError_def Let_def fail
          dest!: issue split: outcome.splits option.splits prod.splits)
  next
    assume "handleLogin v lb api = ((hs, Some (Ok (st, Session t expires user))), api')"
    from login_result [OF this] show ?thesis using issue by auto
  qed
qed

text \<open>Only the two handlers of hazards answer with a report.\<close>

lemma requireAuth_result:
  assumes "requireAuth v h rq api = ((hs, Some (Ok x)), api')"
  shows "\<exists>u. h u rq api = ((hs, Some (Ok x)), api')"
  using assms requireAuth_refused [of v rq api h] requireAuth_known [of v rq api _ h]
  by (cases "caller v rq api") fastforce+

definition no_report :: "answer \<times> Api \<Rightarrow> bool" where
  "no_report out \<longleftrightarrow> (\<forall>hs st r api'. out \<noteq> ((hs, Some (Ok (st, OneReport r))), api'))"

lemma no_report_respond: "no_report (respond x, api) \<longleftrightarrow> (\<forall>st r. x \<noteq> Ok (st, OneReport r))"
  by (auto simp: no_report_def respond_def)

lemma no_report_auth: "(\<And>u. no_report (h u rq api)) \<Longrightarrow> no_report (requireAuth v h rq api)"
  using requireAuth_result [of v h rq api] by (auto simp: no_report_def)

lemma failures_no_report [simp]:
  "writeInternalError \<noteq> Ok y" "Ok y \<noteq> writeInternalError" "writeError n c m \<noteq> Ok y" "not_configured \<noteq> Ok y"
  "register_failure e \<noteq> Ok y" "writeValidationError w f \<noteq> Ok y"
  by (auto simp: write_defs not_configured_def register_failure_def writeValidationError_def split: auth_error.splits)

lemma issueToken_no_report [simp]: "issueToken v sg us st' \<noteq> Ok (st, OneReport r)"
  by (auto simp: issueToken_def split: outcome.splits prod.splits)

lemma no_report_accounts:
  "no_report (handleRegister v rb api)" "no_report (handleLogin v lb api)" "no_report (handleMe v u rq api)"
proof -
  show "no_report (handleRegister v rb api)"
    by (auto simp: handleRegister_def no_report_respond Let_def split: outcome.splits option.splits prod.splits)
  show "no_report (handleLogin v lb api)"
    using login_result [of v lb api] by (auto simp: no_report_def)
  show "no_report (handleMe v u rq api)"
    by (auto simp: handleMe_def no_report_respond split: outcome.splits)
qed

lemma no_report_routes:
  "no_report (handleSaveRoute v sb u rq api)" "no_report (handleListRoutes v l u rq api)"
  "no_report (handleGetRoute v i u rq api)" "no_report (handleDeleteRoute v i u rq api)"
proof -
  have "(case A of Ok rt \<Rightarrow> Ok (201::nat, OneRoute rt) | _ \<Rightarrow> writeInternalError) \<noteq> Ok (st, OneReport r)"
    for A :: "(route_error, Route) outcome" and st r
    by (cases A) auto
  then show "no_report (handleSaveRoute v sb u rq api)"
    by (auto simp: handleSaveRoute_def no_report_respond split: option.splits outcome.splits prod.splits)
      (auto simp: no_report_def)
  show "no_report (handleListRoutes v l u rq api)" "no_report (handleGetRoute v i u rq api)"
    "no_report (handleDeleteRoute v i u rq api)"
    by (auto simp: handleListRoutes_def handleGetRoute_def handleDeleteRoute_def no_report_respond
        split: option.splits outcome.splits prod.splits)
qed

lemma no_report_rest:
  "no_report (handleHealth api)" "no_report (handleReady v api)" "no_report (handlePlan v pb api)"
  "no_report (handleListHazards v bbox limit api)"
proof -
  show "no_report (handleHealth api)" "no_report (handleReady v api)"
    by (auto simp: handleHealth_def handleReady_def no_report_respond split: option.splits)
  show "no_report (handlePlan v pb api)" by (auto simp: handlePlan_def no_report_def obind_Ok_iff)
  have "(case L of Ok rs \<Rightarrow> Ok (200::nat, ReportList rs) | _ \<Rightarrow> writeInternalError) \<noteq> Ok (st, OneReport r)"
    for L :: "(hazard_error, Report list) outcome" and st r
    by (cases L) auto
  then show "no_report (handleListHazards v bbox limit api)"
    by (auto simp only: handleListHazards_def no_report_respond obind_Ok_iff)
qed

lemma one_report:
  assumes "mux v rq api = ((hs, Some (Ok (st, OneReport r))), api')"
  shows "\<exists>b u i. handleReportHazard v b u rq api = ((hs, Some (Ok (st, OneReport r))), api') \<or>
    handleConfirmHazard v i u rq api = ((hs, Some (Ok (st, OneReport r))), api')"
proof -
  have "\<not> no_report (mux v rq api)" using assms by (auto simp: no_report_def)
  then show ?thesis using assms
    by (cases "rqEndpoint rq")
      (simp_all add: mux_def optionalAuth_uid no_report_accounts no_report_routes no_report_rest no_report_auth,
        blast+)
qed

lemma served_report:
  assumes "Server_Handler v rq api = ((hs, Some (Ok (st, OneReport r))), api')"
  shows "\<exists>api1. aIndex api1 = aIndex api \<and> aGraph api1 = aGraph api \<and> api' = refresh_overlay v api1 \<and>
    r \<in> hz_report ` set (dbHazards (aDb api1)) \<and> active (e_now v) r"
proof -
  obtain hs' where "mux v (with_id v rq) api = ((hs', Some (Ok (st, OneReport r))), api')"
    using served [of v rq api] assms by (auto simp: recovered_def write_defs split: if_splits)
  from one_report [OF this] show ?thesis using accepted_report by blast
qed

end
