(* ===== verification/Example_Server.thy ===== *)
theory Example_Server
  imports Http_Session Example_Plan
begin

text \<open>
  An environment for the assembled server, with libraries small enough to compute with: a hash is
  the password with a prefix, a token is its claims written out one after another, each with its
  length in front, and a geometry is stored as the WKT text it was given.
\<close>

section \<open>Passwords\<close>

definition demo_generate :: "string \<Rightarrow> string option" where
  "demo_generate p = (if 72 < length p then None else Some (''$2a$'' @ p))"

definition demo_matches :: "string \<Rightarrow> string \<Rightarrow> bool" where
  "demo_matches h q \<longleftrightarrow> h = ''$2a$'' @ q"

lemma demo_bcrypt: "bcrypt_ok demo_generate demo_matches"
  by (auto simp: bcrypt_ok_def demo_generate_def demo_matches_def)

section \<open>Tokens\<close>

definition frame :: "string \<Rightarrow> string" where
  "frame s = replicate (length s) (CHR ''+'') @ ''.'' @ s"

definition unframe :: "string \<Rightarrow> string \<times> string" where
  "unframe t = (let n = length (takeWhile (\<lambda>c. c = CHR ''+'') t)
     in (take n (drop (Suc n) t), drop (Suc (2 * n)) t))"

lemma unframe_frame [simp]: "unframe (frame s @ rest) = (s, rest)"
proof -
  have "takeWhile (\<lambda>c. c = CHR ''+'') (replicate n (CHR ''+'') @ CHR ''.'' # t) = replicate n (CHR ''+'')" for n t
    by (induction n) auto
  then show ?thesis by (simp add: unframe_def frame_def Let_def)
qed

definition frame_int :: "int \<Rightarrow> string" where
  "frame_int n = frame (replicate (nat n) (CHR ''+'')) @ frame (replicate (nat (- n)) (CHR ''-''))"

definition unframe_int :: "string \<Rightarrow> int \<times> string" where
  "unframe_int t = (let (a, t) = unframe t; (b, t) = unframe t in (int (length a) - int (length b), t))"

lemma unframe_int [simp]: "unframe_int (frame_int n @ rest) = (n, rest)"
  by (simp add: unframe_int_def frame_int_def)

definition demo_sign :: "string \<Rightarrow> Claims \<Rightarrow> string option" where
  "demo_sign s c = Some (frame s @ frame (clEmail c) @ frame (Subject c) @ frame (clIssuer c) @
     frame_int (IssuedAt c) @ frame_int (NotBefore c) @ frame_int (ExpiresAt c))"

definition demo_claims :: "string \<Rightarrow> string \<times> Claims" where
  "demo_claims t = (let (s, t) = unframe t; (e, t) = unframe t; (u, t) = unframe t; (i, t) = unframe t;
       (a, t) = unframe_int t; (b, t) = unframe_int t; (x, t) = unframe_int t
     in (s, \<lparr>clEmail = e, Subject = u, clIssuer = i, IssuedAt = a, NotBefore = b, ExpiresAt = x\<rparr>))"

definition demo_parse :: "string \<Rightarrow> string list \<Rightarrow> string \<Rightarrow> int \<Rightarrow> string \<Rightarrow> Claims option" where
  "demo_parse s algs iss now t = (let (s', c) = demo_claims t
     in if s' = s \<and> demo_sign s c = Some t \<and> ''HS256'' \<in> set algs \<and> clIssuer c = iss \<and> NotBefore c \<le> now \<and>
         now < ExpiresAt c then Some c else None)"

lemma demo_jwt: "jwt_ok demo_sign demo_parse"
proof -
  have "demo_claims t = (s, c)" if "demo_sign s c = Some t" for s c t
    using that by (auto simp: demo_sign_def demo_claims_def unframe_int [where rest = "[]", simplified])
  then show ?thesis by (auto simp: jwt_ok_def demo_parse_def) (simp add: demo_sign_def)
qed

section \<open>Geometry\<close>

definition demo_coords :: "string \<Rightarrow> real list list option" where
  "demo_coords g = (let cs = read_wkt g in if None \<in> set cs then None else Some (map the cs))"

lemma demo_postgis: "postgis_ok Some demo_coords"
  by (auto simp: postgis_ok_def demo_coords_def)

section \<open>The server\<close>

definition demo_env :: "int \<Rightarrow> env" where
  "demo_env now = \<lparr>e_world = demo_world [0, 2], e_fault = False, e_ping = True, e_now = now, e_uuid = ''u1'',
     e_serial = 1, e_random = ''0123'', e_generate = demo_generate, e_matches = demo_matches, e_sign = demo_sign,
     e_parse = demo_parse, e_postgis = Some, e_coords = demo_coords, e_newest_routes = rev,
     e_newest_reports = rev, e_near = \<lambda>r. [(1, 12)],
     e_scores = \<lambda>gs. Some \<lparr>rows = map Some gs, rows_err = False\<rparr>, e_kinds = rev\<rparr>"

definition demo_saved :: saved_row where
  "demo_saved = \<lparr>sv_id = ''r1'', sv_user = ''u1'', sv_name = ''Home'', sv_waypoints = [], sv_geom = [],
     sv_distance = 200, sv_duration = Some 48, sv_score = Some 100, sv_profile = Cautious, sv_created = 0\<rparr>"

definition demo_api :: Api where
  "demo_api = \<lparr>aGraph = Some demo, aSnapper = Some None, aIndex = Some (NewIndex 3),
     aSigner = Some \<lparr>secret = ''0123456789abcdef''\<rparr>,
     aDb = \<lparr>dbAccounts = [], dbRoutes = [demo_saved], dbHazards = []\<rparr>\<rparr>"

definition demo_call :: "endpoint \<Rightarrow> string \<Rightarrow> request" where
  "demo_call e auth = \<lparr>rqOptions = False, rqID = [], rqAuthorization = auth, rqEndpoint = e\<rparr>"

lemma demo_fair: "fair_rows (demo_env now)"
  by (simp add: fair_rows_def demo_env_def)

lemma demo_answers: "answers_groups (e_scores (demo_env now))"
  by (simp add: answers_groups_def demo_env_def)

lemma demo_ids: "ids_ok demo" "\<forall>e<3. IndexOfDBID demo (DBID demo ! e) = Some e"
  by (auto simp: ids_ok_def IndexOfDBID_def demo_def NumEdges_def nth_Cons' split: if_splits)

text \<open>A registration, and a pothole reported without a token.\<close>

definition demo_signup :: "string + RegisterRequest" where
  "demo_signup = Inr \<lparr>rgEmail = ''rider@example.org'', rgPassword = ''correct horse'', rgDisplayName = []\<rparr>"

definition demo_rider :: User where
  "demo_rider = \<lparr>uID = ''u1'', uEmail = ''rider@example.org'', uDisplayName = [], uCreatedAt = 0\<rparr>"

definition demo_token :: string where
  "demo_token = the (demo_sign ''0123456789abcdef'' \<lparr>clEmail = ''rider@example.org'', Subject = ''u1'',
     clIssuer = Issuer, IssuedAt = 0, NotBefore = 0, ExpiresAt = TokenTTL\<rparr>)"

lemma demo_text:
  "NormaliseEmail ''rider@example.org'' = ''rider@example.org''"
  "NormaliseEmail '' Rider@Example.org'' = ''rider@example.org''"
  "ValidateEmail ''rider@example.org'' = None" "ValidatePassword ''correct horse'' = None"
proof -
  have "rune_count ''correct horse'' = 13" by (subst rune_count_ascii) simp_all
  then show "ValidatePassword ''correct horse'' = None"
    by (simp add: ValidatePassword_def MinPasswordLen_def MaxPasswordLen_def)
qed code_simp+

lemma demo_register:
  "Register demo_generate False ''u1'' 0 ''rider@example.org'' ''correct horse'' [] [] = (Ok demo_rider,
     [\<lparr>ac_id = ''u1'', ac_email = ''rider@example.org'', ac_hash = ''$2a$correct horse'', ac_display = None,
       ac_created = 0\<rparr>])"
  by (simp add: Register_def HashPassword_def demo_text demo_generate_def user_of_def demo_rider_def Let_def)

lemma demo_session:
  "\<exists>api'. handleRegister (demo_env 0) demo_signup demo_api =
     (([], Some (Ok (201, Session demo_token 86400 demo_rider))), api')"
  by (simp add: handleRegister_def demo_api_def demo_signup_def decodeJSON_def demo_env_def demo_register
      issueToken_def Issue_def respond_def demo_token_def demo_sign_def TokenTTL_def demo_rider_def Let_def)

lemma demo_token_plain: "demo_token \<noteq> []" "\<forall>c\<in>set demo_token. \<not> is_space c"
  by (auto simp: demo_token_def demo_sign_def frame_def frame_int_def Issuer_def is_space_def)

definition demo_pothole :: "string + Submission" where
  "demo_pothole = Inr \<lparr>Location = \<lparr>Lat = 30, Lon = - 97\<rparr>, hKind = ''pothole'', hNotes = []\<rparr>"

lemma demo_reported:
  "\<exists>hs r api'. Server_Handler (demo_env 0) (demo_call (PostHazard demo_pothole) []) demo_api =
     ((hs, Some (Ok (201, OneReport r))), api')"
proof -
  let ?v = "demo_env 0" and ?rq = "with_id (demo_env 0) (demo_call (PostHazard demo_pothole) [])"
  have ref: "\<not> refresh_panics ?v api" if "aGraph api = Some demo" "aIndex api = Some i" for api i
    using Refresh_answers [OF demo_ids(1) demo_answers, of 0 "e_near ?v" 0 "dbHazards (aDb api)" i] that
    by (auto simp: refresh_panics_def demo_env_def)
  have ok: "Submission_Validate \<lparr>Location = \<lparr>Lat = 30, Lon = - 97\<rparr>, hKind = ''pothole'', hNotes = []\<rparr> = None"
    by (simp add: Submission_Validate_def Valid_def Kinds_def)
  have "\<exists>r api'. mux ?v ?rq demo_api = (([], Some (Ok (201, OneReport r))), api')"
    using ref ok
    by (simp add: mux_def demo_call_def optionalAuth_uid handleReportHazard_def demo_pothole_def decodeJSON_def
        Hazard_Create_def demo_env_def demo_api_def report_stored_def respond_def Let_def)
  then show ?thesis using served [of ?v "demo_call (PostHazard demo_pothole) []" demo_api]
    by (auto simp: recovered_def demo_call_def)
qed

end
