(* ===== verification/Terrain.thy ===== *)
theory Terrain
  imports Geo Float32 "HOL-Library.Word"
begin

text \<open>
  The package \<open>internal/elevation\<close>, file \<open>terrain.go\<close>: decoding terrain tiles and sampling heights
  from them.

  A pixel's channels are bytes (\<open>8 word\<close>), heights are \<open>float32\<close>: every operation on them is rounded
  with \<open>f32\<close>.  The PNG decoder is the standard library's: what it returns for a file's bytes is a
  parameter, an image whose pixel slice is long enough for its bounds.

  Shown here: decoding is exact (the rounding of each \<open>float32\<close> operation is the identity on every
  pixel there is), and the interpolated height stays within 2 cm of the range of its four samples.
\<close>

section \<open>Tiles\<close>

type_synonym key = "int \<times> int"

definition Zoom :: nat where "Zoom = 13"
definition tileSize :: nat where "tileSize = 256"

text \<open>
  An image: the fast path of \<open>decodeTerrarium\<close> takes an \<open>NRGBA\<close> image with its bytes and stride, the
  generic one reads pixels through \<open>At(x, y).RGBA()\<close>, whose channels have 16 bits.
\<close>

datatype image =
    NRGBA nat nat nat "nat \<Rightarrow> 8 word"
  | Generic nat nat int int "int \<Rightarrow> int \<Rightarrow> 32 word \<times> 32 word \<times> 32 word"

fun bounds_of :: "image \<Rightarrow> nat \<times> nat" where
  "bounds_of (NRGBA dx dy stride pix) = (dx, dy)"
| "bounds_of (Generic dx dy minX minY rgba) = (dx, dy)"

datatype decode_error = BadPNG | BadTileSize nat nat

text \<open>\<open>float32(int(r)*256 + int(g)) + float32(b)/256 - 32768\<close>, operation by operation.\<close>

definition terrarium_height :: "int \<Rightarrow> int \<Rightarrow> int \<Rightarrow> real" where
  "terrarium_height r g b =
     f32 (f32 (f32 (of_int (r * 256 + g)) + f32 (f32 (of_int b) / 256)) - 32768)"

fun pixel_height :: "image \<Rightarrow> nat \<Rightarrow> nat \<Rightarrow> real" where
  "pixel_height (NRGBA dx dy stride pix) x y =
     (let i = y * stride + x * 4
      in terrarium_height (uint (pix i)) (uint (pix (i + 1))) (uint (pix (i + 2))))"
| "pixel_height (Generic dx dy minX minY rgba) x y =
     (let (r, g, b) = rgba (minX + int x) (minY + int y)
      in terrarium_height (uint (drop_bit 8 r)) (uint (drop_bit 8 g)) (uint (drop_bit 8 b)))"

definition decodeTerrarium :: "(string \<Rightarrow> image option) \<Rightarrow> string \<Rightarrow> (decode_error, real list) outcome" where
  "decodeTerrarium png data =
     (case png data of
        None \<Rightarrow> Err BadPNG
      | Some img \<Rightarrow>
          let (dx, dy) = bounds_of img
          in if dx \<noteq> tileSize \<or> dy \<noteq> tileSize then Err (BadTileSize dx dy)
             else Ok (concat (map (\<lambda>y. map (\<lambda>x. pixel_height img x y) [0..<tileSize]) [0..<tileSize])))"

record Tiles =
  tlZoom :: nat
  tlTiles :: "key \<rightharpoonup> real list"
  tlCache :: "key \<rightharpoonup> string"

text \<open>\<open>New\<close>; the files already in the cache directory are a parameter.\<close>

definition Tiles_New :: "(key \<rightharpoonup> string) \<Rightarrow> Tiles" where
  "Tiles_New files = \<lparr>tlZoom = Zoom, tlTiles = Map.empty, tlCache = files\<rparr>"

section \<open>Sampling\<close>

definition tileXY :: "nat \<Rightarrow> real \<Rightarrow> real \<Rightarrow> real \<times> real" where
  "tileXY zoom lat lon =
     (let n = 2 ^ zoom; latRad = lat * pi / 180
      in ((lon + 180) / 360 * n, (1 - arsinh (tan latRad) / pi) / 2 * n))"

text \<open>The tile of a pixel is found by Go's division, which agrees with \<open>div\<close> on what passes the guard.\<close>

definition pixel :: "Tiles \<Rightarrow> int \<Rightarrow> int \<Rightarrow> (unit, real option) outcome" where
  "pixel t gx gy =
     (if gx < 0 \<or> gy < 0 then Ok None
      else case tlTiles t (gx div int tileSize, gy div int tileSize) of
        None \<Rightarrow> Ok None
      | Some tile \<Rightarrow>
          let i = nat (gy mod int tileSize) * tileSize + nat (gx mod int tileSize)
          in if i < length tile then Ok (Some (tile ! i)) else Panic)"

definition lerp32 :: "real \<Rightarrow> real \<Rightarrow> real \<Rightarrow> real" where
  "lerp32 a b d = f32 (f32 (a * f32 (1 - f32 d)) + f32 (b * f32 d))"

definition At :: "Tiles \<Rightarrow> real \<Rightarrow> real \<Rightarrow> (unit, real option) outcome" where
  "At t lat lon =
     (let (fx, fy) = tileXY (tlZoom t) lat lon;
          px = fx * real tileSize - 1 / 2; py = fy * real tileSize - 1 / 2;
          x0 = to_int64 (of_int \<lfloor>px\<rfloor>); y0 = to_int64 (of_int \<lfloor>py\<rfloor>);
          dx = px - of_int \<lfloor>px\<rfloor>; dy = py - of_int \<lfloor>py\<rfloor>
      in obind (pixel t x0 y0) (\<lambda>v00. obind (pixel t (x0 + 1) y0) (\<lambda>v10.
         obind (pixel t x0 (y0 + 1)) (\<lambda>v01. obind (pixel t (x0 + 1) (y0 + 1)) (\<lambda>v11.
           case (v00, v10, v01, v11) of
             (Some a, Some b, Some c, Some d) \<Rightarrow> Ok (Some (lerp32 (lerp32 a b dx) (lerp32 c d dx) dy))
           | _ \<Rightarrow> Ok v00)))))"

section \<open>Decoding is exact\<close>

lemma f32_256ths: "\<bar>m\<bar> \<le> 2 ^ 24 \<Longrightarrow> f32 (of_int m / 256) = of_int m / 256"
  by (rule f32_exact [of _ m "- 8"]) (simp_all add: powr_minus_divide)

definition exact_height :: "int \<Rightarrow> int \<Rightarrow> int \<Rightarrow> real" where
  "exact_height r g b = of_int (r * 256 + g) + of_int b / 256 - 32768"

lemma exact_height_256ths: "exact_height r g b = of_int (65536 * r + 256 * g + b - 8388608) / 256"
  by (simp add: exact_height_def field_simps)

lemma terrarium_exact:
  assumes "0 \<le> r" "r < 256" "0 \<le> g" "g < 256" "0 \<le> b" "b < 256"
  shows "terrarium_height r g b = exact_height r g b"
proof -
  have "\<bar>r * 256 + g\<bar> \<le> 2 ^ 24" "\<bar>b\<bar> \<le> 2 ^ 24" using assms by simp_all
  note a = f32_of_int [OF this(1)] f32_of_int [OF this(2)] f32_256ths [OF this(2)]
  have s: "of_int (r * 256 + g) + of_int b / 256 = (of_int (65536 * r + 256 * g + b) / 256 :: real)"
    by (simp add: field_simps)
  have t: "f32 (of_int (65536 * r + 256 * g + b) / 256) = of_int (65536 * r + 256 * g + b) / 256"
    using assms by (intro f32_256ths) simp
  have d: "of_int (65536 * r + 256 * g + b) / 256 - 32768 = (of_int (65536 * r + 256 * g + b - 8388608) / 256 :: real)"
    by (simp add: field_simps)
  have "f32 (of_int (65536 * r + 256 * g + b - 8388608) / 256) = of_int (65536 * r + 256 * g + b - 8388608) / 256"
    using assms by (intro f32_256ths) simp
  then show ?thesis by (simp only: terrarium_height_def a s t d exact_height_256ths)
qed

definition height_ok :: "real \<Rightarrow> bool" where
  "height_ok h \<longleftrightarrow> - 32768 \<le> h \<and> h < 32768 \<and> f32 h = h"

lemma height_ok_abs: "height_ok h \<Longrightarrow> \<bar>h\<bar> \<le> 32768"
  by (simp add: height_ok_def abs_le_iff)

lemma exact_height_ok:
  assumes "0 \<le> r" "r < 256" "0 \<le> g" "g < 256" "0 \<le> b" "b < 256"
  shows "height_ok (exact_height r g b)"
proof -
  let ?m = "65536 * r + 256 * g + b - 8388608"
  have m: "- 8388608 \<le> ?m" "?m < 8388608" using assms by simp_all
  then have "f32 (of_int ?m / 256) = of_int ?m / 256" by (intro f32_256ths) simp
  moreover have "(- 8388608 :: real) \<le> of_int ?m" "(of_int ?m :: real) < 8388608"
    using m by linarith+
  ultimately show ?thesis by (simp add: height_ok_def exact_height_256ths)
qed

text \<open>The channels of a pixel, a byte each; of the generic image the upper halves.\<close>

fun channels :: "image \<Rightarrow> nat \<Rightarrow> nat \<Rightarrow> int \<times> int \<times> int" where
  "channels (NRGBA dx dy stride pix) x y =
     (let i = y * stride + x * 4 in (uint (pix i), uint (pix (i + 1)), uint (pix (i + 2))))"
| "channels (Generic dx dy minX minY rgba) x y =
     (let (r, g, b) = rgba (minX + int x) (minY + int y) in (uint r div 256, uint g div 256, uint b div 256))"

text \<open>What \<open>RGBA()\<close> documents: its values fit in 16 bits.\<close>

definition image_ok :: "image \<Rightarrow> bool" where
  "image_ok img \<longleftrightarrow> (case img of NRGBA dx dy stride pix \<Rightarrow> True
     | Generic dx dy minX minY rgba \<Rightarrow> \<forall>x y. let (r, g, b) = rgba x y in r < 65536 \<and> g < 65536 \<and> b < 65536)"

lemma uint_drop_8: "uint (drop_bit 8 w :: 'a :: len word) = uint w div 256"
  by (simp only: unsigned_drop_bit_eq) (simp add: drop_bit_eq_div take_bit_eq_mod)

lemma channels_range:
  assumes "image_ok img" and "channels img x y = (r, g, b)"
  shows "0 \<le> r \<and> r < 256 \<and> 0 \<le> g \<and> g < 256 \<and> 0 \<le> b \<and> b < 256"
proof (cases img)
  case (NRGBA dx dy stride pix)
  have "uint w < 256" for w :: "8 word" using uint_lt2p [of w] by simp
  then show ?thesis using NRGBA assms(2) by (auto simp: Let_def)
next
  case (Generic dx dy minX minY rgba)
  have w: "w < 65536 \<Longrightarrow> 0 \<le> uint w div 256 \<and> uint w div 256 < 256" for w :: "32 word"
    by (simp add: word_less_def div_less_iff_less_mult pos_imp_zdiv_nonneg_iff)
  obtain r' g' b' where p: "rgba (minX + int x) (minY + int y) = (r', g', b')" by (metis surj_pair)
  then have "r' < 65536 \<and> g' < 65536 \<and> b' < 65536"
    using assms(1) Generic by (simp add: image_ok_def) (metis (no_types, lifting) case_prod_conv)
  then show ?thesis using Generic assms(2) p w [of r'] w [of g'] w [of b'] by auto
qed

lemma pixel_height_exact:
  assumes "image_ok img" and "channels img x y = (r, g, b)"
  shows "pixel_height img x y = exact_height r g b"
proof -
  have "pixel_height img x y = terrarium_height r g b"
    using assms(2) by (cases img) (auto simp: Let_def uint_drop_8 split: prod.splits)
  then show ?thesis using channels_range [OF assms] by (simp add: terrarium_exact)
qed

lemma decode_length: "decodeTerrarium png data = Ok hs \<Longrightarrow> length hs = tileSize * tileSize"
  by (auto simp: decodeTerrarium_def length_concat o_def sum_list_triv Let_def split: option.splits prod.splits if_splits)

lemma nth_grid:
  assumes "x < m" and "y < n"
  shows "concat (map (\<lambda>y. map (f y) [0..<m]) [0..<n]) ! (y * m + x) = f y x"
  using assms(2)
proof (induction n)
  case (Suc n)
  have len: "length (concat (map (\<lambda>y. map (f y) [0..<m]) [0..<n])) = n * m" for n
    by (simp add: length_concat o_def sum_list_triv)
  show ?case
  proof (cases "y < n")
    case True
    then have "y * m + x < n * m" using assms(1) by (metis add_less_cancel_left less_le_trans mult_Suc mult_le_mono1 Suc_leI add.commute)
    then show ?thesis using Suc True by (simp add: nth_append len)
  next
    case False
    then have "y = n" using Suc by simp
    then show ?thesis using assms(1) by (simp add: nth_append len)
  qed
qed simp

lemma decode_nth:
  assumes "decodeTerrarium png data = Ok hs" and "png data = Some img" and "x < 256" "y < 256"
  shows "hs ! (y * 256 + x) = pixel_height img x y"
  using assms nth_grid [of x 256 y 256 "\<lambda>y x. pixel_height img x y"]
  by (auto simp: decodeTerrarium_def tileSize_def Let_def split: prod.splits if_splits)

definition tile_ok :: "real list \<Rightarrow> bool" where
  "tile_ok hs \<longleftrightarrow> length hs = tileSize * tileSize \<and> (\<forall>h\<in>set hs. height_ok h)"

lemma decode_ok:
  assumes "decodeTerrarium png data = Ok hs" and "\<And>d img. png d = Some img \<Longrightarrow> image_ok img"
  shows "tile_ok hs"
proof -
  obtain img where img: "png data = Some img" using assms(1) by (auto simp: decodeTerrarium_def split: option.splits)
  have "height_ok (pixel_height img x y)" for x y
    using pixel_height_exact [OF assms(2) [OF img]] channels_range [OF assms(2) [OF img]] exact_height_ok
    by (metis prod_cases3)
  moreover have "hs = concat (map (\<lambda>y. map (\<lambda>x. pixel_height img x y) [0..<tileSize]) [0..<tileSize])"
    using assms(1) img by (auto simp: decodeTerrarium_def Let_def split: prod.splits if_splits)
  ultimately show ?thesis using decode_length [OF assms(1)] by (auto simp: tile_ok_def)
qed

section \<open>Interpolation stays near its samples\<close>

definition tiles_ok :: "Tiles \<Rightarrow> bool" where
  "tiles_ok t \<longleftrightarrow> (\<forall>k hs. tlTiles t k = Some hs \<longrightarrow> tile_ok hs)"

lemma pixel_ok:
  assumes "tiles_ok t"
  shows "\<exists>v. pixel t gx gy = Ok v \<and> (\<forall>h. v = Some h \<longrightarrow> height_ok h)"
proof (cases "gx < 0 \<or> gy < 0 \<or> tlTiles t (gx div 256, gy div 256) = None")
  case True
  then show ?thesis by (auto simp: pixel_def tileSize_def)
next
  case False
  then obtain tile where t: "tlTiles t (gx div 256, gy div 256) = Some tile" by auto
  then have tile: "length tile = 65536" "\<forall>h\<in>set tile. height_ok h"
    using assms by (auto simp: tiles_ok_def tile_ok_def tileSize_def)
  have "nat (gy mod 256) \<le> 255" "nat (gx mod 256) \<le> 255" by simp_all
  then have "nat (gy mod 256) * 256 + nat (gx mod 256) < 65536" by linarith
  then show ?thesis using False t tile by (auto simp: pixel_def tileSize_def Let_def)
qed

lemma f32_near: "\<bar>x\<bar> \<le> D \<Longrightarrow> 1 \<le> D \<Longrightarrow> \<bar>f32 x - x\<bar> \<le> D / 2 ^ 24"
proof -
  have "(2::real) powr (- 126) \<le> 1" using powr_mono [of "- 126" 0 "2 :: real"] by simp
  then show "\<bar>x\<bar> \<le> D \<Longrightarrow> 1 \<le> D \<Longrightarrow> ?thesis" by (intro f32_error_at_scale) simp_all
qed

lemma convex_between:
  fixes a b w :: real
  assumes "0 \<le> w" "w \<le> 1"
  shows "min a b \<le> a * (1 - w) + b * w \<and> a * (1 - w) + b * w \<le> max a b"
proof -
  have "min a b * (1 - w) \<le> a * (1 - w)" "min a b * w \<le> b * w"
    "a * (1 - w) \<le> max a b * (1 - w)" "b * w \<le> max a b * w"
    using assms by (auto intro!: mult_right_mono)
  moreover have "min a b * (1 - w) + min a b * w = min a b" "max a b * (1 - w) + max a b * w = max a b"
    by (simp_all add: algebra_simps)
  ultimately show ?thesis by linarith
qed

lemma lerp32_near:
  assumes ab: "\<bar>a\<bar> \<le> D" "\<bar>b\<bar> \<le> D" "1 \<le> D" and d: "0 \<le> d" "d \<le> 1"
  shows "min a b - 5 * D / 2 ^ 24 \<le> lerp32 a b d \<and> lerp32 a b d \<le> max a b + 5 * D / 2 ^ 24"
proof -
  define e where "e = (1 :: real) / 2 ^ 24"
  define w v where "w = f32 d" and "v = f32 (1 - w)"
  have e: "0 < e" "e \<le> 1 / 100" by (simp_all add: e_def)
  have w: "0 \<le> w" "w \<le> 1" using d f32_mono [of d 1] by (simp_all add: w_def)
  then have v: "0 \<le> v" "v \<le> 1" "\<bar>v - (1 - w)\<bar> \<le> e"
    using f32_mono [of "1 - w" 1] f32_near [of "1 - w" 1] by (simp_all add: v_def e_def)
  define p q where "p = f32 (a * v)" and "q = f32 (b * w)"
  have prod: "\<bar>x * y\<bar> \<le> D" if "\<bar>x\<bar> \<le> D" "0 \<le> y" "y \<le> 1" for x y :: real
    using that mult_mono [of "\<bar>x\<bar>" D "\<bar>y\<bar>" 1] by (simp add: abs_mult)
  have p: "\<bar>p - a * v\<bar> \<le> D * e" and q: "\<bar>q - b * w\<bar> \<le> D * e"
    using f32_near [OF prod [OF ab(1) v(1,2)] ab(3)] f32_near [OF prod [OF ab(2) w] ab(3)]
    by (simp_all add: p_def q_def e_def)
  have av: "\<bar>a * v - a * (1 - w)\<bar> \<le> D * e"
  proof -
    have "\<bar>a * v - a * (1 - w)\<bar> = \<bar>a\<bar> * \<bar>v - (1 - w)\<bar>" by (simp add: abs_mult [symmetric] algebra_simps)
    also have "\<dots> \<le> D * e" using ab v(3) by (intro mult_mono) auto
    finally show ?thesis .
  qed
  define m where "m = a * (1 - w) + b * w"
  have m: "min a b \<le> m" "m \<le> max a b" using convex_between [OF w] by (auto simp: m_def)
  have sum: "\<bar>p + q - m\<bar> \<le> 3 * (D * e)" using p q av by (simp add: m_def)
  have "\<bar>m\<bar> \<le> D" using m ab(1,2) by linarith
  moreover have De: "3 * (D * e) \<le> D" using ab(3) e by simp
  ultimately have "\<bar>p + q\<bar> \<le> 2 * D" using sum by linarith
  then have "\<bar>f32 (p + q) - (p + q)\<bar> \<le> 2 * D * e" using f32_near [of "p + q" "2 * D"] ab(3) by (simp add: e_def)
  then have "\<bar>f32 (p + q) - m\<bar> \<le> 5 * (D * e)" using sum by linarith
  moreover have "lerp32 a b d = f32 (p + q)" by (simp add: lerp32_def p_def q_def v_def w_def)
  moreover have "5 * (D * e) \<le> 5 * D / 2 ^ 24" using ab(3) by (simp add: e_def)
  ultimately show ?thesis using m by linarith
qed

text \<open>On a sample's own place the interpolation returns it.\<close>

lemma lerp32_start: "f32 a = a \<Longrightarrow> lerp32 a b 0 = a"
  by (simp add: lerp32_def)

lemma At_near:
  assumes t: "tiles_ok t" and f: "tileXY (tlZoom t) lat lon = (fx, fy)"
    and x: "x = \<lfloor>fx * 256 - 1 / 2\<rfloor>" "- (2 ^ 63) \<le> x" "x < 2 ^ 63 - 1"
    and y: "y = \<lfloor>fy * 256 - 1 / 2\<rfloor>" "- (2 ^ 63) \<le> y" "y < 2 ^ 63 - 1"
  shows "\<exists>r. At t lat lon = Ok r \<and> (case r of None \<Rightarrow> pixel t x y = Ok None
    | Some h \<Rightarrow> pixel t x y = Ok (Some h) \<or> (\<exists>a b c d. pixel t x y = Ok (Some a) \<and>
        pixel t (x + 1) y = Ok (Some b) \<and> pixel t x (y + 1) = Ok (Some c) \<and> pixel t (x + 1) (y + 1) = Ok (Some d) \<and>
        min (min a b) (min c d) - 1 / 50 \<le> h \<and> h \<le> max (max a b) (max c d) + 1 / 50))"
proof -
  obtain v00 v10 v01 v11 where v: "pixel t x y = Ok v00" "pixel t (x + 1) y = Ok v10" "pixel t x (y + 1) = Ok v01"
    "pixel t (x + 1) (y + 1) = Ok v11"
    and ok: "\<And>h. Some h \<in> {v00, v10, v01, v11} \<Longrightarrow> height_ok h"
    using pixel_ok [OF t, of x y] pixel_ok [OF t, of "x + 1" y] pixel_ok [OF t, of x "y + 1"]
      pixel_ok [OF t, of "x + 1" "y + 1"] by blast
  define dx dy where "dx = fx * 256 - 1 / 2 - of_int x" and "dy = fy * 256 - 1 / 2 - of_int y"
  have d: "0 \<le> dx" "dx \<le> 1" "0 \<le> dy" "dy \<le> 1" unfolding dx_def dy_def x(1) y(1) by linarith+
  have at: "At t lat lon = (case (v00, v10, v01, v11) of
      (Some a, Some b, Some c, Some d) \<Rightarrow> Ok (Some (lerp32 (lerp32 a b dx) (lerp32 c d dx) dy)) | _ \<Rightarrow> Ok v00)"
  proof -
    have "At t lat lon = (let x0 = to_int64 (of_int x); y0 = to_int64 (of_int y)
      in obind (pixel t x0 y0) (\<lambda>v00. obind (pixel t (x0 + 1) y0) (\<lambda>v10.
         obind (pixel t x0 (y0 + 1)) (\<lambda>v01. obind (pixel t (x0 + 1) (y0 + 1)) (\<lambda>v11.
           case (v00, v10, v01, v11) of
             (Some a, Some b, Some c, Some d) \<Rightarrow> Ok (Some (lerp32 (lerp32 a b dx) (lerp32 c d dx) dy))
           | _ \<Rightarrow> Ok v00)))))"
      unfolding At_def f prod.case Let_def dx_def dy_def x(1) y(1) tileSize_def of_nat_numeral ..
    then show ?thesis using v to_int64_of_int [OF x(2)] to_int64_of_int [OF y(2)] x(3) y(3)
      by (simp only: Let_def obind.simps)
  qed
  show ?thesis
  proof (cases "\<exists>a b c d. v00 = Some a \<and> v10 = Some b \<and> v01 = Some c \<and> v11 = Some d")
    case True
    then obtain a b c d' where s: "v00 = Some a" "v10 = Some b" "v01 = Some c" "v11 = Some d'" by blast
    note h = height_ok_abs [OF ok [of a]] height_ok_abs [OF ok [of b]] height_ok_abs [OF ok [of c]]
      height_ok_abs [OF ok [of d']]
    have h: "\<bar>a\<bar> \<le> 32768" "\<bar>b\<bar> \<le> 32768" "\<bar>c\<bar> \<le> 32768" "\<bar>d'\<bar> \<le> 32768"
      by (rule h; simp add: s)+
    let ?t = "lerp32 a b dx" and ?u = "lerp32 c d' dx"
    note t = lerp32_near [OF h(1,2) _ d(1,2)] and u = lerp32_near [OF h(3,4) _ d(1,2)]
    have "(5 * 32768 / 2 ^ 24 :: real) \<le> 1 / 100" by simp
    then have tu: "min a b - 1 / 100 \<le> ?t" "?t \<le> max a b + 1 / 100" "min c d' - 1 / 100 \<le> ?u" "?u \<le> max c d' + 1 / 100"
      using t u by linarith+
    then have "\<bar>?t\<bar> \<le> 32769" "\<bar>?u\<bar> \<le> 32769" using h by (linarith+)
    from lerp32_near [OF this _ d(3,4)]
    have "min ?t ?u - 5 * 32769 / 2 ^ 24 \<le> lerp32 ?t ?u dy" "lerp32 ?t ?u dy \<le> max ?t ?u + 5 * 32769 / 2 ^ 24" by simp_all
    moreover have "(5 * 32769 / 2 ^ 24 :: real) \<le> 1 / 100" by simp
    ultimately have "min (min a b) (min c d') - 1 / 50 \<le> lerp32 ?t ?u dy"
      "lerp32 ?t ?u dy \<le> max (max a b) (max c d') + 1 / 50"
      using tu by linarith+
    then show ?thesis using at v unfolding s by simp
  next
    case False
    then have "At t lat lon = Ok v00" using at by (cases v00; cases v10; cases v01; cases v11) simp_all
    then show ?thesis using v(1) by (cases v00) simp_all
  qed
qed

end
