(* ===== verification/Terrain_Cover.thy ===== *)
theory Terrain_Cover
  imports Terrain
begin

text \<open>
  The package \<open>internal/elevation\<close>, file \<open>terrain.go\<close>: downloading tiles (\<open>fetchTile\<close>) and the
  workers that do it side by side (\<open>Cover\<close>).

  A run of \<open>Cover\<close> is a sequence of steps of its goroutines on a shared state: the producer hands
  keys over an unbuffered channel, a worker that has one fetches its tile, and goes back to the
  channel or, on an error, returns.  What the network, the file system and the PNG decoder answer is
  a parameter (\<open>source\<close>); a fetch touches the file and the tile of its own key only, so it is one step.

  Shown here: every run ends; it ends in a return unless eight fetches fail while keys are left, in
  which case the producer waits for ever; and what a return says of the tiles is true.
\<close>

section \<open>One tile\<close>

datatype tile_error = BuildingRequest | Fetching key | TileReturned key nat | ReadingTile key | CachingTile key
  | DecodingTile key | CacheDir | Cancelled

record source =
  src_request :: "key \<Rightarrow> bool"
  src_get :: "key \<Rightarrow> (nat \<times> string option) option"
  src_write :: "key \<Rightarrow> bool"
  src_png :: "string \<Rightarrow> image option"
  src_mkdir :: bool
  src_cancel :: bool

definition store_tile :: "source \<Rightarrow> key \<Rightarrow> string \<Rightarrow> Tiles \<Rightarrow> tile_error option \<times> Tiles" where
  "store_tile w k data t =
     (case decodeTerrarium (src_png w) data of
        Ok heights \<Rightarrow> (None, t\<lparr>tlTiles := (tlTiles t)(k \<mapsto> heights)\<rparr>)
      | _ \<Rightarrow> (Some (DecodingTile k), t))"

definition fetchTile :: "source \<Rightarrow> key \<Rightarrow> Tiles \<Rightarrow> tile_error option \<times> Tiles" where
  "fetchTile w k t =
     (case tlCache t k of
        Some data \<Rightarrow> store_tile w k data t
      | None \<Rightarrow>
          if \<not> src_request w k then (Some BuildingRequest, t)
          else case src_get w k of
            None \<Rightarrow> (Some (Fetching k), t)
          | Some (status, body) \<Rightarrow>
              if status = 404 then (None, t)
              else if status \<noteq> 200 then (Some (TileReturned k status), t)
              else case body of
                None \<Rightarrow> (Some (ReadingTile k), t)
              | Some data \<Rightarrow>
                  if \<not> src_write w k then (Some (CachingTile k), t)
                  else store_tile w k data (t\<lparr>tlCache := (tlCache t)(k \<mapsto> data)\<rparr>))"

section \<open>The keys of a box\<close>

definition floor_int :: "real \<Rightarrow> int" where
  "floor_int x = to_int64 (of_int \<lfloor>x\<rfloor>)"

definition tile_keys :: "nat \<Rightarrow> real \<Rightarrow> real \<Rightarrow> real \<Rightarrow> real \<Rightarrow> key list" where
  "tile_keys zoom minLat minLon maxLat maxLon =
     (let (x0f, y0f) = tileXY zoom maxLat minLon; (x1f, y1f) = tileXY zoom minLat maxLon
      in concat (map (\<lambda>x. map (\<lambda>y. (x, y)) [floor_int y0f .. floor_int y1f]) [floor_int x0f .. floor_int x1f]))"

section \<open>The workers\<close>

definition workers :: nat where "workers = 8"

text \<open>
  Keys not handed over yet, the workers waiting at the channel, the keys being fetched, the buffered
  errors in the order they were sent, whether the channel is closed, whether the context was done
  before all keys were handed over, the shared tiles, and the result once \<open>Cover\<close> returned.
\<close>

record crew =
  pending :: "key list"
  idle :: nat
  busy :: "key multiset"
  errs :: "tile_error list"
  closed :: bool
  ctx_done :: bool
  shared :: Tiles
  returned :: "tile_error option option"

definition cover_start :: "key list \<Rightarrow> Tiles \<Rightarrow> crew" where
  "cover_start keys t = \<lparr>pending = keys, idle = workers, busy = {#}, errs = [], closed = False,
     ctx_done = False, shared = t, returned = None\<rparr>"

definition cover_result :: "crew \<Rightarrow> tile_error option" where
  "cover_result c = (if ctx_done c then Some Cancelled else case errs c of [] \<Rightarrow> None | e # es \<Rightarrow> Some e)"

inductive crew_step :: "source \<Rightarrow> crew \<Rightarrow> crew \<Rightarrow> bool" for w where
  hand_over: "pending c = k # ks \<Longrightarrow> \<not> closed c \<Longrightarrow> idle c = Suc n \<Longrightarrow>
     crew_step w c (c\<lparr>pending := ks, idle := n, busy := add_mset k (busy c)\<rparr>)"
| fetch_ok: "k \<in># busy c \<Longrightarrow> fetchTile w k (shared c) = (None, t) \<Longrightarrow>
     crew_step w c (c\<lparr>busy := busy c - {#k#}, idle := Suc (idle c), shared := t\<rparr>)"
| fetch_failed: "k \<in># busy c \<Longrightarrow> fetchTile w k (shared c) = (Some e, t) \<Longrightarrow>
     crew_step w c (c\<lparr>busy := busy c - {#k#}, errs := errs c @ [e], shared := t\<rparr>)"
| close_jobs: "pending c = [] \<Longrightarrow> \<not> closed c \<Longrightarrow> crew_step w c (c\<lparr>closed := True\<rparr>)"
| give_up: "pending c \<noteq> [] \<Longrightarrow> \<not> closed c \<Longrightarrow> src_cancel w \<Longrightarrow>
     crew_step w c (c\<lparr>closed := True, ctx_done := True\<rparr>)"
| go_home: "closed c \<Longrightarrow> idle c = Suc n \<Longrightarrow> crew_step w c (c\<lparr>idle := n\<rparr>)"
| return: "closed c \<Longrightarrow> idle c = 0 \<Longrightarrow> busy c = {#} \<Longrightarrow> returned c = None \<Longrightarrow>
     crew_step w c (c\<lparr>returned := Some (cover_result c)\<rparr>)"

text \<open>\<open>Cover\<close> up to the start of its workers: \<open>Inl\<close> is its early return.\<close>

definition Cover :: "source \<Rightarrow> real \<Rightarrow> real \<Rightarrow> real \<Rightarrow> real \<Rightarrow> Tiles \<Rightarrow> tile_error + crew" where
  "Cover w minLat minLon maxLat maxLon t =
     (if \<not> src_mkdir w then Inl CacheDir
      else Inr (cover_start (tile_keys (tlZoom t) minLat minLon maxLat maxLon) t))"

section \<open>Runs end\<close>

text \<open>A step relation each of whose steps lowers a number.\<close>

locale ending =
  fixes step :: "'s \<Rightarrow> 's \<Rightarrow> bool" and left :: "'s \<Rightarrow> nat"
  assumes lowers: "step s s' \<Longrightarrow> left s' < left s"
begin

definition final :: "'s \<Rightarrow> bool" where
  "final s \<longleftrightarrow> (\<forall>s'. \<not> step s s')"

lemma no_endless_run: "\<not> (\<forall>i. step (run i) (run (Suc i)))"
proof
  assume r: "\<forall>i. step (run i) (run (Suc i))"
  have "left (run i) + i \<le> left (run 0)" for i
  proof (induction i)
    case (Suc i)
    then show ?case using lowers r by (metis Suc_leI add_Suc_right add_Suc add_le_mono1 order_trans)
  qed simp
  from this [of "Suc (left (run 0))"] show False by simp
qed

lemma reaches_final: "\<exists>s'. step\<^sup>*\<^sup>* s s' \<and> final s'"
proof (induction "left s" arbitrary: s rule: less_induct)
  case less
  show ?case
  proof (cases "final s")
    case False
    then obtain s1 where "step s s1" by (auto simp: final_def)
    then show ?thesis using less [of s1] lowers converse_rtranclp_into_rtranclp by metis
  qed blast
qed

end

definition work_left :: "crew \<Rightarrow> nat" where
  "work_left c = 3 * length (pending c) + 2 * size (busy c) + idle c + (if closed c then 0 else 1) +
     (if returned c = None then 1 else 0)"

interpretation crew: ending "crew_step w" work_left for w
proof
  fix c c' assume "crew_step w c c'"
  then show "work_left c' < work_left c"
  proof cases
    case (fetch_ok k t)
    then have "size (busy c) = Suc (size (busy c - {#k#}))" by (metis insert_DiffM size_add_mset)
    then show ?thesis using fetch_ok by (simp add: work_left_def)
  next
    case (fetch_failed k e t)
    then have "size (busy c) = Suc (size (busy c - {#k#}))" by (metis insert_DiffM size_add_mset)
    then show ?thesis using fetch_failed by (simp add: work_left_def)
  qed (simp_all add: work_left_def)
qed

section \<open>What a state stands for\<close>

text \<open>A fetch concerns its own key: what it answers and leaves there depends on nothing else.\<close>

definition same_at :: "key \<Rightarrow> Tiles \<Rightarrow> Tiles \<Rightarrow> bool" where
  "same_at k t t' \<longleftrightarrow> tlTiles t k = tlTiles t' k \<and> tlCache t k = tlCache t' k"

lemma fetchTile_elsewhere: "fetchTile w k t = (e, t') \<Longrightarrow> j \<noteq> k \<Longrightarrow> same_at j t' t"
  by (auto simp: fetchTile_def store_tile_def same_at_def split: option.splits outcome.splits prod.splits if_splits)

lemma fetchTile_here:
  assumes "fetchTile w k t = (e, t')" and "same_at k t t0"
  shows "fst (fetchTile w k t0) = e \<and> tlTiles (snd (fetchTile w k t0)) k = tlTiles t' k"
proof -
  have "store_tile w k data s = (x, s') \<Longrightarrow> tlTiles s k = tlTiles s0 k \<Longrightarrow>
      fst (store_tile w k data s0) = x \<and> tlTiles (snd (store_tile w k data s0)) k = tlTiles s' k" for data s s0 x s'
    by (auto simp: store_tile_def split: outcome.splits)
  then show ?thesis using assms
    by (auto simp: fetchTile_def same_at_def split: option.splits prod.splits if_splits)
qed

definition tile_errors :: "source \<Rightarrow> Tiles \<Rightarrow> key list \<Rightarrow> tile_error list" where
  "tile_errors w t ks = List.map_filter (\<lambda>k. fst (fetchTile w k t)) ks"

definition fetched_so_far :: "source \<Rightarrow> key list \<Rightarrow> Tiles \<Rightarrow> crew \<Rightarrow> key list \<Rightarrow> bool" where
  "fetched_so_far w keys t c ks \<longleftrightarrow> mset keys = mset (pending c) + busy c + mset ks \<and>
     mset (errs c) = mset (tile_errors w t ks) \<and>
     (\<forall>k\<in>set ks. tlTiles (shared c) k = tlTiles (snd (fetchTile w k t)) k) \<and>
     (\<forall>k. k \<notin> set ks \<longrightarrow> same_at k (shared c) t)"

definition crew_ok :: "source \<Rightarrow> crew \<Rightarrow> bool" where
  "crew_ok w c \<longleftrightarrow> idle c + size (busy c) + length (errs c) \<le> workers \<and>
     (\<not> closed c \<longrightarrow> idle c + size (busy c) + length (errs c) = workers \<and> \<not> ctx_done c \<and> returned c = None) \<and>
     (closed c \<longrightarrow> \<not> ctx_done c \<longrightarrow> pending c = []) \<and> (ctx_done c \<longrightarrow> src_cancel w) \<and>
     (returned c \<noteq> None \<longrightarrow> closed c \<and> busy c = {#} \<and> idle c = 0 \<and> returned c = Some (cover_result c))"

lemma crew_ok_start: "crew_ok w (cover_start keys t)"
  by (simp add: crew_ok_def cover_start_def)

lemma crew_ok_step: "crew_step w c c' \<Longrightarrow> crew_ok w c \<Longrightarrow> crew_ok w c'"
proof (induction rule: crew_step.induct)
  case (fetch_ok k c t)
  then have "size (busy c) = Suc (size (busy c - {#k#}))" by (metis insert_DiffM size_add_mset)
  moreover have "returned c = None" using fetch_ok by (auto simp: crew_ok_def)
  ultimately show ?case using fetch_ok by (auto simp: crew_ok_def)
next
  case (fetch_failed k c e t)
  then have "size (busy c) = Suc (size (busy c - {#k#}))" by (metis insert_DiffM size_add_mset)
  moreover have "returned c = None" using fetch_failed by (auto simp: crew_ok_def)
  ultimately show ?case using fetch_failed by (auto simp: crew_ok_def)
qed (auto simp: crew_ok_def cover_result_def)

lemma crew_ok_run: "(crew_step w)\<^sup>*\<^sup>* (cover_start keys t) c \<Longrightarrow> crew_ok w c"
  by (induction rule: rtranclp_induct) (auto intro: crew_ok_start crew_ok_step)

lemma distinct_count_le: "distinct xs \<Longrightarrow> count (mset xs) x \<le> 1"
  by (cases "x \<in> set xs") (simp_all add: distinct_count_atmost_1 not_in_iff [symmetric])

lemma fetched_step:
  assumes "distinct keys" and f: "fetched_so_far w keys t c ks" and k: "k \<in># busy c"
    and e: "fetchTile w k (shared c) = (e, t')" and c': "pending c' = pending c" "busy c' = busy c - {#k#}"
      "shared c' = t'" "errs c' = errs c @ (case e of None \<Rightarrow> [] | Some x \<Rightarrow> [x])"
  shows "fetched_so_far w keys t c' (k # ks)"
proof -
  have m: "mset keys = mset (pending c) + busy c + mset ks" using f by (simp add: fetched_so_far_def)
  have "count (mset keys) k \<le> 1" by (rule distinct_count_le [OF assms(1)])
  moreover have "0 < count (busy c) k" using k by simp
  ultimately have "count (mset ks) k = 0" unfolding m count_union by linarith
  then have new: "k \<notin> set ks" by simp
  then have "same_at k (shared c) t" using f unfolding fetched_so_far_def by blast
  note here = fetchTile_here [OF e this]
  have "tile_errors w t (k # ks) = (case e of None \<Rightarrow> [] | Some x \<Rightarrow> [x]) @ tile_errors w t ks"
    using here by (auto simp: tile_errors_def map_filter_simps split: option.split)
  moreover have "mset keys = mset (pending c) + (busy c - {#k#}) + mset (k # ks)" using m k by simp
  moreover have "same_at j t' t" if "j \<notin> set (k # ks)" for j
  proof -
    have "same_at j (shared c) t" using that f unfolding fetched_so_far_def by (meson list.set_intros(2))
    then show ?thesis using that fetchTile_elsewhere [OF e, of j] by (simp add: same_at_def)
  qed
  moreover have "tlTiles t' j = tlTiles (snd (fetchTile w j t)) j" if "j \<in> set (k # ks)" for j
  proof (cases "j = k")
    case False
    then have "tlTiles (shared c) j = tlTiles (snd (fetchTile w j t)) j"
      using that f unfolding fetched_so_far_def by simp
    then show ?thesis using False fetchTile_elsewhere [OF e, of j] by (simp add: same_at_def)
  qed (use here in simp)
  moreover have "mset (errs c) = mset (tile_errors w t ks)" using f unfolding fetched_so_far_def by blast
  ultimately show ?thesis unfolding fetched_so_far_def c' by (cases e) auto
qed

lemma fetched_run:
  assumes "(crew_step w)\<^sup>*\<^sup>* (cover_start keys t) c" and "distinct keys"
  shows "\<exists>ks. fetched_so_far w keys t c ks"
  using assms(1)
proof (induction rule: rtranclp_induct)
  case base
  then show ?case by (intro exI [of _ "[]"])
      (simp add: fetched_so_far_def cover_start_def tile_errors_def map_filter_simps same_at_def)
next
  case (step c c')
  then obtain ks where f: "fetched_so_far w keys t c ks" by blast
  from step(2) show ?case
  proof cases
    case (fetch_ok k t')
    then have "fetched_so_far w keys t c' (k # ks)" by (intro fetched_step [OF assms(2) f]) auto
    then show ?thesis by blast
  next
    case (fetch_failed k e t')
    then have "fetched_so_far w keys t c' (k # ks)" by (intro fetched_step [OF assms(2) f]) auto
    then show ?thesis by blast
  qed (use f in \<open>auto simp: fetched_so_far_def\<close>)
qed

section \<open>Where a run can end\<close>

definition stuck :: "crew \<Rightarrow> bool" where
  "stuck c \<longleftrightarrow> \<not> closed c \<and> pending c \<noteq> [] \<and> idle c = 0 \<and> busy c = {#} \<and> length (errs c) = workers \<and> returned c = None"

lemma final_cases:
  assumes ok: "crew_ok w c" and final: "\<forall>c'. \<not> crew_step w c c'"
  shows "returned c \<noteq> None \<or> stuck c \<and> \<not> src_cancel w"
proof -
  have idle_busy: "busy c = {#}"
  proof (rule ccontr)
    assume "busy c \<noteq> {#}"
    then obtain k where k: "k \<in># busy c" by blast
    obtain e t where "fetchTile w k (shared c) = (e, t)" by (metis surj_pair)
    then show False using final crew_step.fetch_ok [OF k] crew_step.fetch_failed [OF k] by (cases e) blast+
  qed
  show ?thesis
  proof (cases "closed c")
    case True
    then have "idle c = 0" using final crew_step.go_home [of c] by (metis old.nat.exhaust)
    then show ?thesis using crew_step.return [OF True _ idle_busy] final by blast
  next
    case False
    then have p: "pending c \<noteq> []" using crew_step.close_jobs final by blast
    then obtain k ks where ks: "pending c = k # ks" by (cases "pending c") auto
    then have "idle c = 0" using crew_step.hand_over [OF ks False] final by (metis old.nat.exhaust)
    moreover have "\<not> src_cancel w" using crew_step.give_up [OF p False] final by blast
    ultimately show ?thesis using p False idle_busy ok by (auto simp: stuck_def crew_ok_def)
  qed
qed

lemma length_map_filter: "length (List.map_filter f xs) = length (filter (\<lambda>x. f x \<noteq> None) xs)"
  by (induction xs) (auto simp: map_filter_simps split: option.split)

lemma set_map_filter: "set (List.map_filter f xs) = {e. \<exists>x\<in>set xs. f x = Some e}"
  by (induction xs) (auto simp: map_filter_simps split: option.split)

lemma errs_fetched:
  assumes "fetched_so_far w keys t c ks"
  shows "length (errs c) = length (filter (\<lambda>k. fst (fetchTile w k t) \<noteq> None) ks)"
    "set (errs c) = {e. \<exists>k\<in>set ks. fst (fetchTile w k t) = Some e}"
proof -
  have m: "mset (errs c) = mset (tile_errors w t ks)" using assms by (simp add: fetched_so_far_def)
  show "length (errs c) = length (filter (\<lambda>k. fst (fetchTile w k t) \<noteq> None) ks)"
    using mset_eq_length [OF m] by (simp add: tile_errors_def length_map_filter)
  show "set (errs c) = {e. \<exists>k\<in>set ks. fst (fetchTile w k t) = Some e}"
    using mset_eq_setD [OF m] by (simp only: tile_errors_def set_map_filter)
qed

lemma fetched_subset:
  assumes "fetched_so_far w keys t c ks" and "distinct keys"
  shows "set ks \<subseteq> set keys \<and> distinct ks"
proof -
  have m: "mset keys = mset (pending c) + busy c + mset ks" using assms(1) by (simp add: fetched_so_far_def)
  have "set_mset (mset ks) \<subseteq> set_mset (mset keys)" unfolding m by auto
  moreover have "count (mset ks) k \<le> 1" for k
    using distinct_count_le [OF assms(2), of k] unfolding m by simp
  then have "distinct ks" by (simp add: distinct_count_atmost_1) (metis One_nat_def count_mset_0_iff le_Suc_eq le_zero_eq)
  ultimately show ?thesis by simp
qed

text \<open>Eight failures leave no worker; fewer cannot.\<close>

lemma few_failures:
  assumes run: "(crew_step w)\<^sup>*\<^sup>* (cover_start keys t) c" and keys: "distinct keys"
    and few: "card {k \<in> set keys. fst (fetchTile w k t) \<noteq> None} < workers"
  shows "\<not> stuck c"
proof
  assume s: "stuck c"
  obtain ks where ks: "fetched_so_far w keys t c ks" using fetched_run [OF run keys] by blast
  let ?bad = "filter (\<lambda>k. fst (fetchTile w k t) \<noteq> None) ks"
  have "card (set ?bad) = length ?bad" using fetched_subset [OF ks keys] by (intro distinct_card) simp
  moreover have "set ?bad \<subseteq> {k \<in> set keys. fst (fetchTile w k t) \<noteq> None}" using fetched_subset [OF ks keys] by auto
  ultimately have "length ?bad < workers"
    using few card_mono [of "{k \<in> set keys. fst (fetchTile w k t) \<noteq> None}" "set ?bad"] by simp
  then show False using s errs_fetched(1) [OF ks] by (simp add: stuck_def)
qed

lemma returned_truth:
  assumes run: "(crew_step w)\<^sup>*\<^sup>* (cover_start keys t) c" and keys: "distinct keys" and r: "returned c = Some res"
  shows "(res = None \<longrightarrow> (\<forall>k\<in>set keys. fst (fetchTile w k t) = None \<and>
      tlTiles (shared c) k = tlTiles (snd (fetchTile w k t)) k)) \<and>
    (\<forall>e. res = Some e \<longrightarrow> e = Cancelled \<or> (\<exists>k\<in>set keys. fst (fetchTile w k t) = Some e))"
proof -
  have ok: "crew_ok w c" by (rule crew_ok_run [OF run])
  obtain ks where ks: "fetched_so_far w keys t c ks" using fetched_run [OF run keys] by blast
  have c: "closed c" "busy c = {#}" "res = cover_result c" using ok r by (auto simp: crew_ok_def)
  show ?thesis
  proof (cases "ctx_done c")
    case True
    then show ?thesis using c by (simp add: cover_result_def)
  next
    case False
    then have "pending c = []" using ok c by (simp add: crew_ok_def)
    then have "mset keys = mset ks" using ks c by (simp add: fetched_so_far_def)
    then have s: "set keys = set ks" by (rule mset_eq_setD)
    show ?thesis
    proof (cases "errs c")
      case Nil
      then have none: "fst (fetchTile w k t) = None" if "k \<in> set ks" for k
        using errs_fetched(2) [OF ks] that by (cases "fst (fetchTile w k t)") auto
      have "\<forall>k\<in>set ks. tlTiles (shared c) k = tlTiles (snd (fetchTile w k t)) k"
        using ks unfolding fetched_so_far_def by blast
      then show ?thesis using Nil c False s none by (simp add: cover_result_def)
    next
      case (Cons e es)
      then have "e \<in> set (errs c)" by simp
      then have "\<exists>k\<in>set ks. fst (fetchTile w k t) = Some e" unfolding errs_fetched(2) [OF ks] by blast
      then show ?thesis using Cons c False s by (simp add: cover_result_def)
    qed
  qed
qed

text \<open>Where every fetch fails and there are more keys than workers, \<open>Cover\<close> never returns.\<close>

lemma all_failures:
  assumes run: "(crew_step w)\<^sup>*\<^sup>* (cover_start keys t) c" and keys: "distinct keys" "workers < length keys"
    and bad: "\<forall>k\<in>set keys. fst (fetchTile w k t) \<noteq> None" and live: "\<not> src_cancel w"
  shows "returned c = None"
proof (rule ccontr)
  assume "returned c \<noteq> None"
  then have ok: "crew_ok w c" "closed c" "busy c = {#}" using crew_ok_run [OF run] by (auto simp: crew_ok_def)
  then have "pending c = []" using live by (auto simp: crew_ok_def)
  moreover obtain ks where ks: "fetched_so_far w keys t c ks" using fetched_run [OF run keys(1)] by blast
  ultimately have m: "mset keys = mset ks" using ok by (simp add: fetched_so_far_def)
  then have "filter (\<lambda>k. fst (fetchTile w k t) \<noteq> None) ks = ks"
    using bad mset_eq_setD [OF m] by (simp add: filter_id_conv)
  then have "length (errs c) = length keys" using errs_fetched(1) [OF ks] mset_eq_length [OF m] by simp
  then show False using ok(1) keys(2) by (simp add: crew_ok_def)
qed

lemma tile_keys_distinct: "distinct (tile_keys zoom minLat minLon maxLat maxLon)"
proof -
  have "distinct (concat (map (\<lambda>x. map (\<lambda>y. (x, y)) ys) xs))" if "distinct xs" "distinct ys"
    for xs ys :: "int list"
    using that by (induction xs) (auto simp: distinct_map inj_on_def)
  then show ?thesis by (simp add: tile_keys_def split: prod.split)
qed

end
