(* ===== verification/Elevation.thy ===== *)
theory Elevation
  imports Terrain_Cover Osm_Copy Road_Graph
begin

text \<open>
  The package \<open>internal/elevation\<close>, file \<open>ingest.go\<close>: sampling a height for every node and deriving
  the edges' gradients.

  The two tables are lists of rows on which the statements are written out; \<open>real\<close> columns keep a
  \<open>float32\<close>.  The heights travel as COPY text with two decimals (\<open>samples_text\<close>), which the database
  reads back (\<open>copy_heights\<close>).  \<open>answers\<close> says which statements fail and what a query returns of the
  rows it selects.

  Shown here: every sampled node has its height to the centimetre, every edge a gradient of at most
  25 percent either way, opposite on the two directions of a street.
\<close>

section \<open>Tables and answers\<close>

record ground_node =
  gn_id :: int
  gn_lat :: real
  gn_lon :: real
  gn_elevation :: "real option"

record ground_edge =
  ge_id :: int
  ge_from :: int
  ge_to :: int
  ge_length :: real
  ge_grade :: "real option"

record ground =
  g_nodes :: "ground_node list"
  g_edges :: "ground_edge list"

type_synonym position = "int \<times> real \<times> real"

record ground_answers =
  an_extent :: "(real \<times> real \<times> real \<times> real) option"
  an_nodes :: "position list \<Rightarrow> position cursor option"
  an_begin :: bool
  an_temp :: bool
  an_copy :: bool
  an_update :: bool
  an_commit :: bool
  an_grades :: bool
  an_zero :: bool
  an_analyze :: bool

datatype elevation_error = ReadingExtent | CoverFailed tile_error | QueryingNodes | ScanningNode | ReadingNodes
  | BeginningTx | CreatingTemp | CopyingHeights | UpdatingNodes | CommittingHeights
  | ComputingGrades | ZeroingShort | AnalyzingTables | SummarisingGrades

section \<open>Heights of nodes\<close>

text \<open>The loop over the rows of the query; \<open>None\<close> is a row that fails to scan.\<close>

fun sample_rows :: "Tiles \<Rightarrow> position option list \<Rightarrow> (int \<times> real) list \<Rightarrow>
    (elevation_error, (int \<times> real) list) outcome" where
  "sample_rows t [] samples = Ok samples"
| "sample_rows t (None # rs) samples = Err ScanningNode"
| "sample_rows t (Some (i, lat, lon) # rs) samples =
     (case At t lat lon of
        Ok None \<Rightarrow> sample_rows t rs samples
      | Ok (Some ele) \<Rightarrow> sample_rows t rs (samples @ [(i, ele)])
      | _ \<Rightarrow> Panic)"

fun samples_text :: "(int \<times> real) list \<Rightarrow> string" where
  "samples_text [] = []"
| "samples_text ((i, ele) # ss) = FormatInt i @ [TAB] @ FormatFloat ele 2 @ [LF] @ samples_text ss"

text \<open>What the COPY makes of the text: \<open>id\<close> is a primary key, \<open>ele\<close> a \<open>real\<close>.\<close>

definition read_height :: "string option list \<Rightarrow> (int \<times> real) option" where
  "read_height fs = (case fs of
     [Some a, Some b] \<Rightarrow> (case (ParseInt a, ParseFloat b) of (Ok i, Some (Fin x)) \<Rightarrow> Some (i, f32 x) | _ \<Rightarrow> None)
   | _ \<Rightarrow> None)"

definition copy_heights :: "string \<Rightarrow> (int \<times> real) list option" where
  "copy_heights = copy_table read_height"

definition update_heights :: "(int \<times> real) list \<Rightarrow> ground \<Rightarrow> ground" where
  "update_heights hs db = db\<lparr>g_nodes := map (\<lambda>n. case map_of hs (gn_id n) of
     None \<Rightarrow> n | Some h \<Rightarrow> n\<lparr>gn_elevation := Some h\<rparr>) (g_nodes db)\<rparr>"

definition node_positions :: "ground \<Rightarrow> position list" where
  "node_positions db = sort_key fst (map (\<lambda>n. (gn_id n, gn_lat n, gn_lon n)) (g_nodes db))"

definition applyNodes :: "ground_answers \<Rightarrow> Tiles \<Rightarrow> ground \<Rightarrow> (elevation_error, unit) outcome \<times> ground" where
  "applyNodes a t db =
     (case an_nodes a (node_positions db) of
        None \<Rightarrow> (Err QueryingNodes, db)
      | Some c \<Rightarrow>
          (case sample_rows t (rows c) [] of
             Err e \<Rightarrow> (Err e, db)
           | Panic \<Rightarrow> (Panic, db)
           | Ok samples \<Rightarrow>
               if rows_err c then (Err ReadingNodes, db)
               else if \<not> an_begin a then (Err BeginningTx, db)
               else if \<not> an_temp a then (Err CreatingTemp, db)
               else case (if an_copy a then copy_heights (samples_text samples) else None) of
                 None \<Rightarrow> (Err CopyingHeights, db)
               | Some hs \<Rightarrow>
                   if \<not> an_update a then (Err UpdatingNodes, db)
                   else if \<not> an_commit a then (Err CommittingHeights, db)
                   else (Ok (), update_heights hs db)))"

section \<open>Gradients of edges\<close>

definition MinGradeLengthM :: real where "MinGradeLengthM = 20"
definition MaxGradePct :: real where "MaxGradePct = 25"

definition height :: "ground \<Rightarrow> int \<Rightarrow> real option" where
  "height db i = (case find (\<lambda>n. gn_id n = i) (g_nodes db) of None \<Rightarrow> None | Some n \<Rightarrow> gn_elevation n)"

definition grade_of :: "real \<Rightarrow> real \<Rightarrow> real \<Rightarrow> real" where
  "grade_of hf ht len = f32 (max (- MaxGradePct) (min MaxGradePct (f32 (ht - hf) / len * 100)))"

definition set_grade :: "ground \<Rightarrow> ground_edge \<Rightarrow> ground_edge" where
  "set_grade db e =
     (case (height db (ge_from e), height db (ge_to e)) of
        (Some hf, Some ht) \<Rightarrow>
          if ge_length e \<ge> MinGradeLengthM then e\<lparr>ge_grade := Some (grade_of hf ht (ge_length e))\<rparr> else e
      | _ \<Rightarrow> e)"

definition zero_grade :: "ground_edge \<Rightarrow> ground_edge" where
  "zero_grade e = (if ge_grade e = None then e\<lparr>ge_grade := Some 0\<rparr> else e)"

text \<open>Each statement is a transaction of its own.\<close>

definition applyGrades :: "ground_answers \<Rightarrow> ground \<Rightarrow> (elevation_error, unit) outcome \<times> ground" where
  "applyGrades a db =
     (if \<not> an_grades a then (Err ComputingGrades, db)
      else let db = db\<lparr>g_edges := map (set_grade db) (g_edges db)\<rparr>
           in if \<not> an_zero a then (Err ZeroingShort, db)
              else let db = db\<lparr>g_edges := map zero_grade (g_edges db)\<rparr>
                   in if \<not> an_analyze a then (Err AnalyzingTables, db) else (Ok (), db))"

text \<open>\<open>Apply\<close>; \<open>cover\<close> is how its run of \<open>Cover\<close> ends: the error it returns and the tiles it leaves.\<close>

definition elevation_Apply :: "(real \<Rightarrow> real \<Rightarrow> real \<Rightarrow> real \<Rightarrow> tile_error option \<times> Tiles) \<Rightarrow> ground_answers \<Rightarrow>
    ground \<Rightarrow> (elevation_error, unit) outcome \<times> ground" where
  "elevation_Apply cover a db =
     (case an_extent a of
        None \<Rightarrow> (Err ReadingExtent, db)
      | Some (minLat, minLon, maxLat, maxLon) \<Rightarrow>
          (case cover minLat minLon maxLat maxLon of
             (Some e, t) \<Rightarrow> (Err (CoverFailed e), db)
           | (None, t) \<Rightarrow>
               (case applyNodes a t db of
                  (Ok _, db) \<Rightarrow> applyGrades a db
                | r \<Rightarrow> r)))"

section \<open>The distribution\<close>

record GradeStats =
  gsMean :: real
  gsMaxClimb :: real
  gsMaxDescent :: real
  gsSteepClimbs :: nat

definition grades :: "ground \<Rightarrow> real list" where
  "grades db = List.map_filter ge_grade (g_edges db)"

definition grade_stats :: "ground \<Rightarrow> GradeStats" where
  "grade_stats db =
     (let gs = grades db; avg = (if gs = [] then 0 else sum_list (map abs gs) / real (length gs))
      in \<lparr>gsMean = of_int (math_Round (avg * 100)) / 100,
          gsMaxClimb = (if gs = [] then 0 else Max (set gs)),
          gsMaxDescent = (if gs = [] then 0 else Min (set gs)),
          gsSteepClimbs = length (filter (\<lambda>g. g > 8) gs)\<rparr>)"

text \<open>\<open>Summarise\<close>; \<open>answered\<close>: whether the query succeeds.\<close>

definition elevation_Summarise :: "bool \<Rightarrow> ground \<Rightarrow> (elevation_error, GradeStats) outcome" where
  "elevation_Summarise answered db = (if answered then Ok (grade_stats db) else Err SummarisingGrades)"

section \<open>The text of the heights\<close>

lemma parse_samples:
  "parse_copy (samples_text ss) = map (\<lambda>(i, h). [Some (FormatInt i), Some (FormatFloat h 2)]) ss"
proof (induction ss)
  case Nil
  then show ?case by (simp add: parse_copy_def)
next
  case (Cons s ss)
  have "list_all clean [FormatInt i, FormatFloat h 2]" for i h using FormatInt_plain FormatFloat_plain by simp
  then show ?case
    using Cons parse_line [of "[FormatInt (fst s), FormatFloat (snd s) 2]" "samples_text ss"]
      FormatInt_plain FormatFloat_plain by (cases s) simp
qed

interpretation samples_copy: copy_format samples_text "\<lambda>(i, h). [Some (FormatInt i), Some (FormatFloat h 2)]"
  by unfold_locales (rule parse_samples)

definition small_sample :: "int \<times> real \<Rightarrow> bool" where
  "small_sample s \<longleftrightarrow> - (2 ^ 63) \<le> fst s \<and> fst s < 2 ^ 63 \<and> \<bar>snd s\<bar> < 10 ^ 300"

lemma copy_samples:
  assumes "\<forall>s\<in>set ss. small_sample s" and "distinct (map fst ss)"
  shows "copy_heights (samples_text ss) = Some (map (\<lambda>(i, h). (i, f32 (rounded 2 h))) ss)"
  unfolding copy_heights_def
proof (rule samples_copy.table_rows)
  show "read_height (case s of (i, h) \<Rightarrow> [Some (FormatInt i), Some (FormatFloat h 2)]) =
      Some (case s of (i, h) \<Rightarrow> (i, f32 (rounded 2 h)))" if "s \<in> set ss" for s
    using bspec [OF assms(1) that]
    by (cases s) (simp add: small_sample_def read_height_def ParseInt_FormatInt ParseFloat_FormatFloat)
  show "distinct (map (fst \<circ> (\<lambda>(i, h). (i, f32 (rounded 2 h)))) ss)"
    using assms(2) by (simp add: o_def case_prod_beta)
qed

section \<open>The nodes\<close>

lemma At_ok:
  assumes "tiles_ok t"
  shows "\<exists>r. At t lat lon = Ok r \<and> (\<forall>h. r = Some h \<longrightarrow> \<bar>h\<bar> \<le> 32770)"
proof -
  obtain fx fy where f: "tileXY (tlZoom t) lat lon = (fx, fy)" by (metis surj_pair)
  define dx dy where "dx = fx * real tileSize - 1 / 2 - of_int \<lfloor>fx * real tileSize - 1 / 2\<rfloor>"
    and "dy = fy * real tileSize - 1 / 2 - of_int \<lfloor>fy * real tileSize - 1 / 2\<rfloor>"
  have d: "0 \<le> dx" "dx \<le> 1" "0 \<le> dy" "dy \<le> 1" unfolding dx_def dy_def by linarith+
  let ?x = "to_int64 (of_int \<lfloor>fx * real tileSize - 1 / 2\<rfloor>)" and ?y = "to_int64 (of_int \<lfloor>fy * real tileSize - 1 / 2\<rfloor>)"
  obtain v00 v10 v01 v11 where v: "pixel t ?x ?y = Ok v00" "pixel t (?x + 1) ?y = Ok v10" "pixel t ?x (?y + 1) = Ok v01"
    "pixel t (?x + 1) (?y + 1) = Ok v11" and ok: "\<And>h. Some h \<in> {v00, v10, v01, v11} \<Longrightarrow> height_ok h"
    using pixel_ok [OF assms, of ?x ?y] pixel_ok [OF assms, of "?x + 1" ?y] pixel_ok [OF assms, of ?x "?y + 1"]
      pixel_ok [OF assms, of "?x + 1" "?y + 1"] by blast
  have at: "At t lat lon = (case (v00, v10, v01, v11) of
      (Some a, Some b, Some c, Some e) \<Rightarrow> Ok (Some (lerp32 (lerp32 a b dx) (lerp32 c e dx) dy)) | _ \<Rightarrow> Ok v00)"
    unfolding At_def f prod.case Let_def v obind.simps dx_def dy_def by (rule refl)
  have near: "\<bar>lerp32 a b w\<bar> \<le> D + 1" if "\<bar>a\<bar> \<le> D" "\<bar>b\<bar> \<le> D" "1 \<le> D" "D \<le> 100000" "0 \<le> w" "w \<le> 1" for a b D w
  proof -
    have "(5 * D / 2 ^ 24 :: real) \<le> 1" using that(4) by simp
    then show ?thesis using lerp32_near [OF that(1,2,3,5,6)] that(1,2) by linarith
  qed
  show ?thesis
  proof (cases "\<exists>a b c e. v00 = Some a \<and> v10 = Some b \<and> v01 = Some c \<and> v11 = Some e")
    case True
    then obtain a b c e where s: "v00 = Some a" "v10 = Some b" "v01 = Some c" "v11 = Some e" by blast
    have h: "\<bar>a\<bar> \<le> 32768" "\<bar>b\<bar> \<le> 32768" "\<bar>c\<bar> \<le> 32768" "\<bar>e\<bar> \<le> 32768"
      by (rule height_ok_abs [OF ok]; simp add: s)+
    then have "\<bar>lerp32 a b dx\<bar> \<le> 32769" "\<bar>lerp32 c e dx\<bar> \<le> 32769" using near d by fastforce+
    then have "\<bar>lerp32 (lerp32 a b dx) (lerp32 c e dx) dy\<bar> \<le> 32770" using near [of _ 32769] d by fastforce
    then show ?thesis using at unfolding s by simp
  next
    case False
    then have "At t lat lon = Ok v00" using at by (cases v00; cases v10; cases v01; cases v11) simp_all
    moreover have "\<bar>h\<bar> \<le> 32770" if "v00 = Some h" for h using height_ok_abs [OF ok [of h]] that by simp
    ultimately show ?thesis by blast
  qed
qed

definition sample_of :: "Tiles \<Rightarrow> position \<Rightarrow> (int \<times> real) option" where
  "sample_of t p = (case p of (i, lat, lon) \<Rightarrow> (case At t lat lon of Ok (Some h) \<Rightarrow> Some (i, h) | _ \<Rightarrow> None))"

lemma sample_rows_all:
  assumes "tiles_ok t"
  shows "sample_rows t (map Some ps) acc = Ok (acc @ List.map_filter (sample_of t) ps)"
proof (induction ps arbitrary: acc)
  case Nil
  then show ?case by (simp add: map_filter_simps)
next
  case (Cons p ps)
  obtain i lat lon where p: "p = (i, lat, lon)" by (metis prod_cases3)
  obtain r where r: "At t lat lon = Ok r" using At_ok [OF assms] by blast
  show ?case using Cons p r by (cases r) (simp_all add: sample_of_def map_filter_simps)
qed

lemma samples_small:
  assumes "tiles_ok t" and "\<forall>p\<in>set ps. - (2 ^ 63) \<le> fst p \<and> fst p < 2 ^ 63"
  shows "\<forall>s\<in>set (List.map_filter (sample_of t) ps). small_sample s"
proof
  fix s assume "s \<in> set (List.map_filter (sample_of t) ps)"
  then obtain p where p: "p \<in> set ps" "sample_of t p = Some s" by (auto simp: set_map_filter)
  then obtain lat lon where "At t lat lon = Ok (Some (snd s))" "fst p = fst s"
    by (auto simp: sample_of_def split: prod.splits outcome.splits option.splits)
  then have "\<bar>snd s\<bar> \<le> 32770" using At_ok [OF assms(1), of lat lon] by auto
  then show "small_sample s" using assms(2) p \<open>fst p = fst s\<close> by (auto simp: small_sample_def)
qed

lemma samples_distinct:
  assumes "distinct (map fst ps)"
  shows "distinct (map fst (List.map_filter (sample_of t) ps)) \<and>
    fst ` set (List.map_filter (sample_of t) ps) \<subseteq> fst ` set ps"
  using assms
proof (induction ps)
  case (Cons p ps)
  have "sample_of t p = Some s \<Longrightarrow> fst s = fst p" for s
    by (auto simp: sample_of_def split: prod.splits outcome.splits option.splits)
  then show ?case using Cons by (auto simp: map_filter_simps split: option.split)
qed (simp add: map_filter_simps)

definition nodes_fit :: "ground \<Rightarrow> bool" where
  "nodes_fit db \<longleftrightarrow> distinct (map gn_id (g_nodes db)) \<and> (\<forall>n\<in>set (g_nodes db). - (2 ^ 63) \<le> gn_id n \<and> gn_id n < 2 ^ 63)"

text \<open>The database returns the rows it selects, unless it reports an error at the end.\<close>

definition honest :: "ground_answers \<Rightarrow> bool" where
  "honest a \<longleftrightarrow> (\<forall>ps c. an_nodes a ps = Some c \<longrightarrow> \<not> rows_err c \<longrightarrow> rows c = map Some ps)"

definition sampled :: "Tiles \<Rightarrow> ground_node \<Rightarrow> ground_node" where
  "sampled t n = (case At t (gn_lat n) (gn_lon n) of
     Ok (Some h) \<Rightarrow> n\<lparr>gn_elevation := Some (f32 (rounded 2 h))\<rparr> | _ \<Rightarrow> n)"

lemma applyNodes_Ok:
  assumes ok: "applyNodes a t db = (Ok u, db')" and t: "tiles_ok t" and fit: "nodes_fit db" and h: "honest a"
  shows "db' = db\<lparr>g_nodes := map (sampled t) (g_nodes db)\<rparr>"
proof -
  let ?ps = "node_positions db" and ?ss = "List.map_filter (sample_of t) (node_positions db)"
  obtain c where c: "an_nodes a ?ps = Some c" "\<not> rows_err c"
    using ok by (auto simp: applyNodes_def split: option.splits outcome.splits if_splits)
  then have rows: "rows c = map Some ?ps" using h by (simp add: honest_def)
  have ps: "set ?ps = (\<lambda>n. (gn_id n, gn_lat n, gn_lon n)) ` set (g_nodes db)" by (simp add: node_positions_def)
  have ids: "distinct (map fst ?ps)" using fit by (simp add: node_positions_def distinct_map nodes_fit_def inj_on_def) auto
  have small: "\<forall>s\<in>set ?ss. small_sample s" by (rule samples_small [OF t]) (use ps fit in \<open>auto simp: nodes_fit_def\<close>)
  note d = samples_distinct [OF ids, of t]
  have wire: "copy_heights (samples_text ?ss) = Some (map (\<lambda>(i, h). (i, f32 (rounded 2 h))) ?ss)"
    using copy_samples [OF small] d by blast
  then have db': "db' = update_heights (map (\<lambda>(i, h). (i, f32 (rounded 2 h))) ?ss) db"
    using ok c rows sample_rows_all [OF t, of ?ps "[]"] by (auto simp: applyNodes_def split: if_splits)
  have "(case map_of (map (\<lambda>(i, h). (i, f32 (rounded 2 h))) ?ss) (gn_id n) of None \<Rightarrow> n
      | Some h \<Rightarrow> n\<lparr>gn_elevation := Some h\<rparr>) = sampled t n" if n: "n \<in> set (g_nodes db)" for n
  proof -
    have m: "map_of (map (\<lambda>(i, h). (i, f32 (rounded 2 h))) ?ss) i = map_option (\<lambda>h. f32 (rounded 2 h)) (map_of ?ss i)" for i
      by (simp add: map_of_map)
    have p: "(gn_id n, gn_lat n, gn_lon n) \<in> set ?ps" using n ps by simp
    obtain r where r: "At t (gn_lat n) (gn_lon n) = Ok r" using At_ok [OF t] by blast
    show ?thesis
    proof (cases r)
      case (Some h)
      then have "(gn_id n, h) \<in> set ?ss" using p r by (auto simp: set_map_filter sample_of_def intro!: bexI [OF _ p])
      then have "map_of ?ss (gn_id n) = Some h" using d by simp
      then show ?thesis using Some r by (simp add: m sampled_def)
    next
      case None
      have "gn_id n \<notin> fst ` set ?ss"
      proof
        assume "gn_id n \<in> fst ` set ?ss"
        then obtain q h where q: "q \<in> set ?ps" "sample_of t q = Some (gn_id n, h)" by (auto simp: set_map_filter)
        then have "fst q = gn_id n" by (auto simp: sample_of_def split: prod.splits outcome.splits option.splits)
        then have "q = (gn_id n, gn_lat n, gn_lon n)" using ids p q(1) by (metis distinct_map fst_conv inj_on_def)
        then show False using q(2) None r by (simp add: sample_of_def)
      qed
      then have "map_of ?ss (gn_id n) = None" by (simp add: map_of_eq_None_iff)
      then show ?thesis using None r by (simp add: m sampled_def)
    qed
  qed
  then show ?thesis by (simp add: db' update_heights_def)
qed

text \<open>Anything but success leaves the nodes as they were.\<close>

interpretation heights: transaction "applyNodes a t" "\<lambda>_. False" for a t
  by unfold_locales (auto simp: applyNodes_def split: option.splits outcome.splits if_splits)

section \<open>The edges\<close>

lemma grade_range: "- 25 \<le> grade_of hf ht len \<and> grade_of hf ht len \<le> 25"
proof -
  let ?g = "max (- MaxGradePct) (min MaxGradePct (f32 (ht - hf) / len * 100))"
  have "- 25 \<le> ?g" "?g \<le> 25" by (auto simp: MaxGradePct_def)
  then show ?thesis using f32_mono [of "- 25" ?g] f32_mono [of ?g 25]
    by (simp add: grade_of_def f32_minus)
qed

lemma grade_reverse: "grade_of ht hf len = - grade_of hf ht len"
proof -
  have "f32 (hf - ht) = - f32 (ht - hf)" using f32_minus [of "ht - hf"] by simp
  then have "max (- MaxGradePct) (min MaxGradePct (f32 (hf - ht) / len * 100)) =
      - max (- MaxGradePct) (min MaxGradePct (f32 (ht - hf) / len * 100))"
    by (auto simp: max_def min_def MaxGradePct_def)
  then show ?thesis by (simp only: grade_of_def f32_minus)
qed

definition graded :: "ground \<Rightarrow> ground_edge \<Rightarrow> ground_edge" where
  "graded db e = zero_grade (set_grade db e)"

lemma applyGrades_Ok:
  "applyGrades a db = (Ok u, db') \<Longrightarrow> db' = db\<lparr>g_edges := map (graded db) (g_edges db)\<rparr>"
  by (auto simp: applyGrades_def graded_def Let_def split: if_splits)

lemma graded_same [simp]: "ge_from (graded db e) = ge_from e" "ge_to (graded db e) = ge_to e"
  "ge_length (graded db e) = ge_length e" "ge_id (graded db e) = ge_id e"
  by (auto simp: graded_def zero_grade_def set_grade_def split: option.split)

lemma graded_grade:
  "ge_grade (graded db e) = Some (case (height db (ge_from e), height db (ge_to e)) of
     (Some hf, Some ht) \<Rightarrow> if MinGradeLengthM \<le> ge_length e then grade_of hf ht (ge_length e)
       else case ge_grade e of None \<Rightarrow> 0 | Some g \<Rightarrow> g
   | _ \<Rightarrow> (case ge_grade e of None \<Rightarrow> 0 | Some g \<Rightarrow> g))"
  by (auto simp: graded_def zero_grade_def set_grade_def split: option.split)

lemma graded_within:
  assumes "\<And>g. ge_grade e = Some g \<Longrightarrow> - 25 \<le> g \<and> g \<le> 25"
  shows "\<exists>g. ge_grade (graded db e) = Some g \<and> - 25 \<le> g \<and> g \<le> 25"
  using assms grade_range by (auto simp: graded_grade split: option.split)

lemma graded_reverse:
  assumes "ge_from r = ge_to e" "ge_to r = ge_from e" "ge_length r = ge_length e" "20 \<le> ge_length e"
    and "height db (ge_from e) \<noteq> None" "height db (ge_to e) \<noteq> None"
  shows "the (ge_grade (graded db r)) = - the (ge_grade (graded db e))"
proof -
  obtain hf ht where "height db (ge_from e) = Some hf" "height db (ge_to e) = Some ht" using assms(5,6) by auto
  then show ?thesis using assms(1-4) grade_reverse [of ht hf "ge_length e"]
    by (simp add: graded_grade MinGradeLengthM_def)
qed

text \<open>Grading twice is grading once.\<close>

lemma graded_again:
  assumes "\<And>i. height db' i = height db i"
  shows "graded db' (graded db e) = graded db e"
  using assms by (auto simp: graded_def zero_grade_def set_grade_def split: option.split)

lemma Summarise_steep: "gsSteepClimbs (grade_stats db) > 0 \<Longrightarrow> gsMaxClimb (grade_stats db) > 8"
proof -
  assume "gsSteepClimbs (grade_stats db) > 0"
  then obtain g where g: "g \<in> set (grades db)" "8 < g" by (auto simp: grade_stats_def Let_def filter_empty_conv)
  then have "g \<le> Max (set (grades db))" by simp
  then have "8 < Max (set (grades db))" using g(2) by simp
  then show ?thesis using g(1) by (auto simp: grade_stats_def Let_def)
qed

section \<open>The tiles a run of \<open>Cover\<close> leaves\<close>

lemma tiles_ok_cache [simp]: "tiles_ok (t\<lparr>tlCache := f\<rparr>) = tiles_ok t"
  by (simp add: tiles_ok_def)

lemma fetchTile_ok:
  assumes "tiles_ok t" and "\<And>d img. src_png w d = Some img \<Longrightarrow> image_ok img"
  shows "tiles_ok (snd (fetchTile w k t))"
proof -
  have st: "tiles_ok (snd (store_tile w k data s))" if "tiles_ok s" for s data
  proof (cases "decodeTerrarium (src_png w) data")
    case (Ok hs)
    then have "tile_ok hs" using decode_ok assms(2) by blast
    then show ?thesis using that Ok by (auto simp: store_tile_def tiles_ok_def)
  qed (use that in \<open>simp_all add: store_tile_def\<close>)
  show ?thesis using assms(1) by (auto simp: fetchTile_def st split: option.split prod.split)
qed

lemma cover_tiles_ok:
  assumes "(crew_step w)\<^sup>*\<^sup>* (cover_start keys t) c" and "tiles_ok t"
    and "\<And>d img. src_png w d = Some img \<Longrightarrow> image_ok img"
  shows "tiles_ok (shared c)"
  using assms(1)
proof (induction rule: rtranclp_induct)
  case base
  then show ?case using assms(2) by (simp add: cover_start_def)
next
  case (step c c')
  from step(2) step(3) show ?case
    by (induction rule: crew_step.induct) (auto dest: fetchTile_ok [OF _ assms(3)] simp: prod_eq_iff)
qed

end
