(* ===== verification/Crash_Records.thy ===== *)
theory Crash_Records
  imports Go_Strings Transactions
begin

text \<open>
  The package \<open>internal/crash\<close>, file \<open>austin.go\<close>, and \<open>Store\<close> of \<open>match.go\<close>: reading collision
  records from the city's data set and replacing those stored.

  The JSON decoder hands each numeric field to the code's own \<open>UnmarshalJSON\<close> as the text of its
  token, which is where the model starts (\<open>socrata\<close>); the decoder itself, \<open>time.Parse\<close> and what the
  server answers are parameters.  The table \<open>crash\<close> and the matches that refer to it are lists of
  rows on which the statements are written out.

  Shown here: what a usable record is, including that a position that is not a number passes for
  one; and storing replaces exactly the records of its source, the first of each identifier, or
  changes nothing.
\<close>

section \<open>Tolerant numbers\<close>

definition json_text :: "string \<Rightarrow> string" where
  "json_text token = TrimBoth (\<lambda>c. c = CHR 0x22) token"

text \<open>A field that the object does not have keeps its zero.\<close>

definition flexFloat :: "string option \<Rightarrow> float_text" where
  "flexFloat token = (case token of None \<Rightarrow> Fin 0
   | Some b \<Rightarrow>
       let s = json_text b
       in if s = [] \<or> s = ''null'' then Fin 0
          else case ParseFloat s of None \<Rightarrow> Fin 0 | Some v \<Rightarrow> v)"

text \<open>\<open>int(v)\<close> of what is not a finite number is the least integer, as on amd64.\<close>

definition flexInt :: "string option \<Rightarrow> int" where
  "flexInt token = (case flexFloat token of Fin v \<Rightarrow> to_int64 v | _ \<Rightarrow> - (2 ^ 63))"

section \<open>Records\<close>

record Record =
  crSourceID :: string
  crLat :: float_text
  crLon :: float_text
  crOccurred :: int
  crSeverity :: nat
  crRaw :: string

record socrata =
  soCrisCrashID :: string
  soCaseID :: string
  soLatitude :: "string option"
  soLongitude :: "string option"
  soTimestamp :: string
  soDeathCnt :: "string option"
  soSusSeriousInjry :: "string option"
  soNonIncapInjry :: "string option"
  soPossInjry :: "string option"

definition severityFrom :: "socrata \<Rightarrow> nat" where
  "severityFrom r =
     (if flexInt (soDeathCnt r) > 0 then 4
      else if flexInt (soSusSeriousInjry r) > 0 then 3
      else if flexInt (soNonIncapInjry r) > 0 then 2
      else if flexInt (soPossInjry r) > 0 then 1
      else 0)"

text \<open>The comparisons \<open>x == 0 || x < -bound || x > bound\<close>, all false where \<open>x\<close> is not a number.\<close>

definition unusable :: "real \<Rightarrow> float_text \<Rightarrow> bool" where
  "unusable bound x \<longleftrightarrow> (case x of Fin v \<Rightarrow> v = 0 \<or> v < - bound \<or> bound < v | Inf neg \<Rightarrow> True | NaN \<Rightarrow> False)"

definition crash_time :: "(string \<Rightarrow> string \<Rightarrow> int option) \<Rightarrow> string \<Rightarrow> int option" where
  "crash_time parse_time s =
     (case parse_time ''2006-01-02T15:04:05.000'' s of
        Some ts \<Rightarrow> Some ts
      | None \<Rightarrow> parse_time ''2006-01-02T15:04:05Z07:00'' s)"

definition parseRow :: "(string \<Rightarrow> socrata option) \<Rightarrow> (string \<Rightarrow> string \<Rightarrow> int option) \<Rightarrow> string \<Rightarrow> Record option" where
  "parseRow unmarshal parse_time raw =
     (case unmarshal raw of
        None \<Rightarrow> None
      | Some row \<Rightarrow>
          let lat = flexFloat (soLatitude row); lon = flexFloat (soLongitude row)
          in if unusable 90 lat \<or> unusable 180 lon then None
             else case crash_time parse_time (soTimestamp row) of
               None \<Rightarrow> None
             | Some ts \<Rightarrow>
                 let i = TrimSpace (soCrisCrashID row); i = (if i = [] then TrimSpace (soCaseID row) else i)
                 in if i = [] then None
                    else Some \<lparr>crSourceID = i, crLat = lat, crLon = lon, crOccurred = ts,
                           crSeverity = severityFrom row, crRaw = raw\<rparr>)"

datatype crash_error = FetchBuilding | FetchFailed | FetchStatus nat | FetchDecoding
  | StoreBegin | StoreClearing | StoreStaging | StoreCopying | StoreInserting | StoreCommitting
  | MatchBegin | MatchClearing | MatchJoining | MatchPressure | MatchResetting | MatchCommitting | MatchAnalyzing

text \<open>The loop over the rows the server answered with.\<close>

fun usable_rows :: "(string \<Rightarrow> Record option) \<Rightarrow> string list \<Rightarrow> Record list \<Rightarrow> Record list" where
  "usable_rows parse [] records = records"
| "usable_rows parse (raw # raws) records =
     usable_rows parse raws (case parse raw of None \<Rightarrow> records | Some r \<Rightarrow> records @ [r])"

text \<open>
  \<open>Fetch\<close>: whether the request can be built, what the server answers (\<open>None\<close>: no answer), as a status
  and, where it decodes, the list of raw rows of the body.
\<close>

definition crash_Fetch :: "(string \<Rightarrow> Record option) \<Rightarrow> bool \<Rightarrow> (nat \<times> string list option) option \<Rightarrow>
    (crash_error, Record list) outcome" where
  "crash_Fetch parse built reply =
     (if \<not> built then Err FetchBuilding
      else case reply of
        None \<Rightarrow> Err FetchFailed
      | Some (status, body) \<Rightarrow>
          if status \<noteq> 200 then Err (FetchStatus status)
          else case body of
            None \<Rightarrow> Err FetchDecoding
          | Some raws \<Rightarrow> Ok (usable_rows parse raws []))"

section \<open>The tables\<close>

record crash_row =
  cw_id :: int
  cw_source :: string
  cw_record :: Record
  cw_cyclist :: bool

record crash_match =
  cm_crash :: int
  cm_edge :: int
  cm_distance :: real

text \<open>The columns of \<open>routing_edge\<close> the package reads and writes.\<close>

record scored_edge =
  se_id :: int
  se_length :: real
  se_infra :: string
  se_score :: real

record crash_db =
  cdCrashes :: "crash_row list"
  cdMatches :: "crash_match list"
  cdEdges :: "scored_edge list"

definition source_name :: string where "source_name = ''austin_cris''"

text \<open>\<open>INSERT ... ON CONFLICT DO NOTHING\<close>: a row whose key is there already is dropped.\<close>

definition insert_new :: "('a \<Rightarrow> 'k) \<Rightarrow> 'a \<Rightarrow> 'a list \<Rightarrow> 'a list" where
  "insert_new key r tab = (if key r \<in> key ` set tab then tab else tab @ [r])"

definition crash_key :: "crash_row \<Rightarrow> string \<times> string" where
  "crash_key c = (cw_source c, crSourceID (cw_record c))"

definition clear_source :: "crash_db \<Rightarrow> crash_db" where
  "clear_source db =
     (let gone = map cw_id (filter (\<lambda>c. cw_source c = source_name) (cdCrashes db))
      in db\<lparr>cdCrashes := filter (\<lambda>c. cw_source c \<noteq> source_name) (cdCrashes db),
          cdMatches := filter (\<lambda>m. cm_crash m \<notin> set gone) (cdMatches db)\<rparr>)"

text \<open>\<open>serial\<close> numbers the rows of the staging table.\<close>

definition staged :: "(nat \<Rightarrow> int) \<Rightarrow> Record list \<Rightarrow> crash_row list" where
  "staged serial records = map (\<lambda>(n, r). \<lparr>cw_id = serial n, cw_source = source_name, cw_record = r, cw_cyclist = True\<rparr>)
     (zip [0..<length records] records)"

record store_answers =
  sa_begin :: bool
  sa_clear :: bool
  sa_stage :: bool
  sa_copy :: bool
  sa_insert :: bool
  sa_commit :: bool

definition crash_Store :: "store_answers \<Rightarrow> (nat \<Rightarrow> int) \<Rightarrow> Record list \<Rightarrow> crash_db \<Rightarrow>
    (crash_error, unit) outcome \<times> crash_db" where
  "crash_Store a serial records db =
     (if \<not> sa_begin a then (Err StoreBegin, db)
      else if \<not> sa_clear a then (Err StoreClearing, db)
      else if \<not> sa_stage a then (Err StoreStaging, db)
      else if \<not> sa_copy a then (Err StoreCopying, db)
      else if \<not> sa_insert a then (Err StoreInserting, db)
      else if \<not> sa_commit a then (Err StoreCommitting, db)
      else let cleared = clear_source db
           in (Ok (), cleared\<lparr>cdCrashes := fold (insert_new crash_key) (staged serial records) (cdCrashes cleared)\<rparr>))"

section \<open>Usable records\<close>

lemma usable_rows_filter: "usable_rows parse raws records = records @ List.map_filter parse raws"
  by (induction raws arbitrary: records) (auto simp: map_filter_simps split: option.split)

definition position_ok :: "real \<Rightarrow> float_text \<Rightarrow> bool" where
  "position_ok bound x \<longleftrightarrow> x = NaN \<or> (\<exists>v. x = Fin v \<and> v \<noteq> 0 \<and> - bound \<le> v \<and> v \<le> bound)"

lemma not_unusable: "\<not> unusable bound x \<longleftrightarrow> position_ok bound x"
  by (cases x) (auto simp: unusable_def position_ok_def)

lemma severity_range: "severityFrom r \<le> 4"
  by (simp add: severityFrom_def)

lemma parseRow_Some:
  assumes "parseRow unmarshal parse_time raw = Some r"
  shows "position_ok 90 (crLat r) \<and> position_ok 180 (crLon r) \<and> crSourceID r \<noteq> [] \<and> crSeverity r \<le> 4 \<and> crRaw r = raw"
  using assms severity_range
  by (auto simp: parseRow_def Let_def not_unusable split: option.splits if_splits)

section \<open>Storing\<close>

lemma insert_new_distinct: "distinct (map key tab) \<Longrightarrow> distinct (map key (fold (insert_new key) rs tab))"
  by (induction rs arbitrary: tab) (auto simp: insert_new_def)

lemma insert_new_find:
  "find (\<lambda>x. key x = k) (fold (insert_new key) rs tab) =
     (case find (\<lambda>x. key x = k) tab of Some x \<Rightarrow> Some x | None \<Rightarrow> find (\<lambda>x. key x = k) rs)"
proof (induction rs arbitrary: tab)
  case (Cons r rs)
  have snoc: "find P (xs @ [x]) = (case find P xs of Some y \<Rightarrow> Some y | None \<Rightarrow> if P x then Some x else None)"
    for P :: "'a \<Rightarrow> bool" and xs x by (induction xs) auto
  show ?case
  proof (cases "key r \<in> key ` set tab")
    case True
    then have "find (\<lambda>x. key x = k) tab = None \<Longrightarrow> key r \<noteq> k" by (auto simp: find_None_iff)
    then show ?thesis using Cons True by (simp add: insert_new_def split: option.split)
  next
    case False
    then show ?thesis using Cons by (auto simp: insert_new_def snoc split: option.split)
  qed
qed (simp split: option.split)

lemma insert_new_other:
  "(\<And>r. r \<in> set rs \<Longrightarrow> \<not> P r) \<Longrightarrow> filter P (fold (insert_new key) rs tab) = filter P tab"
  by (induction rs arbitrary: tab) (auto simp: insert_new_def)

lemma insert_new_all:
  "distinct (map key (tab @ rs)) \<Longrightarrow> fold (insert_new key) rs tab = tab @ rs"
  by (induction rs arbitrary: tab) (auto simp: insert_new_def)

lemma staged_source: "c \<in> set (staged serial records) \<Longrightarrow> cw_source c = source_name \<and> cw_cyclist c"
  by (auto simp: staged_def)

lemma staged_find:
  "map_option cw_record (find (\<lambda>c. crash_key c = (source_name, i)) (staged serial records)) =
     find (\<lambda>r. crSourceID r = i) records"
proof -
  have "map_option cw_record (find (\<lambda>c. crash_key c = (source_name, i)) (map (\<lambda>(n, r). \<lparr>cw_id = serial n,
      cw_source = source_name, cw_record = r, cw_cyclist = True\<rparr>) (zip ns records))) = find (\<lambda>r. crSourceID r = i) records"
    if "length ns = length records" for ns
    using that by (induction ns records rule: list_induct2) (auto simp: crash_key_def)
  then show ?thesis by (simp add: staged_def)
qed

definition record_of :: "string \<Rightarrow> crash_db \<Rightarrow> Record option" where
  "record_of i db = map_option cw_record (find (\<lambda>c. crash_key c = (source_name, i)) (cdCrashes db))"

text \<open>The invariant of the unique index and of the matches' reference.\<close>

definition crash_db_ok :: "crash_db \<Rightarrow> bool" where
  "crash_db_ok db \<longleftrightarrow> distinct (map crash_key (cdCrashes db)) \<and> distinct (map cw_id (cdCrashes db)) \<and>
     cm_crash ` set (cdMatches db) \<subseteq> cw_id ` set (cdCrashes db)"

lemma crash_Store_cases:
  obtains (failed) e where "crash_Store a serial records db = (Err e, db)"
  | (stored) db' where "crash_Store a serial records db = (Ok (), db')"
    "cdCrashes db' = fold (insert_new crash_key) (staged serial records) (cdCrashes (clear_source db))"
    "cdMatches db' = cdMatches (clear_source db)" "cdEdges db' = cdEdges db"
proof (cases "fst (crash_Store a serial records db) = Ok ()")
  case True
  then obtain db' where db': "crash_Store a serial records db = (Ok (), db')" by (metis prod.collapse)
  then show ?thesis by (intro stored [OF db']) (auto simp: crash_Store_def clear_source_def Let_def split: if_splits)
next
  case False
  then show ?thesis using failed by (auto simp: crash_Store_def Let_def split: if_splits)
qed

lemma cleared_no_source: "find (\<lambda>c. crash_key c = (source_name, i)) (cdCrashes (clear_source db)) = None"
  by (auto simp: clear_source_def crash_key_def find_None_iff Let_def)

lemma crash_Store_records:
  assumes "crash_Store a serial records db = (Ok u, db')"
  shows "record_of i db' = find (\<lambda>r. crSourceID r = i) records"
    "filter (\<lambda>c. cw_source c \<noteq> source_name) (cdCrashes db') = filter (\<lambda>c. cw_source c \<noteq> source_name) (cdCrashes db)"
proof -
  have c: "cdCrashes db' = fold (insert_new crash_key) (staged serial records) (cdCrashes (clear_source db))"
    using assms by (cases a serial records db rule: crash_Store_cases) auto
  show "record_of i db' = find (\<lambda>r. crSourceID r = i) records"
    by (simp add: record_of_def c insert_new_find cleared_no_source staged_find)
  show "filter (\<lambda>c. cw_source c \<noteq> source_name) (cdCrashes db') = filter (\<lambda>c. cw_source c \<noteq> source_name) (cdCrashes db)"
    unfolding c by (subst insert_new_other) (auto dest: staged_source simp: clear_source_def Let_def)
qed

lemma insert_new_ids:
  assumes "distinct (map idn (tab @ rs))"
  shows "distinct (map idn (fold (insert_new key) rs tab)) \<and> set tab \<subseteq> set (fold (insert_new key) rs tab)"
  using assms
proof (induction rs arbitrary: tab)
  case (Cons r rs)
  have "distinct (map idn (tab @ rs))" "distinct (map idn ((tab @ [r]) @ rs))" using Cons.prems by auto
  then show ?case using Cons.IH [of tab] Cons.IH [of "tab @ [r]"] by (auto simp: insert_new_def)
qed simp

lemma cleared_match: "m \<in> set (cdMatches (clear_source db)) \<longleftrightarrow> m \<in> set (cdMatches db) \<and>
    cm_crash m \<notin> cw_id ` {c \<in> set (cdCrashes db). cw_source c = source_name}"
  by (simp add: clear_source_def Let_def)

lemma cleared_crash: "c \<in> set (cdCrashes (clear_source db)) \<longleftrightarrow> c \<in> set (cdCrashes db) \<and> cw_source c \<noteq> source_name"
  by (simp add: clear_source_def Let_def)

lemma crash_Store_ok:
  assumes "crash_db_ok db" and "distinct (map serial [0..<length records])"
    and "\<forall>n<length records. serial n \<notin> cw_id ` set (cdCrashes db)"
  shows "crash_db_ok (snd (crash_Store a serial records db))"
proof (cases a serial records db rule: crash_Store_cases)
  case (stored db')
  let ?c = "clear_source db"
  have ids: "map cw_id (staged serial records) = map serial [0..<length records]"
    by (auto simp: staged_def intro: nth_equalityI)
  have sub: "set (cdCrashes ?c) \<subseteq> set (cdCrashes db)" by (auto simp: clear_source_def Let_def)
  have "distinct (map cw_id (cdCrashes ?c))" using assms(1) by (simp add: crash_db_ok_def clear_source_def Let_def distinct_map_filter)
  moreover have "set (map cw_id (cdCrashes ?c)) \<inter> set (map serial [0..<length records]) = {}"
  proof -
    have "serial n \<notin> cw_id ` set (cdCrashes ?c)" if "n < length records" for n using assms(3) that sub by blast
    then have "x \<notin> serial ` {0..<length records}" if "x \<in> cw_id ` set (cdCrashes ?c)" for x
      using that by (metis atLeastLessThan_iff imageE)
    then show ?thesis unfolding set_map set_upt by blast
  qed
  ultimately have "distinct (map cw_id (cdCrashes ?c @ staged serial records))"
    using assms(2) unfolding map_append ids distinct_append by blast
  note new = insert_new_ids [OF this, of crash_key]
  have "distinct (map crash_key (cdCrashes ?c))"
    using assms(1) by (simp add: crash_db_ok_def clear_source_def Let_def distinct_map_filter)
  then have "distinct (map crash_key (cdCrashes db'))" unfolding stored by (rule insert_new_distinct)
  moreover have matches: "cm_crash m \<in> cw_id ` set (cdCrashes ?c)" if m: "m \<in> set (cdMatches ?c)" for m
  proof -
    note m = m [unfolded cleared_match]
    note no = conjunct2 [OF m]
    have "cm_crash ` set (cdMatches db) \<subseteq> cw_id ` set (cdCrashes db)" using assms(1) by (simp only: crash_db_ok_def)
    from subsetD [OF this imageI [OF conjunct1 [OF m]]]
    obtain c where c: "c \<in> set (cdCrashes db)" "cw_id c = cm_crash m" by (rule imageE) simp
    have "cw_source c \<noteq> source_name"
    proof
      assume "cw_source c = source_name"
      then have "cw_id c \<in> cw_id ` {c \<in> set (cdCrashes db). cw_source c = source_name}"
        by (intro imageI) (simp add: c(1))
      then show False using no by (simp only: c(2))
    qed
    then have "c \<in> set (cdCrashes ?c)" using c(1) unfolding cleared_crash by (intro conjI)
    then have "cw_id c \<in> cw_id ` set (cdCrashes ?c)" by (rule imageI)
    then show ?thesis by (simp only: c(2))
  qed
  moreover from matches have "cm_crash ` set (cdMatches db') \<subseteq> cw_id ` set (cdCrashes db')"
    using new [THEN conjunct2, folded stored(2), THEN image_mono, of cw_id] unfolding stored(3) by (meson image_subsetI subsetD)
  ultimately show ?thesis using new [folded stored(2)] unfolding stored(1) crash_db_ok_def by simp
qed (use assms in simp)

interpretation storing: transaction "crash_Store a serial records" "\<lambda>_. False" for a serial records
  by unfold_locales (auto simp: crash_Store_def Let_def split: if_splits)

end
