(* ===== verification/Crash_Pressure.thy ===== *)
theory Crash_Pressure
  imports Crash_Records Float32
begin

text \<open>
  The package \<open>internal/crash\<close>, \<open>MatchToEdges\<close> of \<open>match.go\<close>: attributing crashes to the edges near
  them and scoring each edge.

  The spatial join is a parameter: \<open>near c\<close> lists the edges within the match radius of a crash with
  their distances.  The other statements are written out on the lists of rows; \<open>crash_score\<close> is a
  column of type \<open>real\<close> and keeps a \<open>float32\<close>.

  Shown here: scores lie in \<open>[0, 1]\<close>, an edge without a match has none, a further crash lowers no
  score, and a failure before the commit changes nothing.
\<close>

section \<open>Constants\<close>

definition severityWeight :: "real list" where "severityWeight = [5 / 10, 1, 25 / 10, 6, 12]"
definition HalfLifeYears :: real where "HalfLifeYears = 4"
definition crash_saturation :: real where "crash_saturation = 6"
definition distanceDecayM :: real where "distanceDecayM = 12"
definition separatedDiscount :: real where "separatedDiscount = 25 / 100"

lemmas crash_constants = severityWeight_def HalfLifeYears_def crash_saturation_def distanceDecayM_def
  separatedDiscount_def

section \<open>The code\<close>

text \<open>The index of \<open>severity\<close> is in range by the table's constraint; times are in milliseconds.\<close>

definition crash_weight :: "int \<Rightarrow> Record \<Rightarrow> real \<Rightarrow> string \<Rightarrow> real" where
  "crash_weight now r d infra =
     severityWeight ! crSeverity r
       * (1 / 2) powr (of_int (now - crOccurred r) / 1000 / (36525 / 100 * 86400) / HalfLifeYears)
       * exp (- d / distanceDecayM)
       * (if infra \<in> {''protected_track'', ''path''} then separatedDiscount else 1)"

definition match_key :: "crash_match \<Rightarrow> int \<times> int" where
  "match_key m = (cm_crash m, cm_edge m)"

definition join_matches :: "(crash_row \<Rightarrow> (int \<times> real) list) \<Rightarrow> crash_row list \<Rightarrow> crash_match list" where
  "join_matches near cs = fold (insert_new match_key)
     (concat (map (\<lambda>c. map (\<lambda>(e, d). \<lparr>cm_crash = cw_id c, cm_edge = e, cm_distance = d\<rparr>) (near c))
       (filter cw_cyclist cs))) []"

text \<open>The sum over the matches of an edge, joined with their crashes.\<close>

definition weighted :: "int \<Rightarrow> crash_row list \<Rightarrow> crash_match list \<Rightarrow> scored_edge \<Rightarrow> real" where
  "weighted now cs ms e = sum_list (map (\<lambda>m.
     case find (\<lambda>c. cw_id c = cm_crash m) cs of
       None \<Rightarrow> 0
     | Some c \<Rightarrow> crash_weight now (cw_record c) (cm_distance m) (se_infra e))
     (filter (\<lambda>m. cm_edge m = se_id e) ms))"

definition pressure_score :: "real \<Rightarrow> real \<Rightarrow> real" where
  "pressure_score x len = f32 (min 1 (1 - exp (- (x / max (len / 100) (3 / 10)) / crash_saturation)))"

definition is_matched :: "crash_match list \<Rightarrow> scored_edge \<Rightarrow> bool" where
  "is_matched ms e \<longleftrightarrow> (\<exists>m\<in>set ms. cm_edge m = se_id e)"

definition score_edge :: "int \<Rightarrow> crash_row list \<Rightarrow> crash_match list \<Rightarrow> scored_edge \<Rightarrow> scored_edge" where
  "score_edge now cs ms e =
     (if is_matched ms e then e\<lparr>se_score := pressure_score (weighted now cs ms e) (se_length e)\<rparr> else e)"

definition reset_edge :: "crash_match list \<Rightarrow> scored_edge \<Rightarrow> scored_edge" where
  "reset_edge ms e = (if se_score e > 0 \<and> \<not> is_matched ms e then e\<lparr>se_score := 0\<rparr> else e)"

record match_answers =
  ma_begin :: bool
  ma_clear :: bool
  ma_join :: bool
  ma_pressure :: bool
  ma_reset :: bool
  ma_commit :: bool
  ma_analyze :: bool

definition MatchToEdges :: "match_answers \<Rightarrow> (crash_row \<Rightarrow> (int \<times> real) list) \<Rightarrow> int \<Rightarrow> crash_db \<Rightarrow>
    (crash_error, unit) outcome \<times> crash_db" where
  "MatchToEdges a near now db =
     (if \<not> ma_begin a then (Err MatchBegin, db)
      else if \<not> ma_clear a then (Err MatchClearing, db)
      else if \<not> ma_join a then (Err MatchJoining, db)
      else if \<not> ma_pressure a then (Err MatchPressure, db)
      else if \<not> ma_reset a then (Err MatchResetting, db)
      else if \<not> ma_commit a then (Err MatchCommitting, db)
      else let ms = join_matches near (cdCrashes db);
               new = db\<lparr>cdMatches := ms,
                 cdEdges := map (reset_edge ms) (map (score_edge now (cdCrashes db) ms) (cdEdges db))\<rparr>
           in if \<not> ma_analyze a then (Err MatchAnalyzing, new) else (Ok (), new))"

section \<open>Weights and scores\<close>

lemma crash_weight_pos: "crSeverity r \<le> 4 \<Longrightarrow> 0 < crash_weight now r d infra"
proof -
  assume "crSeverity r \<le> 4"
  then have "crSeverity r \<in> {0, 1, 2, 3, 4}" by auto
  then have "0 < severityWeight ! crSeverity r" by (auto simp: severityWeight_def)
  then show ?thesis by (simp add: crash_weight_def separatedDiscount_def)
qed

lemma pressure_score_range: "0 \<le> x \<Longrightarrow> 0 \<le> pressure_score x len \<and> pressure_score x len \<le> 1"
proof -
  assume x: "0 \<le> x"
  have "0 < max (len / 100) (3 / 10)" by simp
  then have "0 \<le> x / max (len / 100) (3 / 10)" using x by (intro divide_nonneg_pos)
  then have "exp (- (x / max (len / 100) (3 / 10)) / crash_saturation) \<le> 1" by (simp add: crash_saturation_def)
  then have "0 \<le> min 1 (1 - exp (- (x / max (len / 100) (3 / 10)) / crash_saturation))" by simp
  then show ?thesis using f32_mono [of "min 1 (1 - exp (- (x / max (len / 100) (3 / 10)) / crash_saturation))" 1]
    by (simp add: pressure_score_def)
qed

lemma pressure_score_mono: "x \<le> y \<Longrightarrow> pressure_score x len \<le> pressure_score y len"
proof -
  assume xy: "x \<le> y"
  have "0 < max (len / 100) (3 / 10)" by simp
  then have "x / max (len / 100) (3 / 10) \<le> y / max (len / 100) (3 / 10)" using xy by (intro divide_right_mono) simp_all
  then show ?thesis unfolding pressure_score_def by (intro f32_mono min.mono) (simp_all add: crash_saturation_def)
qed

section \<open>Matches\<close>

text \<open>A sound input: identifiers are unique, and the join returns an edge once per crash.\<close>

definition crashes_ok :: "crash_row list \<Rightarrow> bool" where
  "crashes_ok cs \<longleftrightarrow> distinct (map cw_id cs) \<and> (\<forall>c\<in>set cs. crSeverity (cw_record c) \<le> 4)"

definition join_ok :: "(crash_row \<Rightarrow> (int \<times> real) list) \<Rightarrow> bool" where
  "join_ok near \<longleftrightarrow> (\<forall>c. distinct (map fst (near c)))"

definition matches_of :: "(crash_row \<Rightarrow> (int \<times> real) list) \<Rightarrow> crash_row \<Rightarrow> crash_match list" where
  "matches_of near c = map (\<lambda>(e, d). \<lparr>cm_crash = cw_id c, cm_edge = e, cm_distance = d\<rparr>) (near c)"

lemma matches_of_crash: "m \<in> set (matches_of near c) \<Longrightarrow> cm_crash m = cw_id c"
  by (auto simp: matches_of_def)

lemma join_matches_concat:
  assumes "crashes_ok cs" and "join_ok near"
  shows "join_matches near cs = concat (map (matches_of near) (filter cw_cyclist cs))"
proof -
  let ?cs = "filter cw_cyclist cs"
  have d: "distinct (map match_key (concat (map (matches_of near) ds)))" if "distinct (map cw_id ds)" for ds
    using that
  proof (induction ds)
    case (Cons c ds)
    have "map match_key (matches_of near c) = map (\<lambda>e. (cw_id c, e)) (map fst (near c))"
      by (auto simp: matches_of_def match_key_def)
    then have "distinct (map match_key (matches_of near c))"
      using assms(2) by (simp add: join_ok_def distinct_map inj_on_def)
    moreover have key: "match_key m \<noteq> match_key m'" if "m \<in> set (matches_of near c)" "c' \<in> set ds" "m' \<in> set (matches_of near c')"
      for m m' c'
      using that Cons.prems matches_of_crash [of m near c] matches_of_crash [of m' near c'] by (auto simp: match_key_def)
    moreover have "match_key m \<notin> match_key ` set (concat (map (matches_of near) ds))" if "m \<in> set (matches_of near c)" for m
      using that key by (simp only: set_concat set_map) blast
    moreover from this have "set (map match_key (matches_of near c)) \<inter> set (map match_key (concat (map (matches_of near) ds))) = {}"
      unfolding set_map by blast
    moreover have "distinct (map match_key (concat (map (matches_of near) ds)))" using Cons by simp
    ultimately show ?case by (simp only: list.map concat.simps map_append distinct_append)
  qed simp
  have "distinct (map cw_id ?cs)" using assms(1) by (simp add: crashes_ok_def distinct_map_filter)
  from insert_new_all [of match_key "[]"] d [OF this]
  show ?thesis by (simp add: join_matches_def matches_of_def [abs_def])
qed

definition crash_share :: "int \<Rightarrow> (crash_row \<Rightarrow> (int \<times> real) list) \<Rightarrow> scored_edge \<Rightarrow> crash_row \<Rightarrow> real" where
  "crash_share now near e c = sum_list (map (\<lambda>(i, d). crash_weight now (cw_record c) d (se_infra e))
     (filter (\<lambda>(i, d). i = se_id e) (near c)))"

text \<open>An edge's pressure is the sum of what each cyclist's crash near it contributes.\<close>

lemma weighted_sum:
  assumes "crashes_ok cs" and "join_ok near"
  shows "weighted now cs (join_matches near cs) e = sum_list (map (crash_share now near e) (filter cw_cyclist cs))"
proof -
  have found: "find (\<lambda>c'. cw_id c' = cw_id c) cs = Some c" if "c \<in> set cs" for c
  proof -
    have "find (\<lambda>c'. cw_id c' = cw_id c) cs \<noteq> None" using that by (auto simp: find_None_iff)
    then obtain c' where "find (\<lambda>c'. cw_id c' = cw_id c) cs = Some c'" by blast
    moreover from this have "c' \<in> set cs" "cw_id c' = cw_id c" by (auto simp: find_Some_iff)
    moreover have "c' = c" using assms(1) that calculation by (auto simp: crashes_ok_def distinct_map inj_on_def)
    ultimately show ?thesis by simp
  qed
  have one: "weighted now cs (matches_of near c) e = crash_share now near e c" if "c \<in> set cs" for c
    using found [OF that]
    by (simp add: weighted_def matches_of_def crash_share_def filter_map o_def case_prod_beta')
  have append: "weighted now cs (a @ b) e = weighted now cs a e + weighted now cs b e" for a b
    by (simp add: weighted_def)
  have "weighted now cs (concat (map (matches_of near) ds)) e = sum_list (map (crash_share now near e) ds)"
    if "set ds \<subseteq> set cs" for ds
    using that by (induction ds) (auto simp: append one, simp add: weighted_def)
  from this [of "filter cw_cyclist cs"] show ?thesis by (simp add: join_matches_concat [OF assms])
qed

lemma crash_share_nonneg: "crSeverity (cw_record c) \<le> 4 \<Longrightarrow> 0 \<le> crash_share now near e c"
  unfolding crash_share_def using less_imp_le [OF crash_weight_pos] by (intro sum_list_nonneg) auto

lemma weighted_nonneg:
  assumes "crashes_ok cs" and "join_ok near"
  shows "0 \<le> weighted now cs (join_matches near cs) e"
  unfolding weighted_sum [OF assms] using assms(1) crash_share_nonneg
  by (intro sum_list_nonneg) (auto simp: crashes_ok_def)

lemma sum_image_nonneg: "\<forall>x\<in>#M. 0 \<le> f x \<Longrightarrow> (0 :: real) \<le> sum_mset (image_mset f M)"
  by (induction M) auto

lemma weighted_mono:
  assumes "crashes_ok cs" "crashes_ok cs'" "join_ok near" and sub: "mset cs \<subseteq># mset cs'"
  shows "weighted now cs (join_matches near cs) e \<le> weighted now cs' (join_matches near cs') e"
proof -
  obtain M where M: "mset cs' = mset cs + M" using sub by (metis subset_mset.add_diff_inverse)
  let ?f = "crash_share now near e"
  have sum: "sum_list (map ?f (filter cw_cyclist ds)) = sum_mset (image_mset ?f (filter_mset cw_cyclist (mset ds)))" for ds
    by (metis mset_filter mset_map sum_mset_sum_list)
  have "\<forall>c\<in>#filter_mset cw_cyclist M. 0 \<le> ?f c"
  proof
    fix c assume "c \<in># filter_mset cw_cyclist M"
    then have "c \<in> set cs'" using M by (metis filter_mset_eq_conv mset_subset_eqD mset_subset_eq_add_right multiset_filter_subset set_mset_mset)
    then show "0 \<le> ?f c" using assms(2) crash_share_nonneg by (auto simp: crashes_ok_def)
  qed
  then have "0 \<le> sum_mset (image_mset ?f (filter_mset cw_cyclist M))"
    by (rule sum_image_nonneg)
  then show ?thesis unfolding weighted_sum [OF assms(1,3)] weighted_sum [OF assms(2,3)] sum M by simp
qed

section \<open>The update\<close>

definition rescored :: "int \<Rightarrow> (crash_row \<Rightarrow> (int \<times> real) list) \<Rightarrow> crash_row list \<Rightarrow> scored_edge \<Rightarrow> scored_edge" where
  "rescored now near cs e = (let ms = join_matches near cs in reset_edge ms (score_edge now cs ms e))"

lemma MatchToEdges_cases:
  obtains (failed) e where "MatchToEdges a near now db = (Err e, db)" "e \<noteq> MatchAnalyzing"
  | (matched) r where "MatchToEdges a near now db = (r, db\<lparr>cdMatches := join_matches near (cdCrashes db),
      cdEdges := map (rescored now near (cdCrashes db)) (cdEdges db)\<rparr>)" "r = Ok () \<or> r = Err MatchAnalyzing"
proof (cases "ma_begin a \<and> ma_clear a \<and> ma_join a \<and> ma_pressure a \<and> ma_reset a \<and> ma_commit a")
  case True
  then show ?thesis using matched
    by (cases "ma_analyze a") (simp_all add: MatchToEdges_def Let_def rescored_def o_def)
next
  case False
  then have "\<exists>e. MatchToEdges a near now db = (Err e, db) \<and> e \<noteq> MatchAnalyzing" by (auto simp: MatchToEdges_def)
  then show ?thesis using failed by blast
qed

lemma rescored_same [simp]: "se_id (rescored now near cs e) = se_id e" "se_length (rescored now near cs e) = se_length e"
  "se_infra (rescored now near cs e) = se_infra e"
  by (auto simp: rescored_def reset_edge_def score_edge_def Let_def)

definition crash_score :: "int \<Rightarrow> (crash_row \<Rightarrow> (int \<times> real) list) \<Rightarrow> crash_row list \<Rightarrow> scored_edge \<Rightarrow> real" where
  "crash_score now near cs e =
     pressure_score (sum_list (map (crash_share now near e) (filter cw_cyclist cs))) (se_length e)"

lemma unmatched_zero:
  assumes "crashes_ok cs" "join_ok near" and "\<not> is_matched (join_matches near cs) e"
  shows "crash_score now near cs e = 0"
proof -
  have "filter (\<lambda>m. cm_edge m = se_id e) (join_matches near cs) = []"
    using assms(3) by (auto simp: is_matched_def filter_empty_conv)
  then have "weighted now cs (join_matches near cs) e = 0" by (simp add: weighted_def)
  then show ?thesis using weighted_sum [OF assms(1,2), of now e] by (simp add: crash_score_def pressure_score_def)
qed

lemma rescored_score:
  assumes "crashes_ok cs" "join_ok near" and "0 \<le> se_score e"
  shows "se_score (rescored now near cs e) = crash_score now near cs e"
proof (cases "is_matched (join_matches near cs) e")
  case True
  then have "is_matched (join_matches near cs) (e\<lparr>se_score := x\<rparr>)" for x by (simp add: is_matched_def)
  then show ?thesis using True weighted_sum [OF assms(1,2), of now e]
    by (simp add: rescored_def score_edge_def reset_edge_def Let_def crash_score_def)
next
  case False
  then show ?thesis using unmatched_zero [OF assms(1,2) False] assms(3)
    by (simp add: rescored_def score_edge_def reset_edge_def Let_def)
qed

lemma crash_score_range:
  assumes "crashes_ok cs" "join_ok near"
  shows "0 \<le> crash_score now near cs e \<and> crash_score now near cs e \<le> 1"
  using pressure_score_range [OF weighted_nonneg [OF assms]] weighted_sum [OF assms] by (simp add: crash_score_def)

lemma crash_score_mono:
  assumes "crashes_ok cs" "crashes_ok cs'" "join_ok near" and "mset cs \<subseteq># mset cs'"
  shows "crash_score now near cs e \<le> crash_score now near cs' e"
  using pressure_score_mono [OF weighted_mono [OF assms]] weighted_sum [OF assms(1,3)] weighted_sum [OF assms(2,3)]
  by (simp add: crash_score_def)

interpretation matching: transaction "MatchToEdges a near now" "\<lambda>e. e = MatchAnalyzing" for a near now
proof
  fix s r s' assume "MatchToEdges a near now s = (r, s')" "\<forall>u. r \<noteq> Ok u" "\<forall>e. r = Err e \<longrightarrow> e \<noteq> MatchAnalyzing"
  then show "s' = s" by (cases a near now s rule: MatchToEdges_cases) auto
qed

end
