(* ===== verification/Lts_Store.thy ===== *)
theory Lts_Store
  imports Safety_LTS Osm_Copy
begin

text \<open>
  The package \<open>internal/safety\<close>, file \<open>store.go\<close>: writing computed stress levels back to
  \<open>routing_edge\<close>, and the query by which \<open>internal/graph\<close> reads the table.

  The table is a list of rows: the columns the router reads (\<open>edge_row\<close>) and the time of the last
  update.  The levels travel as COPY text into a temporary table (\<open>levels_text\<close>, \<open>copy_levels\<close>) and
  one joined UPDATE applies them (\<open>update_levels\<close>).  Graphs of \<open>2^31\<close> edges or more, where the loop's
  \<open>int32\<close> counter would wrap, are not modelled.

  Shown here: after a successful run the table loads as the scored graph (\<open>persisted_load\<close>), a
  second run with the same levels touches no row, and any failure but that of the final ANALYZE
  leaves the table as it was.
\<close>

section \<open>The table and its query\<close>

record routing_edge = edge_row +
  re_updated :: int

text \<open>\<open>SELECT ... FROM routing_edge ORDER BY from_node, id\<close>\<close>

definition edges_query :: "routing_edge list \<Rightarrow> edge_row list" where
  "edges_query tab = map edge_row.truncate (sort_key er_from (sort_key er_id tab))"

section \<open>The levels on the wire\<close>

definition levels_text :: "graph \<Rightarrow> string" where
  "levels_text g = concat (map (\<lambda>e. FormatInt (DBID g ! e) @ [TAB] @ FormatInt (int (LTS g ! e)) @ [LF])
     [0..<NumEdges g])"

text \<open>What the database makes of a row: a \<open>bigint\<close> and a \<open>smallint\<close>.\<close>

definition read_level :: "string option list \<Rightarrow> (int \<times> int) option" where
  "read_level fs = (case fs of
     [Some a, Some b] \<Rightarrow> (case (ParseInt a, ParseInt b) of
         (Ok i, Ok l) \<Rightarrow> if - 32768 \<le> l \<and> l < 32768 then Some (i, l) else None
       | _ \<Rightarrow> None)
   | _ \<Rightarrow> None)"

definition copy_levels :: "string \<Rightarrow> (int \<times> int) list option" where
  "copy_levels = copy_table read_level"

text \<open>The joined UPDATE, which passes over rows that have the level already.\<close>

definition set_level :: "int \<Rightarrow> (int \<times> int) list \<Rightarrow> routing_edge \<Rightarrow> routing_edge" where
  "set_level now ls r = (case map_of ls (er_id r) of
     None \<Rightarrow> r
   | Some l \<Rightarrow> if er_lts r = Some l then r else r\<lparr>er_lts := Some l, re_updated := now\<rparr>)"

definition update_levels :: "int \<Rightarrow> (int \<times> int) list \<Rightarrow> routing_edge list \<Rightarrow> routing_edge list" where
  "update_levels now ls = map (set_level now ls)"

section \<open>The transaction\<close>

datatype persist_error = LevelsBegin | LevelsTemp | LevelsCopying | LevelsApplying | LevelsCommitting | LevelsAnalyzing

record persist_answers =
  pa_begin :: bool
  pa_temp :: bool
  pa_copy :: bool
  pa_update :: bool
  pa_commit :: bool
  pa_analyze :: bool

definition PersistLTS :: "persist_answers \<Rightarrow> int \<Rightarrow> graph \<Rightarrow> routing_edge list \<Rightarrow>
    (persist_error, unit) outcome \<times> routing_edge list" where
  "PersistLTS a now g tab =
     (if \<not> pa_begin a then (Err LevelsBegin, tab)
      else if \<not> pa_temp a then (Err LevelsTemp, tab)
      else case (if pa_copy a then copy_levels (levels_text g) else None) of
        None \<Rightarrow> (Err LevelsCopying, tab)
      | Some ls \<Rightarrow>
          if \<not> pa_update a then (Err LevelsApplying, tab)
          else if \<not> pa_commit a then (Err LevelsCommitting, tab)
          else let new = update_levels now ls tab
               in if \<not> pa_analyze a then (Err LevelsAnalyzing, new) else (Ok (), new))"

section \<open>What reaches the table\<close>

text \<open>The ids and levels of a graph's edges, as the database gets them.\<close>

definition levels :: "graph \<Rightarrow> (int \<times> int) list" where
  "levels g = map (\<lambda>e. (DBID g ! e, int (LTS g ! e))) [0..<NumEdges g]"

definition ids_fit :: "int list \<Rightarrow> bool" where
  "ids_fit ids \<longleftrightarrow> distinct ids \<and> (\<forall>i\<in>set ids. - (2 ^ 63) \<le> i \<and> i < 2 ^ 63)"

lemma parse_levels_text:
  "parse_copy (concat (map (\<lambda>e. FormatInt (f e) @ [TAB] @ FormatInt (h e) @ [LF]) es)) =
   map (\<lambda>e. [Some (FormatInt (f e)), Some (FormatInt (h e))]) es"
proof (induction es)
  case Nil
  then show ?case by (simp add: parse_copy_def)
next
  case (Cons e es)
  have "list_all clean [FormatInt (f e), FormatInt (h e)]" using FormatInt_plain by simp
  then show ?case
    using Cons parse_line [of "[FormatInt (f e), FormatInt (h e)]"
      "concat (map (\<lambda>e. FormatInt (f e) @ [TAB] @ FormatInt (h e) @ [LF]) es)"] FormatInt_plain by simp
qed

interpretation levels_copy: copy_format
    "\<lambda>es. concat (map (\<lambda>e. FormatInt (f e) @ [TAB] @ FormatInt (h e) @ [LF]) es)"
    "\<lambda>e. [Some (FormatInt (f e)), Some (FormatInt (h e))]" for f h
  by unfold_locales (rule parse_levels_text)

lemma levels_arrive:
  assumes "wf_arrays g" and "ids_fit (DBID g)" and "\<forall>l\<in>set (LTS g). l < 32768"
  shows "copy_levels (levels_text g) = Some (levels g)"
  unfolding copy_levels_def levels_def levels_text_def
proof (rule levels_copy.table_rows [where f = "\<lambda>e. DBID g ! e" and h = "\<lambda>e. int (LTS g ! e)"])
  have len: "length (DBID g) = NumEdges g" "length (LTS g) = NumEdges g" using assms(1) by (simp_all add: wf_arrays_def)
  show "read_level [Some (FormatInt (DBID g ! e)), Some (FormatInt (int (LTS g ! e)))] =
      Some (DBID g ! e, int (LTS g ! e))" if "e \<in> set [0..<NumEdges g]" for e
  proof -
    have "DBID g ! e \<in> set (DBID g)" "LTS g ! e \<in> set (LTS g)" using that len by auto
    then have "- (2 ^ 63) \<le> DBID g ! e" "DBID g ! e < 2 ^ 63" "LTS g ! e < 32768"
      using assms(2,3) by (auto simp: ids_fit_def)
    then show ?thesis by (simp add: read_level_def ParseInt_FormatInt)
  qed
  have "map ((!) (DBID g)) [0..<NumEdges g] = DBID g" using map_nth [of "DBID g"] len(1) by simp
  then show "distinct (map (fst \<circ> (\<lambda>e. (DBID g ! e, int (LTS g ! e)))) [0..<NumEdges g])"
    using assms(2) by (simp add: ids_fit_def o_def)
qed

lemma PersistLTS_cases:
  assumes "wf_arrays g" and "ids_fit (DBID g)" and "\<forall>l\<in>set (LTS g). l < 32768"
    and "PersistLTS a now g tab = (res, tab')"
  shows "if res = Ok () \<or> res = Err LevelsAnalyzing then tab' = update_levels now (levels g) tab else tab' = tab"
  using assms(4) levels_arrive [OF assms(1-3)]
  by (auto simp: PersistLTS_def Let_def split: if_splits)

lemma set_level_idem: "set_level now' ls (set_level now ls r) = set_level now ls r"
  by (auto simp: set_level_def split: option.split)

lemma update_levels_again: "update_levels now' ls (update_levels now ls tab) = update_levels now ls tab"
  by (simp add: update_levels_def o_def set_level_idem)

section \<open>The updated table loads as the scored graph\<close>

lemma insort_key_map: "insort_key f (h x) (map h xs) = map h (insort_key (\<lambda>y. f (h y)) x xs)"
  by (induction xs) auto

lemma sort_key_map: "sort_key f (map h xs) = map h (sort_key (\<lambda>y. f (h y)) xs)"
  by (induction xs) (simp_all add: insort_key_map)

lemma set_level_same [simp]: "er_from (set_level now ls r) = er_from r" "er_id (set_level now ls r) = er_id r"
  by (auto simp: set_level_def split: option.split)

lemma edges_query_ids: "map er_id (edges_query tab) = map er_id (sort_key er_from (sort_key er_id tab))"
  by (simp add: edges_query_def edge_row.defs)

lemma edges_query_set: "set (map er_id (edges_query tab)) = er_id ` set tab"
  unfolding edges_query_ids by simp

text \<open>A row as the router reads it, with another level.\<close>

definition with_level :: "(int \<times> int) list \<Rightarrow> edge_row \<Rightarrow> edge_row" where
  "with_level ls r = (case map_of ls (er_id r) of None \<Rightarrow> r | Some l \<Rightarrow> r\<lparr>er_lts := Some l\<rparr>)"

lemma truncate_set_level: "edge_row.truncate (set_level now ls r) = with_level ls (edge_row.truncate r)"
  by (cases r) (simp add: set_level_def with_level_def edge_row.defs split: option.split)

lemma edges_query_update: "edges_query (update_levels now ls tab) = map (with_level ls) (edges_query tab)"
  unfolding edges_query_def update_levels_def
  by (simp add: sort_key_map o_def truncate_set_level)

text \<open>Loading depends on the column of levels in the levels only.\<close>

lemma append_edge_level:
  "append_edge (g\<lparr>LTS := M\<rparr>) (r\<lparr>er_lts := Some l\<rparr>) = append_edge g r\<lparr>LTS := M @ [nat (uint8 l)]\<rparr>"
  by (simp add: append_edge_def optInt16_def)

lemma scan_edges_levels:
  assumes "scan_edges nc (map Some rs) g = Ok g'" and "\<forall>r\<in>set rs. map_of ls (er_id r) \<noteq> None"
  shows "scan_edges nc (map (Some \<circ> with_level ls) rs) (g\<lparr>LTS := M\<rparr>) =
    Ok (g'\<lparr>LTS := M @ map (\<lambda>r. nat (uint8 (the (map_of ls (er_id r))))) rs\<rparr>)"
  using assms
proof (induction rs arbitrary: g M)
  case (Cons r rs)
  then obtain l where l: "map_of ls (er_id r) = Some l" by auto
  then have w: "with_level ls r = r\<lparr>er_lts := Some l\<rparr>" by (simp add: with_level_def)
  have ok: "scan_edges nc (map Some rs) (append_edge g r) = Ok g'"
    and range: "\<not> (er_from r < 0 \<or> er_from r \<ge> nc \<or> er_to r < 0 \<or> er_to r \<ge> nc)"
    using Cons.prems(1) by (auto split: if_splits)
  show ?case using Cons.IH [OF ok, of "M @ [nat (uint8 l)]"] Cons.prems(2) range l
    by (simp add: w append_edge_level)
qed simp

lemma scan_edges_columns:
  "scan_edges nc (map Some rs) g = Ok g' \<Longrightarrow>
   DBID g' = DBID g @ map er_id rs \<and> length (From g') = length (From g) + length rs"
proof (induction rs arbitrary: g)
  case (Cons r rs)
  then have "scan_edges nc (map Some rs) (append_edge g r) = Ok g'" by (simp split: if_splits)
  from Cons.IH [OF this] show ?case by (simp add: append_edge_def)
qed simp

lemma buildOffsets_level: "buildOffsets g = Ok g' \<Longrightarrow> buildOffsets (g\<lparr>LTS := M\<rparr>) = Ok (g'\<lparr>LTS := M\<rparr>)"
  by (auto simp: buildOffsets_def obind_Ok_iff NumNodes_def NumEdges_def Let_def)

lemma buildDBIndex_level:
  assumes "buildDBIndex g = Ok g'"
  shows "buildDBIndex (g\<lparr>LTS := M, NodeMaxLTS := W\<rparr>) = Ok (g'\<lparr>LTS := M, NodeMaxLTS := W\<rparr>)"
proof (cases "fold (\<lambda>i m. if i > m then i else m) (DBID g) (- 1) < 0")
  case True
  then show ?thesis using assms by (simp add: buildDBIndex_def)
next
  case False
  then obtain idx where "\<not> fold (\<lambda>i m. if i > m then i else m) (DBID g) (- 1) \<ge> int (length (DBID g)) * 4"
    "foldM (index_step (DBID g)) [0..<length (DBID g)]
      (replicate (nat (fold (\<lambda>i m. if i > m then i else m) (DBID g) (- 1) + 1)) (- 1)) = Ok idx" "g' = g\<lparr>dbIndex := idx\<rparr>"
    using assms by (auto simp: buildDBIndex_def Let_def obind_Ok_iff split: if_splits)
  then show ?thesis using False by (simp add: buildDBIndex_def)
qed

text \<open>The rows of the table, without a fault.\<close>

definition all_rows :: "'r list \<Rightarrow> 'r cursor option" where
  "all_rows rs = Some \<lparr>rows = map Some rs, rows_err = False\<rparr>"

lemma ComputeNodeMaxLTS_level:
  "ComputeNodeMaxLTS (g\<lparr>LTS := M\<rparr>) =
   ComputeNodeMaxLTS g\<lparr>LTS := M, NodeMaxLTS := NodeMaxLTS (ComputeNodeMaxLTS (g\<lparr>LTS := M\<rparr>))\<rparr>"
  by (simp add: ComputeNodeMaxLTS_def)

lemma NodeMaxLTS_cong:
  assumes "From g = From h" "To g = To h" "NodeLat g = NodeLat h"
  shows "NodeMaxLTS (ComputeNodeMaxLTS (g\<lparr>LTS := M\<rparr>)) = NodeMaxLTS (ComputeNodeMaxLTS (h\<lparr>LTS := M\<rparr>))"
  using assms by (simp add: ComputeNodeMaxLTS_def NumNodes_def NumEdges_def)

lemma ScoreGraph_DBID: "wf_graph g \<Longrightarrow> DBID (ScoreGraph g) = DBID g \<and> NumEdges (ScoreGraph g) = NumEdges g"
  by (simp add: ScoreGraph_eq rescored_def ComputeNodeMaxLTS_def NumEdges_def)

lemma ScoreGraph_small: "wf_graph g \<Longrightarrow> \<forall>l\<in>set (LTS (ScoreGraph g)). 1 \<le> l \<and> l \<le> 4"
  using ClassifyLTS_range by (auto simp: ScoreGraph_LTS)

lemma levels_map_of:
  assumes "distinct (DBID g)" and "length (DBID g) = NumEdges g" and "e < NumEdges g"
  shows "map_of (levels g) (DBID g ! e) = Some (int (LTS g ! e))"
proof -
  have "map fst (levels g) = DBID g" using assms(2) map_nth [of "DBID g"] by (simp add: levels_def o_def)
  moreover have "(DBID g ! e, int (LTS g ! e)) \<in> set (levels g)" using assms(3) by (auto simp: levels_def)
  ultimately show ?thesis using assms(1) by simp
qed

lemma loaded_DBID:
  assumes "graph_Load nc nq ec (all_rows rs) = Ok g"
  shows "DBID g = map er_id rs \<and> NumEdges g = length rs"
proof -
  obtain g1 g2 g3 where st: "loadEdges ec (all_rows rs) g1 = Ok g2"
    "buildOffsets g2 = Ok g3" "buildDBIndex (ComputeNodeMaxLTS g3) = Ok g" using assms by (rule graph_Load_steps)
  obtain nc h where "scan_edges nc (map Some rs) h = Ok g2" "DBID h = []" "From h = []"
    using st(1) by (auto simp: loadEdges_def all_rows_def obind_Ok_iff Let_def split: option.splits if_splits)
  moreover obtain x where "g3 = g2\<lparr>Offs := x\<rparr>" using buildOffsets_frame [OF st(2)] by blast
  moreover obtain y z where "g = g3\<lparr>NodeMaxLTS := z, dbIndex := y\<rparr>"
    using buildDBIndex_frame [OF st(3)] unfolding ComputeNodeMaxLTS_def by blast
  ultimately show ?thesis using scan_edges_columns [of nc rs h g2] by (simp add: NumEdges_def)
qed

lemma rescored_rows_load:
  assumes load: "graph_Load nc nq ec (all_rows rs) = Ok g" and ids: "ids_fit (map er_id rs)"
  shows "graph_Load nc nq ec (all_rows (map (with_level (levels (ScoreGraph g))) rs)) = Ok (ScoreGraph g)"
proof -
  obtain g1 g2 g3 where st: "loadNodes nc nq empty_graph = Ok g1" "loadEdges ec (all_rows rs) g1 = Ok g2"
    "buildOffsets g2 = Ok g3" "buildDBIndex (ComputeNodeMaxLTS g3) = Ok g" using load by (rule graph_Load_steps)
  have wf: "wf_graph g" by (rule graph_Load_wf [OF load])
  let ?L = "LTS (ScoreGraph g)" and ?ls = "levels (ScoreGraph g)"
  let ?g1 = "g1\<lparr>From := [], To := [], LengthM := [], DBID := [], Infra := [], Highway := [],
                   Surface := [], MaxSpeed := [], Lanes := [], Lit := [], LTS := [],
                   CrashScore := [], GradePct := [], BearingStart := [], BearingEnd := []\<rparr>"
  have scan: "scan_edges (int32 (int (NumNodes g1))) (map Some rs) ?g1 = Ok g2"
    using st(2) by (auto simp: loadEdges_def all_rows_def obind_Ok_iff Let_def split: option.splits if_splits)
  obtain x where g3: "g3 = g2\<lparr>Offs := x\<rparr>" using buildOffsets_frame [OF st(3)] by blast
  obtain y z where g: "g = g3\<lparr>NodeMaxLTS := z, dbIndex := y\<rparr>"
    using buildDBIndex_frame [OF st(4)] unfolding ComputeNodeMaxLTS_def by blast
  have cols: "DBID g = map er_id rs" "NumEdges g = length rs" using loaded_DBID [OF load] by simp_all
  have sc: "DBID (ScoreGraph g) = map er_id rs" "NumEdges (ScoreGraph g) = length rs"
    using ScoreGraph_DBID [OF wf] cols by simp_all
  have lev: "map_of ?ls (er_id (rs ! e)) = Some (int (?L ! e))" if "e < length rs" for e
    using levels_map_of [of "ScoreGraph g" e] that ids sc by (simp add: ids_fit_def)
  have len: "length ?L = length rs" using cols(2) by (simp add: ScoreGraph_LTS [OF wf])
  have col: "map (\<lambda>r. nat (uint8 (the (map_of ?ls (er_id r))))) rs = ?L"
  proof (rule nth_equalityI)
    fix i assume i: "i < length (map (\<lambda>r. nat (uint8 (the (map_of ?ls (er_id r))))) rs)"
    then have "?L ! i \<le> 4" using ScoreGraph_small [OF wf] len by simp
    then show "map (\<lambda>r. nat (uint8 (the (map_of ?ls (er_id r))))) rs ! i = ?L ! i"
      using i lev by (simp add: wrap_u_id)
  qed (simp add: len)
  have "\<forall>r\<in>set rs. map_of ?ls (er_id r) \<noteq> None" using lev by (auto simp: in_set_conv_nth)
  note scan_edges_levels [OF scan this, of "[]"]
  moreover have "?g1\<lparr>LTS := []\<rparr> = ?g1" by simp
  ultimately have "scan_edges (int32 (int (NumNodes g1))) (map (Some \<circ> with_level ?ls) rs) ?g1 = Ok (g2\<lparr>LTS := ?L\<rparr>)"
    unfolding col by (simp only: append_Nil)
  then have "loadEdges ec (all_rows (map (with_level ?ls) rs)) g1 = Ok (g2\<lparr>LTS := ?L\<rparr>)"
    using st(2) by (auto simp: loadEdges_def all_rows_def Let_def split: option.splits if_splits)
  moreover have "buildOffsets (g2\<lparr>LTS := ?L\<rparr>) = Ok (g3\<lparr>LTS := ?L\<rparr>)" by (rule buildOffsets_level [OF st(3)])
  moreover have "buildDBIndex (ComputeNodeMaxLTS (g3\<lparr>LTS := ?L\<rparr>)) =
      Ok (g\<lparr>LTS := ?L, NodeMaxLTS := NodeMaxLTS (ComputeNodeMaxLTS (g3\<lparr>LTS := ?L\<rparr>))\<rparr>)"
    by (subst ComputeNodeMaxLTS_level) (rule buildDBIndex_level [OF st(4)])
  moreover have "g\<lparr>LTS := ?L, NodeMaxLTS := NodeMaxLTS (ComputeNodeMaxLTS (g3\<lparr>LTS := ?L\<rparr>))\<rparr> = ScoreGraph g"
  proof -
    have "NodeMaxLTS (ComputeNodeMaxLTS (g3\<lparr>LTS := ?L\<rparr>)) = NodeMaxLTS (ComputeNodeMaxLTS (g\<lparr>LTS := ?L\<rparr>))"
      by (rule NodeMaxLTS_cong) (simp_all add: g)
    moreover have "rescored g = g\<lparr>LTS := ?L\<rparr>" by (simp add: rescored_def ScoreGraph_LTS [OF wf])
    ultimately show ?thesis by (simp add: ScoreGraph_eq [OF wf] ComputeNodeMaxLTS_def rescored_def)
  qed
  ultimately show ?thesis using st(1) by (simp add: graph_Load_def)
qed

lemma persisted_levels:
  assumes load: "graph_Load nc nq ec (all_rows (edges_query tab)) = Ok g" and ids: "ids_fit (map er_id tab)"
    and run: "PersistLTS a now (ScoreGraph g) tab = (res, tab')"
  shows "if res = Ok () \<or> res = Err LevelsAnalyzing then tab' = update_levels now (levels (ScoreGraph g)) tab else tab' = tab"
proof -
  have wf: "wf_graph g" by (rule graph_Load_wf [OF load])
  have "ids_fit (map er_id (edges_query tab))"
    using ids unfolding ids_fit_def edges_query_ids by (simp add: distinct_map inj_on_def)
  moreover have "DBID g = map er_id (edges_query tab)" using loaded_DBID [OF load] by simp
  ultimately have "ids_fit (DBID (ScoreGraph g))" using ScoreGraph_DBID [OF wf] by simp
  moreover have "wf_arrays (ScoreGraph g)" using ScoreGraph_wf [OF wf] by (rule wf_facts)
  moreover have "\<forall>l\<in>set (LTS (ScoreGraph g)). l < 32768" using ScoreGraph_small [OF wf] by fastforce
  ultimately show ?thesis using PersistLTS_cases [OF _ _ _ run] by blast
qed

lemma persisted_load:
  assumes load: "graph_Load nc nq ec (all_rows (edges_query tab)) = Ok g" and ids: "ids_fit (map er_id tab)"
    and run: "PersistLTS a now (ScoreGraph g) tab = (res, tab')" and res: "res = Ok () \<or> res = Err LevelsAnalyzing"
  shows "graph_Load nc nq ec (all_rows (edges_query tab')) = Ok (ScoreGraph g)"
proof -
  have "ids_fit (map er_id (edges_query tab))"
    using ids unfolding ids_fit_def edges_query_ids by (simp add: distinct_map inj_on_def)
  then show ?thesis
    using rescored_rows_load [OF load] persisted_levels [OF load ids run] res by (simp add: edges_query_update)
qed

lemma update_levels_ids: "map er_id (update_levels now ls tab) = map er_id tab"
  by (simp add: update_levels_def o_def)

interpretation persisting: transaction "PersistLTS a now g" "\<lambda>e. e = LevelsAnalyzing" for a now g
  by unfold_locales (auto simp: PersistLTS_def Let_def split: option.splits if_splits)

end
