(* ===== verification/Command_Line.thy ===== *)
theory Command_Line
  imports Go_Strings Config
begin

text \<open>
  The operator's command line (\<open>cmd/viatuta/main.go\<close>, function \<open>run\<close>): the choice of the command
  and its flag.

  What the code uses of Go's package \<open>flag\<close> is written out in \<open>parse_flags\<close>: every command has one
  flag, given as \<open>-name value\<close>, \<open>-name=value\<close> or with two dashes; a flag that does not parse ends the
  process (\<open>flag.ExitOnError\<close>), with code 0 for a request for help and 2 otherwise.  Integers are read
  as by \<open>strconv.ParseInt(s, 0, 64)\<close>.

  Shown here: a command is performed only with settings that load, and the forms of a flag agree.
\<close>

section \<open>Values of flags\<close>

definition is_letter :: "char \<Rightarrow> bool" where
  "is_letter c \<longleftrightarrow> 97 \<le> (of_char (lower_char c) :: nat) \<and> (of_char (lower_char c) :: nat) \<le> 122"

text \<open>The digits of a number; underscores are passed over and checked apart.\<close>

fun read_digits :: "int \<Rightarrow> string \<Rightarrow> int \<Rightarrow> int option" where
  "read_digits b [] n = Some n"
| "read_digits b (c # s) n =
     (if c = CHR ''_'' then read_digits b s n
      else if (is_digit c \<or> is_letter c) \<and> digit_value c < b then read_digits b s (n * b + digit_value c)
      else None)"

definition ParseUint0 :: "string \<Rightarrow> int option" where
  "ParseUint0 s =
     (if s = [] then None
      else let p = (if length s \<ge> 3 then lower_char (s ! 1) else CHR '' '');
               (b, t) = (if s ! 0 \<noteq> CHR ''0'' then (10, s)
                         else if p = CHR ''b'' then (2, drop 2 s) else if p = CHR ''o'' then (8, drop 2 s)
                         else if p = CHR ''x'' then (16, drop 2 s) else (8, drop 1 s))
           in case read_digits b t 0 of
                None \<Rightarrow> None
              | Some n \<Rightarrow> if n \<ge> 2 ^ 64 \<or> CHR ''_'' \<in> set t \<and> \<not> underscoreOK s then None else Some n)"

definition ParseInt0 :: "string \<Rightarrow> int option" where
  "ParseInt0 s =
     (case s of [] \<Rightarrow> None
      | c # t \<Rightarrow>
          (case ParseUint0 (if c \<in> {CHR ''+'', CHR ''-''} then t else s) of
             None \<Rightarrow> None
           | Some n \<Rightarrow> if c = CHR ''-'' then (if n > 2 ^ 63 then None else Some (- n))
                       else if n \<ge> 2 ^ 63 then None else Some n))"

definition ParseBool :: "string \<Rightarrow> bool option" where
  "ParseBool s =
     (if s \<in> {''1'', ''t'', ''T'', ''true'', ''TRUE'', ''True''} then Some True
      else if s \<in> {''0'', ''f'', ''F'', ''false'', ''FALSE'', ''False''} then Some False
      else None)"

section \<open>Flags\<close>

datatype 'a flags = Parsed 'a | ExitWith nat

fun parse_flags :: "string \<Rightarrow> bool \<Rightarrow> (string \<Rightarrow> 'a option) \<Rightarrow> string list \<Rightarrow> 'a \<Rightarrow> 'a flags" where
  "parse_flags name is_bool value_of [] v = Parsed v"
| "parse_flags name is_bool value_of (s # args) v =
     (if length s < 2 \<or> s ! 0 \<noteq> CHR ''-'' \<or> s = ''--'' then Parsed v
      else
        let nm = drop (if s ! 1 = CHR ''-'' then 2 else 1) s;
            key = takeWhile (\<lambda>c. c \<noteq> CHR ''='') nm;
            given = (if CHR ''='' \<in> set nm then Some (drop (length key + 1) nm) else None)
        in if hd nm = CHR ''-'' \<or> hd nm = CHR ''='' then ExitWith 2
           else if key \<noteq> name then ExitWith (if key = ''help'' \<or> key = ''h'' then 0 else 2)
           else if is_bool then
             (case value_of (case given of None \<Rightarrow> ''true'' | Some x \<Rightarrow> x) of
                None \<Rightarrow> ExitWith 2 | Some v \<Rightarrow> parse_flags name is_bool value_of args v)
           else case given of
             Some x \<Rightarrow> (case value_of x of None \<Rightarrow> ExitWith 2 | Some v \<Rightarrow> parse_flags name is_bool value_of args v)
           | None \<Rightarrow>
               (case args of
                  [] \<Rightarrow> ExitWith 2
                | x # rest \<Rightarrow>
                    (case value_of x of None \<Rightarrow> ExitWith 2 | Some v \<Rightarrow> parse_flags name is_bool value_of rest v)))"

section \<open>Commands\<close>

datatype action = IngestOSM string | IngestCrashes int | IngestElevation string | ScoreEdges
  | BenchRouting int | GraphStats bool

datatype dispatch = Perform Config action | ShowUsage | NoCommand | UnknownCommand string
  | BadConfig config_error | Exit nat

definition with_flag :: "Config \<Rightarrow> 'a flags \<Rightarrow> ('a \<Rightarrow> action) \<Rightarrow> dispatch" where
  "with_flag cfg r act = (case r of Parsed v \<Rightarrow> Perform cfg (act v) | ExitWith n \<Rightarrow> Exit n)"

definition command_of :: "Config \<Rightarrow> string \<Rightarrow> string list \<Rightarrow> dispatch" where
  "command_of cfg cmd rest =
     (if cmd = ''ingest-osm'' then with_flag cfg (parse_flags ''input'' False Some rest ''data/austin.osm.pbf'') IngestOSM
      else if cmd = ''ingest-crashes'' then with_flag cfg (parse_flags ''years'' False ParseInt0 rest 10) IngestCrashes
      else if cmd = ''ingest-elevation'' then with_flag cfg (parse_flags ''cache'' False Some rest ''data/elevation'') IngestElevation
      else if cmd = ''score-edges'' then Perform cfg ScoreEdges
      else if cmd = ''bench-routing'' then with_flag cfg (parse_flags ''n'' False ParseInt0 rest 60) BenchRouting
      else if cmd = ''graph-stats'' then with_flag cfg (parse_flags ''connectivity'' True ParseBool rest True) GraphStats
      else if cmd = ''-h'' \<or> cmd = ''--help'' \<or> cmd = ''help'' then ShowUsage
      else UnknownCommand cmd)"

definition run_command :: "(string \<Rightarrow> string) \<Rightarrow> string list \<Rightarrow> dispatch" where
  "run_command getenv args =
     (case args of
        [] \<Rightarrow> NoCommand
      | cmd # rest \<Rightarrow> (case Load getenv of Inl e \<Rightarrow> BadConfig e | Inr cfg \<Rightarrow> command_of cfg cmd rest))"

lemma run_command_config: "run_command getenv args = Perform cfg act \<Longrightarrow> Load getenv = Inr cfg"
  by (auto simp: run_command_def command_of_def with_flag_def split: list.splits sum.splits if_splits flags.splits)

lemma no_flag_keeps_default: "parse_flags name is_bool value_of [] v = Parsed v"
  by simp

text \<open>The forms of a flag set the same value, and the last one wins.\<close>

lemma flag_forms:
  assumes "name \<noteq> []" "CHR ''='' \<notin> set name" "hd name \<noteq> CHR ''-''"
  shows "parse_flags name False value_of ((CHR ''-'' # name) # x # args) v =
      parse_flags name False value_of ((CHR ''-'' # name @ CHR ''='' # x) # args) v"
    and "parse_flags name False value_of ((''--'' @ name @ CHR ''='' # x) # args) v =
      parse_flags name False value_of ((CHR ''-'' # name @ CHR ''='' # x) # args) v"
proof -
  obtain c s where n: "name = c # s" using assms(1) by (cases name) auto
  have "takeWhile (\<lambda>c. c \<noteq> CHR ''='') (name @ CHR ''='' # x) = name"
    using assms(2) by (simp add: takeWhile_append)
  then show "parse_flags name False value_of ((CHR ''-'' # name) # x # args) v =
      parse_flags name False value_of ((CHR ''-'' # name @ CHR ''='' # x) # args) v"
    "parse_flags name False value_of ((''--'' @ name @ CHR ''='' # x) # args) v =
      parse_flags name False value_of ((CHR ''-'' # name @ CHR ''='' # x) # args) v"
    using assms by (auto simp: n Let_def takeWhile_eq_all_conv split: option.splits)
qed

end
