(* ===== verification/Db_Pool.thy ===== *)
theory Db_Pool
  imports Transactions
begin

text \<open>
  The package \<open>internal/store\<close>: opening the connection pool, checking for PostGIS, and the helper
  \<open>withDB\<close> of \<open>cmd/viatuta\<close> that brackets a command with the two ends of a pool's life.

  The driver is a parameter (\<open>pool_answers\<close>).  What a caller does with the pool's life is recorded
  as events; durations are in seconds.

  Shown here: whatever happens, a pool that was created is closed exactly once.
\<close>

record pool_config =
  MaxConns :: int
  MinConns :: int
  MaxConnLifetime :: int
  MaxConnIdleTime :: int

datatype pool_error = ParsingURL | CreatingPool | PingingDatabase | NoPostGIS

datatype pool_event = Created pool_config | Closed

record pool_answers =
  po_parse :: "string \<Rightarrow> bool"
  po_create :: bool
  po_ping :: bool
  po_postgis :: bool

definition pool_settings :: pool_config where
  "pool_settings = \<lparr>MaxConns = 10, MinConns = 1, MaxConnLifetime = 3600, MaxConnIdleTime = 1800\<rparr>"

definition Open :: "pool_answers \<Rightarrow> string \<Rightarrow> (pool_error, unit) outcome \<times> pool_event list" where
  "Open a databaseURL =
     (if \<not> po_parse a databaseURL then (Err ParsingURL, [])
      else if \<not> po_create a then (Err CreatingPool, [])
      else if \<not> po_ping a then (Err PingingDatabase, [Created pool_settings, Closed])
      else (Ok (), [Created pool_settings]))"

definition CheckPostGIS :: "pool_answers \<Rightarrow> (pool_error, unit) outcome" where
  "CheckPostGIS a = (if po_postgis a then Ok () else Err NoPostGIS)"

text \<open>
  \<open>withDB\<close>: \<open>body\<close> is the command on the tables, \<open>None\<close> where it does not return; the deferred
  \<open>Close\<close> runs however it returns, by a panic too.
\<close>

definition withDB :: "pool_answers \<Rightarrow> string \<Rightarrow> (pool_error \<Rightarrow> 'e) \<Rightarrow> ('s \<Rightarrow> (('e, 'a) outcome \<times> 's) option) \<Rightarrow> 's \<Rightarrow>
    (('e, 'a) outcome \<times> 's \<times> pool_event list) option" where
  "withDB a url wrap body s =
     (case Open a url of
        (Err e, evs) \<Rightarrow> Some (Err (wrap e), s, evs)
      | (Panic, evs) \<Rightarrow> Some (Panic, s, evs)
      | (Ok _, evs) \<Rightarrow>
          (case body s of
             None \<Rightarrow> None
           | Some (r, s') \<Rightarrow> Some (r, s', evs @ [Closed])))"

text \<open>A life in order: nothing, or one pool created and then closed.\<close>

definition closed_life :: "pool_event list \<Rightarrow> bool" where
  "closed_life evs \<longleftrightarrow> evs = [] \<or> (\<exists>c. evs = [Created c, Closed])"

lemma Open_life: "(fst (Open a url) = Ok () \<and> snd (Open a url) = [Created pool_settings]) \<or>
    (fst (Open a url) \<noteq> Ok () \<and> closed_life (snd (Open a url)))"
  by (simp add: Open_def closed_life_def)

lemma withDB_life: "withDB a url wrap body s = Some (r, s', evs) \<Longrightarrow> closed_life evs"
  using Open_life [of a url]
  by (auto simp: withDB_def closed_life_def split: prod.splits outcome.splits option.splits)

lemma withDB_not_opened: "fst (Open a url) = Err e \<Longrightarrow> withDB a url wrap body s = Some (Err (wrap e), s, snd (Open a url))"
  by (simp add: withDB_def case_prod_beta)

text \<open>A transaction between the ends of a pool's life.\<close>

context transaction
begin

lemma withDB_failed: "withDB a url wrap (\<lambda>s. Some (run s)) s = Some (Err e, s', evs) \<Longrightarrow> \<not> late e \<Longrightarrow> s' = s"
  using failed_run by (auto simp: withDB_def split: prod.splits outcome.splits)

end

end
