(* ===== verification/Commands.thy ===== *)
theory Commands
  imports Lts_Store Command_Line Db_Pool Components Crash_Pressure Elevation Osm_Scan Safety_Report Search_Sound
begin

text \<open>
  The operator's commands (\<open>cmd/viatuta/main.go\<close>): each puts the packages' operations together, stops
  at the first error, and prints a few numbers, which are its result here.

  Printing itself, logging and the clock readings of the benchmark are left out; the random numbers
  it draws are a parameter.

  Shown here: scoring the edges and loading the graph again gives the scored graph, the benchmark
  draws its pairs only where two junctions can be left, and what a failed command leaves behind.
\<close>

datatype command_error = PoolFailed pool_error | NoExtract | OsmFailed osm_error | NoEdges | TablesFailed load_failure
  | CrashFailed crash_error | NoRecords | ElevationFailed elevation_error | GraphFailed load_error
  | LevelsFailed persist_error | CountingNodes | CountingEdges

text \<open>The error of a step, as the error of the command.\<close>

fun failing :: "('e \<Rightarrow> command_error) \<Rightarrow> ('e, 'a) outcome \<Rightarrow> (command_error, 'a) outcome" where
  "failing f (Ok a) = Ok a"
| "failing f (Err e) = Err (f e)"
| "failing f Panic = Panic"

text \<open>Every command runs between the two ends of a pool's life.\<close>

definition perform :: "pool_answers \<Rightarrow> Config \<Rightarrow> ('s \<Rightarrow> ((command_error, 'a) outcome \<times> 's) option) \<Rightarrow> 's \<Rightarrow>
    ((command_error, 'a) outcome \<times> 's \<times> pool_event list) option" where
  "perform a cfg body s = withDB a (DatabaseURL cfg) PoolFailed body s"

lemma perform_life: "perform a cfg body s = Some (r, s', evs) \<Longrightarrow> closed_life evs"
  unfolding perform_def by (rule withDB_life)

text \<open>A command that cannot open its pool leaves the tables alone.\<close>

lemma perform_not_opened: "fst (Open a (DatabaseURL cfg)) = Err e \<Longrightarrow> perform a cfg body s =
    Some (Err (PoolFailed e), s, snd (Open a (DatabaseURL cfg)))"
  unfolding perform_def by (rule withDB_not_opened)

section \<open>Counting\<close>

record table_stats =
  tsNodes :: int
  tsEdges :: int
  tsMeanLength :: "real option"
  tsTotalKm :: "real option"
  tsEdgesPerNode :: "real option"

definition graphStats :: "int option \<Rightarrow> (int \<times> real option \<times> real option) option \<Rightarrow> (command_error, table_stats) outcome" where
  "graphStats node_count edge_totals =
     (case node_count of None \<Rightarrow> Err CountingNodes
      | Some nodes \<Rightarrow>
          (case edge_totals of None \<Rightarrow> Err CountingEdges
           | Some (edges, avgLen, totalKm) \<Rightarrow>
               Ok \<lparr>tsNodes = nodes, tsEdges = edges, tsMeanLength = avgLen, tsTotalKm = totalKm,
                   tsEdgesPerNode = (if nodes > 0 then Some (of_int edges / of_int nodes) else None)\<rparr>))"

section \<open>ingest-osm\<close>

text \<open>\<open>found\<close>: whether the extract is there; the counts are those after the load.\<close>

definition ingestOSM :: "bool \<Rightarrow> osm_way pass option \<Rightarrow> osm_node pass option \<Rightarrow> answers \<Rightarrow> int option \<Rightarrow>
    (int \<times> real option \<times> real option) option \<Rightarrow> tables \<Rightarrow> (command_error, table_stats) outcome \<times> tables" where
  "ingestOSM found ways nodes db node_count edge_totals old =
     (if \<not> found then (Err NoExtract, old)
      else case ScanWays ways of
        Err e \<Rightarrow> (Err (OsmFailed e), old)
      | Panic \<Rightarrow> (Panic, old)
      | Ok scan \<Rightarrow>
          (case ScanNodes nodes scan of
             Err e \<Rightarrow> (Err (OsmFailed e), old)
           | Panic \<Rightarrow> (Panic, old)
           | Ok locs \<Rightarrow>
               let g = Build scan locs
               in if Edges g = [] then (Err NoEdges, old)
                  else case osm_Load db g old of
                    (Ok _, new) \<Rightarrow> (graphStats node_count edge_totals, new)
                  | (Err e, new) \<Rightarrow> (Err (TablesFailed e), new)
                  | (Panic, new) \<Rightarrow> (Panic, new)))"

section \<open>ingest-crashes\<close>

definition ingestCrashes :: "(string \<Rightarrow> Record option) \<Rightarrow> (int \<Rightarrow> bool \<times> (nat \<times> string list option) option) \<Rightarrow> int \<Rightarrow>
    store_answers \<Rightarrow> (nat \<Rightarrow> int) \<Rightarrow> match_answers \<Rightarrow> (crash_row \<Rightarrow> (int \<times> real) list) \<Rightarrow> int \<Rightarrow> crash_db \<Rightarrow>
    (command_error, unit) outcome \<times> crash_db" where
  "ingestCrashes parse served years sa serial ma near now db =
     (let (built, reply) = served years
      in case crash_Fetch parse built reply of
        Err e \<Rightarrow> (Err (CrashFailed e), db)
      | Panic \<Rightarrow> (Panic, db)
      | Ok records \<Rightarrow>
          if records = [] then (Err NoRecords, db)
          else case crash_Store sa serial records db of
            (Ok _, db) \<Rightarrow> (let (r, db) = MatchToEdges ma near now db in (failing CrashFailed r, db))
          | (r, db) \<Rightarrow> (failing CrashFailed r, db))"

section \<open>ingest-elevation\<close>

definition ingestElevation :: "(real \<Rightarrow> real \<Rightarrow> real \<Rightarrow> real \<Rightarrow> tile_error option \<times> Tiles) \<Rightarrow> ground_answers \<Rightarrow> bool \<Rightarrow>
    ground \<Rightarrow> (command_error, GradeStats) outcome \<times> ground" where
  "ingestElevation cover a answered db =
     (case elevation_Apply cover a db of
        (Ok _, db) \<Rightarrow> (failing ElevationFailed (elevation_Summarise answered db), db)
      | (Err e, db) \<Rightarrow> (Err (ElevationFailed e), db)
      | (Panic, db) \<Rightarrow> (Panic, db))"

section \<open>score-edges\<close>

record distribution =
  dCounts :: "nat list"
  dLengths :: "real list"
  dTotal :: real

definition count_edge :: "graph \<Rightarrow> nat \<Rightarrow> distribution \<Rightarrow> distribution" where
  "count_edge g e d =
     (let lts = (if LTS g ! e \<ge> length (dCounts d) then 0 else LTS g ! e)
      in d\<lparr>dCounts := (dCounts d)[lts := dCounts d ! lts + 1],
          dLengths := (dLengths d)[lts := dLengths d ! lts + LengthM g ! e],
          dTotal := dTotal d + LengthM g ! e\<rparr>)"

definition distribution_of :: "graph \<Rightarrow> distribution" where
  "distribution_of g = fold (count_edge g) [0..<NumEdges g]
     \<lparr>dCounts = replicate 5 0, dLengths = replicate 5 0, dTotal = 0\<rparr>"

text \<open>
  The lines printed: level, edges, kilometres and percent for the levels 1 to 4 (\<open>None\<close> where the
  total is 0 and the quotient not a number), and the unscored edges where there are any.
\<close>

definition level_line :: "distribution \<Rightarrow> nat \<Rightarrow> nat \<times> nat \<times> real \<times> real option" where
  "level_line d i = (i, dCounts d ! i, dLengths d ! i / 1000,
     if dTotal d = 0 then None else Some (100 * dLengths d ! i / dTotal d))"

definition level_report :: "distribution \<Rightarrow> (nat \<times> nat \<times> real \<times> real option) list \<times> (nat \<times> real) option" where
  "level_report d = (map (level_line d) [1..<5],
     if dCounts d ! 0 > 0 then Some (dCounts d ! 0, dLengths d ! 0 / 1000) else None)"

text \<open>\<open>select\<close> is what the query of the edges returns for the rows the table holds.\<close>

definition scoreEdges :: "int option \<Rightarrow> node_row cursor option \<Rightarrow> int option \<Rightarrow> (edge_row list \<Rightarrow> edge_row cursor option) \<Rightarrow>
    persist_answers \<Rightarrow> int \<Rightarrow> routing_edge list \<Rightarrow>
    (command_error, (nat \<times> nat \<times> real \<times> real option) list \<times> (nat \<times> real) option) outcome \<times> routing_edge list" where
  "scoreEdges ncount nquery ecount select a now tab =
     (case graph_Load ncount nquery ecount (select (edges_query tab)) of
        Err e \<Rightarrow> (Err (GraphFailed e), tab)
      | Panic \<Rightarrow> (Panic, tab)
      | Ok g \<Rightarrow>
          let g = ScoreGraph g
          in case PersistLTS a now g tab of
               (Ok _, tab) \<Rightarrow> (Ok (level_report (distribution_of g)), tab)
             | (Err e, tab) \<Rightarrow> (Err (LevelsFailed e), tab)
             | (Panic, tab) \<Rightarrow> (Panic, tab))"

text \<open>What the lines say of a graph.\<close>

definition of_level :: "graph \<Rightarrow> nat \<Rightarrow> nat list" where
  "of_level g i = filter (\<lambda>e. LTS g ! e = i) [0..<NumEdges g]"

lemma distribution_loop:
  assumes "\<forall>e<k. LTS g ! e < 5"
  shows "fold (count_edge g) [0..<k] \<lparr>dCounts = replicate 5 0, dLengths = replicate 5 0, dTotal = 0\<rparr> =
    \<lparr>dCounts = map (\<lambda>i. length (filter (\<lambda>e. LTS g ! e = i) [0..<k])) [0..<5],
     dLengths = map (\<lambda>i. path_length g (filter (\<lambda>e. LTS g ! e = i) [0..<k])) [0..<5],
     dTotal = path_length g [0..<k]\<rparr>"
  using assms
proof (induction k)
  case 0
  then show ?case by (simp add: path_length_def map_replicate_const)
next
  case (Suc k)
  let ?f = "\<lambda>h k. map (\<lambda>i. h (filter (\<lambda>e. LTS g ! e = i) [0..<k])) [0..<5]"
  have k: "LTS g ! k < 5" using Suc.prems by simp
  have "(?f length k)[LTS g ! k := ?f length k ! (LTS g ! k) + 1] = ?f length (Suc k)"
    using k by (intro nth_equalityI) (auto simp: nth_list_update)
  moreover have "(?f (path_length g) k)[LTS g ! k := ?f (path_length g) k ! (LTS g ! k) + LengthM g ! k] =
      ?f (path_length g) (Suc k)"
    using k by (intro nth_equalityI) (auto simp: nth_list_update path_length_def)
  moreover have "path_length g [0..<k] + LengthM g ! k = path_length g [0..<Suc k]" by (simp add: path_length_def)
  moreover have "(if LTS g ! k \<ge> length (?f length k) then 0 else LTS g ! k) = LTS g ! k" using k by simp
  ultimately have "count_edge g k \<lparr>dCounts = ?f length k, dLengths = ?f (path_length g) k, dTotal = path_length g [0..<k]\<rparr> =
      \<lparr>dCounts = ?f length (Suc k), dLengths = ?f (path_length g) (Suc k), dTotal = path_length g [0..<Suc k]\<rparr>"
    unfolding count_edge_def Let_def distribution.select_convs distribution.update_convs by (simp only:)
  moreover have "\<forall>e<k. LTS g ! e < 5" using Suc.prems by simp
  ultimately show ?case using Suc.IH by simp
qed

lemma level_report_scored:
  assumes "\<forall>e<NumEdges g. 1 \<le> LTS g ! e \<and> LTS g ! e < 5"
  shows "level_report (distribution_of g) =
    (map (\<lambda>i. (i, length (of_level g i), path_length g (of_level g i) / 1000,
        if path_length g [0..<NumEdges g] = 0 then None
        else Some (100 * path_length g (of_level g i) / path_length g [0..<NumEdges g]))) [1..<5], None)"
proof -
  have small: "\<forall>e<NumEdges g. LTS g ! e < 5" using assms by blast
  have "of_level g 0 = []" using assms by (auto simp: of_level_def filter_empty_conv)
  then show ?thesis
    unfolding level_report_def distribution_of_def distribution_loop [OF small] of_level_def [symmetric]
    by (auto simp: level_line_def)
qed

text \<open>The database returns the rows it selects, unless it reports an error.\<close>

definition selects :: "(edge_row list \<Rightarrow> edge_row cursor option) \<Rightarrow> bool" where
  "selects select \<longleftrightarrow> (\<forall>rs c. select rs = Some c \<longrightarrow> \<not> rows_err c \<longrightarrow> rows c = map Some rs)"

lemma selected_load:
  assumes "graph_Load nc nq ec (select rs) = Ok g" and "selects select"
  shows "graph_Load nc nq ec (all_rows rs) = Ok g"
proof -
  obtain g1 g2 where "loadEdges ec (select rs) g1 = Ok g2" using assms(1) by (rule graph_Load_steps)
  then obtain c where c: "select rs = Some c" "\<not> rows_err c"
    by (auto simp: loadEdges_def obind_Ok_iff Let_def split: option.splits if_splits)
  then have "c = \<lparr>rows = map Some rs, rows_err = False\<rparr>" using assms(2) by (simp add: selects_def)
  then show ?thesis using assms(1) c(1) by (simp add: all_rows_def)
qed

lemma scoreEdges_cases:
  assumes "scoreEdges nc nq ec select a now tab = (res, tab')" and "selects select"
  obtains (not_loaded) "tab' = tab" "\<And>rep. res \<noteq> Ok rep" "res \<noteq> Err (LevelsFailed LevelsAnalyzing)"
  | (scored) g r where "graph_Load nc nq ec (all_rows (edges_query tab)) = Ok g"
      "PersistLTS a now (ScoreGraph g) tab = (r, tab')"
      "res = (case r of Ok _ \<Rightarrow> Ok (level_report (distribution_of (ScoreGraph g))) | Err e \<Rightarrow> Err (LevelsFailed e) | Panic \<Rightarrow> Panic)"
proof (cases "graph_Load nc nq ec (select (edges_query tab))")
  case (Ok g)
  then have "graph_Load nc nq ec (all_rows (edges_query tab)) = Ok g" by (rule selected_load [OF _ assms(2)])
  moreover obtain r t where "PersistLTS a now (ScoreGraph g) tab = (r, t)" by fastforce
  ultimately show thesis using assms(1) Ok scored by (auto simp: scoreEdges_def Let_def split: outcome.splits)
qed (use assms(1) not_loaded in \<open>auto simp: scoreEdges_def\<close>)

text \<open>Scoring looks at everything but the levels, so that scoring again gives the same levels.\<close>

lemma FactsFor_scored: "wf_graph g \<Longrightarrow> FactsFor (ScoreGraph g) e = FactsFor g e"
  by (simp add: ScoreGraph_eq FactsFor_def Safety_LTS.rescored_def ComputeNodeMaxLTS_def)

lemma levels_scored_again:
  assumes "wf_graph g"
  shows "levels (ScoreGraph (ScoreGraph g)) = levels (ScoreGraph g)"
  using ScoreGraph_DBID [OF assms] ScoreGraph_DBID [OF ScoreGraph_wf [OF assms]]
  by (simp add: levels_def ScoreGraph_LTS [OF assms] ScoreGraph_LTS [OF ScoreGraph_wf [OF assms]] FactsFor_scored [OF assms])

lemma path_length_scored: "wf_graph g \<Longrightarrow> path_length (ScoreGraph g) es = path_length g es"
  by (simp add: ScoreGraph_eq path_length_def Safety_LTS.rescored_def ComputeNodeMaxLTS_def)

lemma scored_levels_range: "wf_graph g \<Longrightarrow> e < NumEdges g \<Longrightarrow> 1 \<le> LTS (ScoreGraph g) ! e \<and> LTS (ScoreGraph g) ! e < 5"
  using ClassifyLTS_range [of "FactsFor g e"] by (simp add: ScoreGraph_LTS)

lemma scored_again:
  assumes load: "graph_Load nc nq ec (all_rows (edges_query tab)) = Ok g" and ids: "ids_fit (map er_id tab)"
    and load': "graph_Load nc nq ec (all_rows (edges_query tab')) = Ok (ScoreGraph g)"
    and tab': "tab' = update_levels now (levels (ScoreGraph g)) tab" and s: "selects select"
  shows "snd (scoreEdges nc nq ec select a now' tab') = tab'"
proof -
  obtain res t where run: "scoreEdges nc nq ec select a now' tab' = (res, t)" by fastforce
  have ids': "ids_fit (map er_id tab')" using ids by (simp add: tab' update_levels_ids)
  from run s have "t = tab'"
  proof (cases rule: scoreEdges_cases)
    case (scored g' r)
    then have "PersistLTS a now' (ScoreGraph (ScoreGraph g)) tab' = (r, t)" using load' by simp
    from persisted_levels [OF load' ids' this] show ?thesis
      by (auto simp: levels_scored_again [OF graph_Load_wf [OF load]] tab' update_levels_again split: if_splits)
  qed simp
  then show ?thesis by (simp add: run)
qed

section \<open>graph-stats\<close>

datatype warning = Fragmented | SomeUnreachable

record connectivity =
  cnAll :: ComponentStats
  cnLevels :: "ComponentStats list"
  cnWarning :: "warning option"

definition component_warning :: "ComponentStats \<Rightarrow> warning option" where
  "component_warning c =
     (if cLargestPct c < 80 then Some Fragmented
      else if cLargestPct c < 95 then Some SomeUnreachable
      else None)"

fun level_stats :: "graph \<Rightarrow> nat list \<Rightarrow> ComponentStats list option" where
  "level_stats g [] = Some []"
| "level_stats g (l # ls) =
     (case ComponentsUpToLTS g l of None \<Rightarrow> None | Some s \<Rightarrow>
        (case level_stats g ls of None \<Rightarrow> None | Some ss \<Rightarrow> Some (s # ss)))"

definition connectivityStats :: "(load_error, graph) outcome \<Rightarrow> (command_error, connectivity) outcome option" where
  "connectivityStats loaded =
     (case loaded of
        Err e \<Rightarrow> Some (Err (GraphFailed e))
      | Panic \<Rightarrow> Some Panic
      | Ok g \<Rightarrow>
          (case WeaklyConnectedComponents g of None \<Rightarrow> None | Some c \<Rightarrow>
            (case level_stats g [1..<5] of None \<Rightarrow> None | Some ss \<Rightarrow>
              Some (Ok \<lparr>cnAll = c, cnLevels = ss, cnWarning = component_warning c\<rparr>))))"

definition graph_stats_command :: "bool \<Rightarrow> int option \<Rightarrow> (int \<times> real option \<times> real option) option \<Rightarrow>
    (load_error, graph) outcome \<Rightarrow> (command_error, table_stats \<times> connectivity option) outcome option" where
  "graph_stats_command deep node_count edge_totals loaded =
     (case graphStats node_count edge_totals of
        Err e \<Rightarrow> Some (Err e)
      | Panic \<Rightarrow> Some Panic
      | Ok s \<Rightarrow>
          if \<not> deep then Some (Ok (s, None))
          else (case connectivityStats loaded of
                  None \<Rightarrow> None
                | Some r \<Rightarrow> Some (obind r (\<lambda>c. Ok (s, Some c)))))"

section \<open>bench-routing\<close>

text \<open>
  Drawing the pairs: \<open>rng k\<close> is the \<open>k\<close>th number \<open>Intn\<close> answers.  Nothing bounds the loop, so that it is
  a partial function: \<open>None\<close> is a draw that never ends.
\<close>

definition usable_pair :: "graph \<Rightarrow> nat \<Rightarrow> nat \<Rightarrow> bool" where
  "usable_pair g a b \<longleftrightarrow> a \<noteq> b \<and> OutDegree g a > 0 \<and> OutDegree g b > 0"

partial_function (option) draw_pairs :: "graph \<Rightarrow> nat \<Rightarrow> (nat \<Rightarrow> nat) \<Rightarrow> nat \<Rightarrow> (nat \<times> nat) list \<Rightarrow> (nat \<times> nat) list option" where
  "draw_pairs g n rng k pairs =
     (if length pairs \<ge> n then Some pairs
      else draw_pairs g n rng (k + 2)
        (if usable_pair g (rng k) (rng (k + 1)) then pairs @ [(rng k, rng (k + 1))] else pairs))"

text \<open>The loop of one run: routes found, and the states they took; \<open>pool i\<close> is the workspace search \<open>i\<close> gets.\<close>

fun bench_loop :: "graph \<Rightarrow> options \<Rightarrow> (nat \<Rightarrow> workspace option) \<Rightarrow> nat \<Rightarrow> (nat \<times> nat) list \<Rightarrow> nat \<times> int \<Rightarrow>
    (command_error, nat \<times> int) outcome option" where
  "bench_loop g opt pool i [] s = Some (Ok s)"
| "bench_loop g opt pool i ((a, b) # ps) (found, states) =
     (case Search g (pool i) (int a) (int b) opt of
        None \<Rightarrow> None
      | Some Panic \<Rightarrow> Some Panic
      | Some (Err _) \<Rightarrow> bench_loop g opt pool (Suc i) ps (found, states)
      | Some (Ok p) \<Rightarrow> bench_loop g opt pool (Suc i) ps (found + 1, states + pExpansions p))"

text \<open>A printed line: the routes found and the mean states, \<open>None\<close> for no routes.\<close>

definition bench_line :: "nat \<times> int \<Rightarrow> (nat \<times> int) option" where
  "bench_line s = (case s of (found, states) \<Rightarrow> if found = 0 then None else Some (found, states div int found))"

definition bench_base :: options where
  "bench_base = (let m = NewModel Comfortable
     in \<lparr>EdgeCost = Model_EdgeCost m, TurnCost = Some (Model_TurnCost m), Allow = Some (Model_Allow m),
         Over = Some (Model_Over m), BudgetM = StressBudgetM Comfortable, BudgetSteps = 0, MaxExpansions = 0,
         NoHeuristic = False\<rparr>)"

definition bench_options :: "options list" where
  "bench_options = (let noBudget = bench_base\<lparr>Over := None, BudgetM := 0\<rparr>
     in [bench_base\<lparr>NoHeuristic := True\<rparr>, bench_base, noBudget\<lparr>NoHeuristic := True\<rparr>, noBudget])"

fun bench_runs :: "graph \<Rightarrow> (nat \<Rightarrow> workspace option) \<Rightarrow> (nat \<times> nat) list \<Rightarrow> options list \<Rightarrow>
    (command_error, (nat \<times> int) option list) outcome option" where
  "bench_runs g pool ps [] = Some (Ok [])"
| "bench_runs g pool ps (opt # opts) =
     (case bench_loop g opt pool 0 ps (0, 0) of
        None \<Rightarrow> None
      | Some (Err e) \<Rightarrow> Some (Err e)
      | Some Panic \<Rightarrow> Some Panic
      | Some (Ok s) \<Rightarrow>
          (case bench_runs g (\<lambda>i. pool (i + length ps)) ps opts of
             None \<Rightarrow> None
           | Some r \<Rightarrow> Some (obind r (\<lambda>lines. Ok (bench_line s # lines)))))"

text \<open>A negative number of routes panics where the slice of pairs is made.\<close>

definition benchRouting :: "(load_error, graph) outcome \<Rightarrow> int \<Rightarrow> (nat \<Rightarrow> nat) \<Rightarrow> (nat \<Rightarrow> workspace option) \<Rightarrow>
    (command_error, (nat \<times> int) option list) outcome option" where
  "benchRouting loaded n rng pool =
     (case loaded of
        Err e \<Rightarrow> Some (Err (GraphFailed e))
      | Panic \<Rightarrow> Some Panic
      | Ok g \<Rightarrow>
          if n < 0 then Some Panic
          else case draw_pairs g (nat n) rng 0 [] of
            None \<Rightarrow> None
          | Some ps \<Rightarrow> bench_runs g pool ps bench_options)"

definition drawn :: "graph \<Rightarrow> nat \<Rightarrow> (nat \<times> nat) list \<Rightarrow> (nat \<times> nat) list \<Rightarrow> bool" where
  "drawn g n pairs ps \<longleftrightarrow> n \<le> length ps \<and> (length pairs \<le> n \<longrightarrow> length ps = n) \<and>
     (list_all (\<lambda>(a, b). usable_pair g a b) pairs \<longrightarrow> list_all (\<lambda>(a, b). usable_pair g a b) ps)"

lemma draw_pairs_result:
  assumes "draw_pairs g n rng k pairs = Some ps"
  shows "drawn g n pairs ps"
proof (rule draw_pairs.raw_induct [OF _ assms, where P = "\<lambda>g n rng k pairs ps. drawn g n pairs ps"])
  fix self :: "graph \<Rightarrow> nat \<Rightarrow> (nat \<Rightarrow> nat) \<Rightarrow> nat \<Rightarrow> (nat \<times> nat) list \<Rightarrow> (nat \<times> nat) list option"
  fix g n rng k pairs ps
  assume IH: "\<And>g n rng k pairs y. self g n rng k pairs = Some y \<Longrightarrow> drawn g n pairs y"
    and eq: "(if n \<le> length pairs then Some pairs
      else self g n rng (k + 2)
        (if usable_pair g (rng k) (rng (k + 1)) then pairs @ [(rng k, rng (k + 1))] else pairs)) = Some ps"
  show "drawn g n pairs ps"
  proof (cases "n \<le> length pairs")
    case True
    then show ?thesis using eq by (auto simp: drawn_def)
  next
    case False
    then show ?thesis using IH [of g n rng "k + 2"
        "if usable_pair g (rng k) (rng (k + 1)) then pairs @ [(rng k, rng (k + 1))] else pairs" ps] eq
      by (auto simp: drawn_def split: if_splits)
  qed
qed

text \<open>Where fewer than two nodes can be left, the draw for a route never ends.\<close>

lemma draw_pairs_endless:
  assumes "0 < n" and "\<And>a b. OutDegree g a > 0 \<Longrightarrow> OutDegree g b > 0 \<Longrightarrow> a = b"
  shows "draw_pairs g n rng 0 [] = None"
proof (cases "draw_pairs g n rng 0 []")
  case (Some ps)
  from draw_pairs_result [OF this] have "length ps = n" "list_all (\<lambda>(a, b). usable_pair g a b) ps"
    by (simp_all add: drawn_def)
  moreover obtain a b qs where "ps = (a, b) # qs" using calculation(1) assms(1) by (cases ps) auto
  ultimately have "usable_pair g a b" by simp
  then show ?thesis using assms(2) by (auto simp: usable_pair_def)
qed

text \<open>Random numbers that keep hitting usable pairs end it.\<close>

lemma draw_pairs_skip:
  "\<forall>j<m. \<not> usable_pair g (rng (k + 2 * j)) (rng (k + 2 * j + 1)) \<Longrightarrow>
   draw_pairs g n rng k pairs = (if length pairs \<ge> n then Some pairs else draw_pairs g n rng (k + 2 * m) pairs)"
proof (induction m arbitrary: k)
  case 0
  then show ?case by (simp add: draw_pairs.simps)
next
  case (Suc m)
  have "\<forall>j<m. \<not> usable_pair g (rng (k + 2 + 2 * j)) (rng (k + 2 + 2 * j + 1))"
  proof (intro allI impI)
    fix j assume "j < m"
    then show "\<not> usable_pair g (rng (k + 2 + 2 * j)) (rng (k + 2 + 2 * j + 1))"
      using Suc.prems [rule_format, of "Suc j"] by simp
  qed
  from Suc.IH [OF this] show ?case
    using Suc.prems [rule_format, of 0] draw_pairs.simps [of g n rng k pairs] by auto
qed

lemma draw_pairs_ends:
  assumes "\<And>k. \<exists>m. usable_pair g (rng (k + 2 * m)) (rng (k + 2 * m + 1))"
  shows "\<exists>ps. draw_pairs g n rng k pairs = Some ps"
proof (induction "n - length pairs" arbitrary: k pairs)
  case 0
  then show ?case by (simp add: draw_pairs.simps)
next
  case (Suc d)
  define m where "m = (LEAST m. usable_pair g (rng (k + 2 * m)) (rng (k + 2 * m + 1)))"
  have u: "usable_pair g (rng (k + 2 * m)) (rng (k + 2 * m + 1))"
    unfolding m_def using assms [of k] by (rule LeastI_ex)
  have skip: "\<forall>j<m. \<not> usable_pair g (rng (k + 2 * j)) (rng (k + 2 * j + 1))"
    unfolding m_def using not_less_Least by blast
  have "d = n - length (pairs @ [(rng (k + 2 * m), rng (k + 2 * m + 1))])" using Suc.hyps(2) by simp
  from Suc.hyps(1) [OF this, of "k + 2 * m + 2"] show ?case
    using draw_pairs_skip [OF skip, of n pairs] Suc.hyps(2) u
      draw_pairs.simps [of g n rng "k + 2 * m" pairs] by auto
qed

lemma bench_loop_returns: "search_ok g opt \<Longrightarrow> \<exists>s. bench_loop g opt pool i ps s0 = Some (Ok s)"
proof (induction g opt pool i ps s0 rule: bench_loop.induct)
  case (2 g opt pool i a b ps found states)
  then show ?case using Search_returns [OF "2.prems", of "int a" "int b" "pool i"] by auto
qed simp

lemma bench_runs_return: "\<forall>opt\<in>set opts. search_ok g opt \<Longrightarrow> \<exists>r. bench_runs g pool ps opts = Some (Ok r) \<and> length r = length opts"
proof (induction opts arbitrary: pool)
  case (Cons opt opts)
  obtain s where "bench_loop g opt pool 0 ps (0, 0) = Some (Ok s)"
    using bench_loop_returns [of g opt pool 0 ps "(0, 0)"] Cons.prems by auto
  moreover obtain r where "bench_runs g (\<lambda>i. pool (i + length ps)) ps opts = Some (Ok r)" "length r = length opts"
    using Cons.IH [of "\<lambda>i. pool (i + length ps)"] Cons.prems by auto
  ultimately show ?case by simp
qed simp

section \<open>What a failed command leaves behind\<close>

text \<open>The errors that can come after a command's first commit.\<close>

fun late_error :: "command_error \<Rightarrow> bool" where
  "late_error (TablesFailed e) \<longleftrightarrow> e = Analyzing"
| "late_error CountingNodes \<longleftrightarrow> True"
| "late_error CountingEdges \<longleftrightarrow> True"
| "late_error (CrashFailed e) \<longleftrightarrow>
     e \<in> {MatchBegin, MatchClearing, MatchJoining, MatchPressure, MatchResetting, MatchCommitting, MatchAnalyzing}"
| "late_error (ElevationFailed e) \<longleftrightarrow> e \<in> {ComputingGrades, ZeroingShort, AnalyzingTables, SummarisingGrades}"
| "late_error (LevelsFailed e) \<longleftrightarrow> e = LevelsAnalyzing"
| "late_error _ \<longleftrightarrow> False"

lemma failing_simps: "failing f r = Ok a \<longleftrightarrow> r = Ok a" "failing f r = Err e \<longleftrightarrow> (\<exists>x. r = Err x \<and> e = f x)"
  "failing f r = Panic \<longleftrightarrow> r = Panic"
  by (cases r; auto)+

lemma match_errors: "fst (MatchToEdges a near now db) = Err e \<Longrightarrow> late_error (CrashFailed e)"
  "fst (MatchToEdges a near now db) \<noteq> Panic"
  by (auto simp: MatchToEdges_def Let_def split: if_splits)

lemma grade_errors: "fst (applyGrades a db) = Err e \<Longrightarrow> late_error (ElevationFailed e)" "fst (applyGrades a db) \<noteq> Panic"
  by (auto simp: applyGrades_def Let_def split: if_splits)

lemma sample_errors: "sample_rows t rs acc = Err e \<Longrightarrow> e = ScanningNode"
  by (induction t rs acc rule: sample_rows.induct) (auto split: outcome.splits option.splits)

lemma node_errors: "fst (applyNodes a t db) = Err e \<Longrightarrow> \<not> late_error (ElevationFailed e)"
  by (auto simp: applyNodes_def dest: sample_errors split: option.splits outcome.splits if_splits)

lemma ingestOSM_run:
  assumes "ingestOSM found ways nodes db nc et old = (r, new)"
  shows "(new = old \<and> (\<forall>st. r \<noteq> Ok st) \<and> (\<forall>e. r = Err e \<longrightarrow> \<not> late_error e)) \<or>
    (\<exists>scan locs. ScanWays ways = Ok scan \<and> ScanNodes nodes scan = Ok locs \<and>
      new = (nodes_text (Nodes (Build scan locs)), edges_text (Edges (Build scan locs))) \<and>
      (r = graphStats nc et \<or> r = Err (TablesFailed Analyzing)))"
proof (cases "\<exists>scan locs. found \<and> ScanWays ways = Ok scan \<and> ScanNodes nodes scan = Ok locs \<and> Edges (Build scan locs) \<noteq> []")
  case True
  then obtain scan locs where f: found "ScanWays ways = Ok scan" "ScanNodes nodes scan = Ok locs"
    "Edges (Build scan locs) \<noteq> []" by blast
  obtain q t where load: "osm_Load db (Build scan locs) old = (q, t)" by (cases "osm_Load db (Build scan locs) old")
  note atomic = osm_Load_atomic [where db = db and g = "Build scan locs" and old = old, unfolded load prod.case]
  show ?thesis
  proof (cases q)
    case (Err e)
    then show ?thesis using atomic f load assms by (cases e) (auto simp: ingestOSM_def Let_def)
  qed (use atomic f load assms in \<open>auto simp: ingestOSM_def Let_def\<close>)
next
  case False
  then show ?thesis using assms
    by (auto simp: ingestOSM_def Let_def split: if_splits outcome.splits)
qed

interpretation osm_ingest: transaction "ingestOSM found ways nodes db nc et" late_error for found ways nodes db nc et
proof
  fix s r s' assume "ingestOSM found ways nodes db nc et s = (r, s')" "\<forall>a. r \<noteq> Ok a" "\<forall>e. r = Err e \<longrightarrow> \<not> late_error e"
  then show "s' = s" using ingestOSM_run [of found ways nodes db nc et s r s']
    by (auto simp: graphStats_def split: option.splits)
qed

lemma ingestCrashes_run:
  assumes "ingestCrashes parse served years sa serial ma near now db = (r, db')"
  shows "(db' = db \<and> (\<forall>u. r \<noteq> Ok u) \<and> (\<forall>e. r = Err e \<longrightarrow> \<not> late_error e)) \<or>
    (\<exists>records mid. crash_Fetch parse (fst (served years)) (snd (served years)) = Ok records \<and> records \<noteq> [] \<and>
      crash_Store sa serial records db = (Ok (), mid) \<and>
      (failing CrashFailed (fst (MatchToEdges ma near now mid)), snd (MatchToEdges ma near now mid)) = (r, db'))"
proof (cases "crash_Fetch parse (fst (served years)) (snd (served years))")
  case (Ok records)
  show ?thesis
  proof (cases sa serial records db rule: crash_Store_cases)
    case (failed e)
    then have "\<not> late_error (CrashFailed e)" by (auto simp: crash_Store_def Let_def split: if_splits)
    then show ?thesis using failed Ok assms by (auto simp: ingestCrashes_def case_prod_beta split: if_splits)
  next
    case (stored mid)
    then show ?thesis using Ok assms by (auto simp: ingestCrashes_def case_prod_beta split: if_splits)
  qed
next
  case (Err e)
  then have "\<not> late_error (CrashFailed e)" by (auto simp: crash_Fetch_def split: if_splits option.splits prod.splits)
  then show ?thesis using Err assms by (auto simp: ingestCrashes_def case_prod_beta)
next
  case Panic
  then show ?thesis using assms by (auto simp: ingestCrashes_def case_prod_beta)
qed

interpretation crash_ingest: transaction "ingestCrashes parse served years sa serial ma near now" late_error
  for parse served years sa serial ma near now
proof
  fix s r s' assume run: "ingestCrashes parse served years sa serial ma near now s = (r, s')" "\<forall>a. r \<noteq> Ok a"
    "\<forall>e. r = Err e \<longrightarrow> \<not> late_error e"
  from ingestCrashes_run [OF run(1)] show "s' = s"
  proof (elim disjE exE conjE)
    fix records mid assume m: "(failing CrashFailed (fst (MatchToEdges ma near now mid)), snd (MatchToEdges ma near now mid)) = (r, s')"
    then have "r = failing CrashFailed (fst (MatchToEdges ma near now mid))" by simp
    moreover have "fst (MatchToEdges ma near now mid) \<noteq> Panic" by (rule match_errors)
    ultimately show ?thesis using run(2,3) match_errors(1) [of ma near now mid]
      by (cases "fst (MatchToEdges ma near now mid)") auto
  qed simp
qed

lemma ingestElevation_run:
  assumes "ingestElevation cover a answered db = (r, db')"
  shows "(db' = db \<and> (\<forall>st. r \<noteq> Ok st) \<and> (\<forall>e. r = Err e \<longrightarrow> \<not> late_error e)) \<or>
    (\<exists>t mid. applyNodes a t db = (Ok (), mid) \<and> db' = snd (applyGrades a mid) \<and>
      (fst (applyGrades a mid) = Ok () \<and> r = failing ElevationFailed (elevation_Summarise answered db') \<or>
       (\<exists>e. fst (applyGrades a mid) = Err e \<and> r = Err (ElevationFailed e))))"
proof (cases "\<exists>minLat minLon maxLat maxLon t mid. an_extent a = Some (minLat, minLon, maxLat, maxLon) \<and>
    cover minLat minLon maxLat maxLon = (None, t) \<and> applyNodes a t db = (Ok (), mid)")
  case True
  then obtain minLat minLon maxLat maxLon t mid where f: "an_extent a = Some (minLat, minLon, maxLat, maxLon)"
    "cover minLat minLon maxLat maxLon = (None, t)" "applyNodes a t db = (Ok (), mid)" by blast
  then have "elevation_Apply cover a db = applyGrades a mid" by (simp add: elevation_Apply_def)
  then have "db' = snd (applyGrades a mid) \<and>
      (fst (applyGrades a mid) = Ok () \<and> r = failing ElevationFailed (elevation_Summarise answered db') \<or>
       (\<exists>e. fst (applyGrades a mid) = Err e \<and> r = Err (ElevationFailed e)))"
    using assms grade_errors(2) [of a mid]
    by (cases "applyGrades a mid"; cases "fst (applyGrades a mid)") (auto simp: ingestElevation_def)
  then show ?thesis using f(3) by blast
next
  case False
  have "db' = db \<and> (\<exists>e. r = Err (ElevationFailed e) \<and> \<not> late_error (ElevationFailed e)) \<or> db' = db \<and> r = Panic"
  proof (cases "an_extent a")
    case None
    then show ?thesis using assms by (auto simp: ingestElevation_def elevation_Apply_def)
  next
    case (Some box)
    obtain minLat minLon maxLat maxLon where box: "box = (minLat, minLon, maxLat, maxLon)" by (metis surj_pair)
    obtain c t where c: "cover minLat minLon maxLat maxLon = (c, t)" by fastforce
    obtain q mid where q: "applyNodes a t db = (q, mid)" by fastforce
    show ?thesis
    proof (cases c)
      case None
      then have "q \<noteq> Ok ()" using False Some box c q by blast
      moreover from this have "mid = db" using heights.rollback [OF q] by auto
      moreover have "\<not> late_error (ElevationFailed e)" if "q = Err e" for e
        using q that node_errors [of a t db e] by simp
      ultimately show ?thesis using assms Some box c q None
        by (cases q) (auto simp: ingestElevation_def elevation_Apply_def)
    next
      case (Some e)
      then show ?thesis using assms \<open>an_extent a = Some box\<close> box c by (auto simp: ingestElevation_def elevation_Apply_def)
    qed
  qed
  then show ?thesis by auto
qed

interpretation elevation_ingest: transaction "ingestElevation cover a answered" late_error for cover a answered
proof
  fix s r s' assume run: "ingestElevation cover a answered s = (r, s')" "\<forall>x. r \<noteq> Ok x" "\<forall>e. r = Err e \<longrightarrow> \<not> late_error e"
  from ingestElevation_run [OF run(1)] show "s' = s"
  proof (elim disjE exE conjE)
    fix t mid assume "r = failing ElevationFailed (elevation_Summarise answered s')"
    then show ?thesis using run(2,3) by (cases answered) (auto simp: elevation_Summarise_def)
  next
    fix t mid e assume "fst (applyGrades a mid) = Err e" "r = Err (ElevationFailed e)"
    then show ?thesis using run(3) grade_errors(1) by blast
  qed simp
qed

interpretation scoring: transaction "scoreEdges nc nq ec select a now" late_error for nc nq ec select a now
proof
  fix s r s' assume run: "scoreEdges nc nq ec select a now s = (r, s')" "\<forall>x. r \<noteq> Ok x" "\<forall>e. r = Err e \<longrightarrow> \<not> late_error e"
  show "s' = s"
  proof (cases "graph_Load nc nq ec (select (edges_query s))")
    case (Ok g)
    obtain q t where q: "PersistLTS a now (ScoreGraph g) s = (q, t)" by fastforce
    show ?thesis
    proof (cases q)
      case (Ok u)
      then have "r = Ok (level_report (distribution_of (ScoreGraph g)))"
        using run(1) q \<open>graph_Load nc nq ec (select (edges_query s)) = Ok g\<close> by (simp add: scoreEdges_def Let_def)
      then show ?thesis using run(2) by blast
    qed (use run(1,3) q Ok persisting.rollback [OF q] in \<open>auto simp: scoreEdges_def Let_def\<close>)
  qed (use run in \<open>auto simp: scoreEdges_def\<close>)
qed

text \<open>A late error is the command's own, and comes with the state it left.\<close>

lemma perform_late:
  "perform p cfg (\<lambda>s. Some (run s)) s = Some (Err e, s', evs) \<Longrightarrow> late_error e \<Longrightarrow> run s = (Err e, s')"
  by (auto simp: perform_def withDB_def split: prod.splits outcome.splits)

lemma ingestCrashes_late:
  assumes "ingestCrashes parse served years sa serial ma near now db = (Err e, db')" and "late_error e"
  shows "\<exists>records mid. crash_Store sa serial records db = (Ok (), mid) \<and>
    (db' = mid \<or> e = CrashFailed MatchAnalyzing \<and> db' = snd (MatchToEdges ma near now mid))"
proof -
  obtain records mid where st: "crash_Store sa serial records db = (Ok (), mid)"
    and m: "failing CrashFailed (fst (MatchToEdges ma near now mid)) = Err e" "snd (MatchToEdges ma near now mid) = db'"
    using ingestCrashes_run [OF assms(1)] assms(2) by auto
  obtain x where x: "fst (MatchToEdges ma near now mid) = Err x" "e = CrashFailed x" using m(1) by (auto simp: failing_simps)
  then have run: "MatchToEdges ma near now mid = (Err x, db')" using m(2) by (metis prod.collapse)
  show ?thesis using st x(2) m(2) matching.failed_run [OF run] by blast
qed

lemma applyGrades_nodes: "g_nodes (snd (applyGrades a db)) = g_nodes db"
  by (simp add: applyGrades_def Let_def)

lemma ingestElevation_late:
  assumes "ingestElevation cover a answered db = (Err e, db')" and "late_error e"
  shows "\<exists>t mid. applyNodes a t db = (Ok (), mid) \<and> g_nodes db' = g_nodes mid"
  using ingestElevation_run [OF assms(1)] assms(2) applyGrades_nodes by auto

end
