(* ===== verification/Service.thy ===== *)
theory Service
  imports Http_Session Db_Pool Graph_Facts
begin

text \<open>
  The API process (\<open>cmd/api/main.go\<close>): the order in which it starts, what it serves from, and how it
  ends.

  The database's answers, the tables it holds at the start and the clock are parameters, the time
  between start and end is a list of requests.  The listener and the signals are a parameter too
  (\<open>stop_event\<close>); logging is left out.

  Shown here: a process that starts serves from a well-formed graph with the overlay of the hazards
  in the table, tokens outlive a restart, and the pool is closed however the process ends.
\<close>

datatype service_error = BadSettings config_error | StartPool pool_error | StartGraph load_error
  | StartHazards hazard_error | ListenFailed | ShutdownFailed

text \<open>The time limits of the listener, in seconds.\<close>

record http_limits =
  ReadHeaderTimeout :: nat
  ReadTimeout :: nat
  WriteTimeout :: nat
  IdleTimeout :: nat

definition server_limits :: http_limits where
  "server_limits = \<lparr>ReadHeaderTimeout = 5, ReadTimeout = 15, WriteTimeout = 60, IdleTimeout = 60\<rparr>"

text \<open>What the process finds when it starts: the pool, the answers to the router's queries, and the tables.\<close>

record surroundings =
  su_pool :: pool_answers
  su_nodes :: "int option"
  su_node_rows :: "node_row cursor option"
  su_edges :: "int option"
  su_edge_rows :: "edge_row cursor option"
  su_db :: Db

definition load_graph :: "surroundings \<Rightarrow> (load_error, graph) outcome" where
  "load_graph w = graph_Load (su_nodes w) (su_node_rows w) (su_edges w) (su_edge_rows w)"

text \<open>The overlay of the hazards reported before; \<open>Hazards()\<close> is the server's index.\<close>

definition load_hazards :: "env \<Rightarrow> graph \<Rightarrow> Api \<Rightarrow> (service_error, Api) outcome" where
  "load_hazards v g api =
     (case aIndex api of
        None \<Rightarrow> Panic
      | Some i \<Rightarrow>
          (case Refresh (e_scores v) (e_near v) (e_now v) g (dbHazards (aDb api)) i of
             (Ok _, i') \<Rightarrow> Ok (api\<lparr>aIndex := Some i'\<rparr>)
           | (Err e, _) \<Rightarrow> Err (StartHazards e)
           | (Panic, _) \<Rightarrow> Panic))"

text \<open>\<open>run\<close> up to the listener, after the pool is open.\<close>

definition prepare :: "surroundings \<Rightarrow> env \<Rightarrow> Config \<Rightarrow> (service_error, Api) outcome" where
  "prepare w v cfg =
     (case CheckPostGIS (su_pool w) of
        Err e \<Rightarrow> Err (StartPool e)
      | Panic \<Rightarrow> Panic
      | Ok _ \<Rightarrow>
          (case load_graph w of
             Err e \<Rightarrow> Err (StartGraph e)
           | Panic \<Rightarrow> Panic
           | Ok g \<Rightarrow> load_hazards v g (NewServer cfg True (su_db w) (Some g))))"

text \<open>How the wait after the start ends: the listener fails, or a signal arrives and the shutdown succeeds or not.\<close>

datatype stop_event = Listener_failed | Signalled bool

definition finish :: "stop_event \<Rightarrow> (service_error, unit) outcome" where
  "finish e = (case e of Listener_failed \<Rightarrow> Err ListenFailed
     | Signalled clean \<Rightarrow> if clean then Ok () else Err ShutdownFailed)"

text \<open>
  \<open>run\<close>: its result, the server after the requests it served (\<open>None\<close> where it never listened), and
  the life of the pool, which the deferred \<open>Close\<close> ends.
\<close>

definition run_service :: "(string \<Rightarrow> string) \<Rightarrow> surroundings \<Rightarrow> env \<Rightarrow> (env \<times> request) list \<Rightarrow> stop_event \<Rightarrow>
    (service_error, unit) outcome \<times> Api option \<times> pool_event list" where
  "run_service getenv w v reqs e =
     (case Load getenv of
        Inl x \<Rightarrow> (Err (BadSettings x), None, [])
      | Inr cfg \<Rightarrow>
          (case Open (su_pool w) (DatabaseURL cfg) of
             (Err x, evs) \<Rightarrow> (Err (StartPool x), None, evs)
           | (Panic, evs) \<Rightarrow> (Panic, None, evs)
           | (Ok _, evs) \<Rightarrow>
               (case prepare w v cfg of
                  Err x \<Rightarrow> (Err x, None, evs @ [Closed])
                | Panic \<Rightarrow> (Panic, None, evs @ [Closed])
                | Ok api \<Rightarrow> (finish e, Some (serve_all reqs api), evs @ [Closed]))))"

lemma run_service_life: "closed_life (snd (snd (run_service getenv w v reqs e)))"
  using Open_life [of "su_pool w" "DatabaseURL cfg" for cfg]
  by (auto simp: run_service_def Open_def closed_life_def split: sum.split outcome.split)

lemma served_from:
  assumes "run_service getenv w v reqs e = (r, Some api', evs)"
  obtains cfg api where "Load getenv = Inr cfg" "prepare w v cfg = Ok api" "api' = serve_all reqs api"
  using assms by (auto simp: run_service_def split: sum.splits prod.splits outcome.splits)

lemma loaded_ids_ok:
  assumes "graph_Load nc nq ec eq = Ok g" and "length (DBID g) \<le> 2147483648"
  shows "ids_ok g"
proof -
  obtain h where h: "buildDBIndex h = Ok g" "dbIndex h = []" "DBID h = DBID g"
    using graph_Load_index [OF assms(1)] by blast
  have len: "length (DBID g) = NumEdges g" using graph_Load_wf [OF assms(1)] by (simp add: wf_graph_def wf_arrays_def)
  have "length (DBID h) \<le> 2147483648" using assms(2) h(3) by simp
  from IndexOfDBID_sound [OF h(1,2) _ this] show ?thesis using len h(3) by (simp add: ids_ok_def)
qed

lemma prepare_Ok:
  assumes "prepare w v cfg = Ok api" and "answers_groups (e_scores v)"
    and "\<And>g. load_graph w = Ok g \<Longrightarrow> length (DBID g) \<le> 2147483648"
  shows "\<exists>g s. load_graph w = Ok g \<and> wf_graph g \<and> length s = NumEdges g \<and>
    api = (NewServer cfg True (su_db w) (Some g))\<lparr>aIndex := Some (Some s)\<rparr> \<and>
    (\<forall>e<NumEdges g. s ! e = (if IndexOfDBID g (DBID g ! e) = Some e
       then f32 (saturate (total_weight (matched (e_near v) (e_now v) (dbHazards (su_db w))) (DBID g ! e))) else 0))"
proof -
  obtain g where g: "load_graph w = Ok g" "load_hazards v g (NewServer cfg True (su_db w) (Some g)) = Ok api"
    using assms(1) by (auto simp: prepare_def split: outcome.splits)
  have ld: "graph_Load (su_nodes w) (su_node_rows w) (su_edges w) (su_edge_rows w) = Ok g"
    using g(1) by (simp add: load_graph_def)
  obtain s where "Refresh (e_scores v) (e_near v) (e_now v) g (dbHazards (su_db w)) (NewIndex (NumEdges g)) = (Ok (), Some s)"
    "length s = NumEdges g" "\<forall>e<NumEdges g. s ! e = (if IndexOfDBID g (DBID g ! e) = Some e
       then f32 (saturate (total_weight (matched (e_near v) (e_now v) (dbHazards (su_db w))) (DBID g ! e))) else 0)"
    using Refresh_answers [OF loaded_ids_ok [OF ld assms(3) [OF g(1)]] assms(2)] by blast
  moreover from this(1) have "api = (NewServer cfg True (su_db w) (Some g))\<lparr>aIndex := Some (Some s)\<rparr>"
    using g(2) by (simp add: load_hazards_def NewServer_def)
  ultimately show ?thesis using g(1) graph_Load_wf [OF ld] by blast
qed

text \<open>Who a request comes from depends on the settings only.\<close>

lemma prepare_signer: "prepare w v cfg = Ok api \<Longrightarrow> aSigner api = aSigner (NewServer cfg True (su_db w) None)"
  by (auto simp: prepare_def load_hazards_def NewServer_def split: outcome.splits option.splits prod.splits)

lemma caller_signer: "aSigner api = aSigner api' \<Longrightarrow> caller v rq api = caller v rq api'"
  by (simp add: caller_def)

lemma restart_callers:
  assumes "prepare w v cfg = Ok api" and "prepare w' v' cfg = Ok api'"
  shows "caller x rq (serve_all reqs api) = caller x rq (serve_all reqs' api')"
proof -
  have "aSigner api = aSigner api'" using prepare_signer [OF assms(1)] prepare_signer [OF assms(2)] by (simp add: NewServer_def)
  then show ?thesis
    using caller_same [OF same_server_all [of api reqs]] caller_same [OF same_server_all [of api' reqs']] caller_signer
    by metis
qed

end
