(* ===== verification/Pipeline.thy ===== *)
theory Pipeline
  imports Commands Service Ingest_Load Http_Plan
begin

text \<open>
  From a map extract to a server: the graph that the ingest builds, once its rows are in the tables
  and \<open>score-edges\<close> has run, is the graph the API process serves from, well formed, fit for the
  router's heuristic, and with the level of its own facts on every edge.
\<close>

section \<open>The rows of a built graph\<close>

lemma built_ids:
  assumes "built_ok nodes b"
  shows "map eID (Edges b) = map int [0..<length (Edges b)]"
  using assms by (intro nth_equalityI) (auto simp: built_ok_def)

lemma built_ids_nonneg: "built_ok nodes b \<Longrightarrow> e \<in> set (Edges b) \<Longrightarrow> 0 \<le> eID e"
  by (auto simp: built_ok_def in_set_conv_nth)

lemma stored_columns:
  assumes "list_all2 stores rs es"
  shows "map er_id rs = map eID es" "map er_from rs = map eFromNode es"
  using assms by (auto simp: list_all2_conv_all_nth stores_def intro!: nth_equalityI)

lemma edges_query_sorted: "sorted (map er_from (edges_query tab))"
proof -
  have "map er_from (edges_query tab) = map er_from (sort_key er_from (sort_key er_id tab))"
    by (simp add: edges_query_def edge_row.defs)
  then show ?thesis by simp
qed

lemma edges_query_mset: "mset (map er_id (edges_query tab)) = mset (map er_id tab)"
  unfolding edges_query_ids by simp

lemma stored_ids_fit:
  assumes ok: "built_ok nodes b" and size: "length (Edges b) < 2 ^ 63" and perm: "mset es = mset (Edges b)"
    and st: "list_all2 stores (edges_query tab) es"
  shows "ids_fit (map er_id tab)"
proof -
  have "mset (map er_id tab) = mset (map eID es)"
    using edges_query_mset [of tab] stored_columns(1) [OF st] by simp
  also have "\<dots> = mset (map int [0..<length (Edges b)])" using perm built_ids [OF ok] by (metis mset_map)
  finally have m: "mset (map er_id tab) = mset (map int [0..<length (Edges b)])" .
  then have "distinct (map er_id tab)" by (rule mset_eq_imp_distinct_iff [THEN iffD2]) (simp add: distinct_map)
  moreover have "set (map er_id tab) = set (map int [0..<length (Edges b)])" using m by (rule mset_eq_setD)
  ultimately show ?thesis using size by (auto simp: ids_fit_def)
qed

section \<open>The graph that is served\<close>

lemma ScoreGraph_built: "wf_graph g \<Longrightarrow> built_and_loaded b es (ScoreGraph g) = built_and_loaded b es g"
  by (simp add: ScoreGraph_eq Safety_LTS.rescored_def ComputeNodeMaxLTS_def built_and_loaded_def)

lemma rounded_nonneg: "0 \<le> v \<Longrightarrow> 0 \<le> rounded prec v"
  by (simp add: rounded_def Go_Strings.signed_def round_even_nonneg)

lemma built_map_ok:
  assumes wf: "wf_graph g" and ok: "built_ok nodes b" and perm: "mset es = mset (Edges b)"
    and bl: "built_and_loaded b es g" and size: "length (Nodes b) < 2147483648" "16 * length (Edges b) < 2147483648"
  shows "map_ok g"
proof -
  have len: "length es = length (Edges b)" using perm by (metis size_mset)
  have "0 \<le> LengthM g ! k" if "k < NumEdges g" for k
  proof -
    have k: "k < length es" using that bl by (simp add: NumEdges_def built_and_loaded_def)
    then have "es ! k \<in> set (Edges b)" using perm by (metis nth_mem set_mset_mset)
    then have "0 < eLengthM (es ! k)" using built_ok_edges [OF ok] unfolding edge_ok_def by blast
    then have "0 \<le> f32 (rounded 3 (eLengthM (es ! k)))" using rounded_nonneg f32_nonneg by simp
    then show ?thesis using bl k by (simp add: built_and_loaded_def)
  qed
  moreover have "NumEdges g = length (Edges b)" "NumNodes g = length (Nodes b)"
    using bl len by (simp_all add: built_and_loaded_def NumEdges_def NumNodes_def)
  ultimately show ?thesis using wf size by (simp add: map_ok_def)
qed

lemma loaded_index:
  assumes load: "graph_Load nc nq ec eq = Ok g" and ids: "map_ok g" "distinct (DBID g)" "\<forall>i\<in>set (DBID g). 0 \<le> i"
    and k: "k < NumEdges g"
  shows "IndexOfDBID g (DBID g ! k) = Some k"
proof -
  obtain h where h: "buildDBIndex h = Ok g" "DBID h = DBID g" using graph_Load_index [OF load] by blast
  have len: "length (DBID g) = NumEdges g" using graph_Load_wf [OF load] by (simp add: wf_graph_def wf_arrays_def)
  then have "0 \<le> DBID g ! k" "length (DBID g) \<le> 2147483648" using ids k by (auto simp: map_ok_def)
  then show ?thesis using IndexOfDBID_inverse [OF h(1), of k] h(2) ids(2) k len by simp
qed

lemma prepare_graph: "prepare w v cfg = Ok api \<Longrightarrow> \<exists>g. load_graph w = Ok g \<and> aGraph api = Some g"
  by (auto simp: prepare_def load_hazards_def NewServer_def split: outcome.splits option.splits prod.splits)

lemma served_graph:
  assumes "run_service getenv w v reqs e = (r, Some api, evs)"
  shows "\<exists>g. load_graph w = Ok g \<and> aGraph api = Some g"
proof -
  obtain cfg api0 where "prepare w v cfg = Ok api0" "api = serve_all reqs api0" using assms by (rule served_from)
  then show ?thesis using prepare_graph same_server_all [of api0 reqs] by (auto simp: same_server_def)
qed

section \<open>Concrete runs\<close>

text \<open>A database on which every statement succeeds.\<close>

definition fine_pool :: pool_answers where
  "fine_pool = \<lparr>po_parse = \<lambda>_. True, po_create = True, po_ping = True, po_postgis = True\<rparr>"

definition fine_persist :: persist_answers where
  "fine_persist = \<lparr>pa_begin = True, pa_temp = True, pa_copy = True, pa_update = True, pa_commit = True, pa_analyze = True\<rparr>"

lemma scoreEdges_fine:
  assumes "graph_Load nc nq ec (all_rows (edges_query tab)) = Ok g" and "ids_fit (map er_id tab)"
  shows "\<exists>rep tab'. scoreEdges nc nq ec all_rows fine_persist now tab = (Ok rep, tab')"
proof -
  note wf = graph_Load_wf [OF assms(1)]
  have "wf_arrays (ScoreGraph g)" using ScoreGraph_wf [OF wf] by (rule wf_facts)
  moreover have "ids_fit (DBID (ScoreGraph g))"
    using assms(2) loaded_DBID [OF assms(1)] ScoreGraph_DBID [OF wf]
    unfolding ids_fit_def edges_query_ids by (simp add: distinct_map inj_on_def)
  moreover have "\<forall>l\<in>set (LTS (ScoreGraph g)). l < 32768" using ScoreGraph_small [OF wf] by fastforce
  ultimately have "copy_levels (levels_text (ScoreGraph g)) = Some (levels (ScoreGraph g))" by (rule levels_arrive)
  then show ?thesis using assms(1) by (simp add: scoreEdges_def PersistLTS_def fine_persist_def Let_def)
qed

lemma run_service_fine:
  assumes "load_graph w = Ok g" and "su_pool w = fine_pool" and "length (DBID g) \<le> 2147483648"
    and "answers_groups (e_scores v)"
  shows "\<exists>api. run_service (\<lambda>_. []) w v [] (Signalled True) = (Ok (), Some api, [Created pool_settings, Closed])"
proof -
  obtain cfg where cfg: "Load (\<lambda>_. []) = Inr cfg" by (simp add: Load_def env_def parseLevel_def Let_def)
  have ids: "ids_ok g" using assms(1,3) loaded_ids_ok by (simp add: load_graph_def)
  obtain api where "prepare w v cfg = Ok api"
    using assms(1,2) Refresh_answers [OF ids assms(4), of "e_near v" "e_now v" "dbHazards (su_db w)" "NewIndex (NumEdges g)"]
    by (auto simp: prepare_def CheckPostGIS_def fine_pool_def load_hazards_def NewServer_def)
  then show ?thesis using cfg assms(2) by (simp add: run_service_def Open_def finish_def fine_pool_def)
qed

end
