(* ===== verification/Spec2Isabelle.thy ===== *)
theory Spec2Isabelle
  imports Example_Map Snapping Path_Geometry Components Example_Extract Example_Plan Example_Server Elevation Crash_Pressure Commands Service Pipeline
begin

text \<open>
  Viatuta plans bicycle routes that keep their riders away from traffic.  An operator's command line
  (\<open>cmd/viatuta\<close>) turns a map extract, crash records and terrain tiles into two tables,
  \<open>routing_node\<close> and \<open>routing_edge\<close>; the API process (\<open>cmd/api\<close>) loads them into a graph in memory and
  answers requests for routes, accounts, saved routes and hazard reports.  This development models
  that program, file by file, and proves what makes its parts correct and what they give together.

  \<^bold>\<open>The parts and where they are modelled\<close>

  Paths are those under \<open>src/\<close>; a definition has the name of the function it models wherever Isabelle
  allows it.

  \<^item> Vocabulary.  \<open>Prelude\<close> (results, loops that may panic, Go's integer conversions), \<open>Float32\<close> (the
    conversion to \<open>float32\<close> and its error), \<open>Go_Strings\<close> (what is used of \<open>strings\<close> and \<open>strconv\<close>),
    \<open>Transactions\<close> (the contract of an operation that writes tables).
  \<^item> \<open>internal/geo\<close>: \<open>Geo\<close>.
  \<^item> \<open>internal/graph\<close>: \<open>Road_Graph\<close> and \<open>Graph_Facts\<close> (\<open>graph.go\<close>, \<open>load.go\<close>), \<open>Components\<close>
    (\<open>components.go\<close>), \<open>Snapping\<close> (\<open>snap.go\<close>).
  \<^item> \<open>internal/routing\<close>: \<open>State_Queue\<close> and \<open>Search\<close> (\<open>search.go\<close>, \<open>workspace.go\<close>), with the theorems on
    them in \<open>Search_Sound\<close>, \<open>Search_Optimal\<close> and \<open>Search_Pool\<close>; \<open>Alternatives\<close> and \<open>Path_Geometry\<close>.
  \<^item> \<open>internal/safety\<close>: \<open>Safety_LTS\<close> (\<open>lts.go\<close>), \<open>Safety_Cost\<close> (\<open>cost.go\<close>, \<open>turn.go\<close>, \<open>profile.go\<close>,
    \<open>params.go\<close>), \<open>Safety_Report\<close> (the summaries of \<open>cost.go\<close>), \<open>Lts_Store\<close> (\<open>store.go\<close>).
  \<^item> \<open>internal/osm\<close>: \<open>Osm_Tags\<close> (\<open>tags.go\<close>, \<open>infra.go\<close>), \<open>Osm_Build\<close> (\<open>reader.go\<close>, \<open>build.go\<close>) with \<open>Osm_Scan\<close>
    and \<open>Osm_Graph\<close>, \<open>Osm_Copy\<close> (\<open>ingest.go\<close>); \<open>Ingest_Load\<close> joins the ingest to the router, and
    \<open>Pipeline\<close> joins both to the commands and the API process.
  \<^item> \<open>internal/elevation\<close>: \<open>Terrain\<close> and \<open>Terrain_Cover\<close> (\<open>terrain.go\<close>), \<open>Elevation\<close> (\<open>ingest.go\<close>).
  \<^item> \<open>internal/crash\<close>: \<open>Crash_Records\<close> (\<open>austin.go\<close> and \<open>Store\<close>), \<open>Crash_Pressure\<close> (\<open>MatchToEdges\<close>).
  \<^item> \<open>internal/hazard\<close>: \<open>Hazards\<close>.  \<open>internal/auth\<close>: \<open>Accounts\<close>.  \<open>internal/savedroute\<close>: \<open>Saved_Routes\<close>.
    \<open>internal/config\<close>: \<open>Config\<close>.  \<open>internal/store\<close>: \<open>Db_Pool\<close>.
  \<^item> \<open>internal/httpapi\<close>: \<open>Http_Text\<close>, \<open>Http_Reply\<close>, \<open>Http_Route\<close> (\<open>route_handler.go\<close>, \<open>errors.go\<close>) with
    \<open>Http_Segments\<close> and \<open>Http_Plan\<close>; \<open>Http_Api\<close> (the other handlers, the middleware and the route
    table) with \<open>Http_Session\<close>.
  \<^item> \<open>cmd/viatuta\<close>: \<open>Command_Line\<close>, \<open>Commands\<close>.  \<open>cmd/api\<close>: \<open>Service\<close>.
  \<^item> Concrete inputs on which the theorems are applied: \<open>Example_Map\<close>, \<open>Example_Extract\<close>, \<open>Example_Plan\<close>,
    \<open>Example_Server\<close>.

  \<^bold>\<open>How the code is modelled\<close>

  \<^item> A \<open>struct\<close> is a \<open>record\<close>, an enumeration a \<open>datatype\<close>, a slice a list, a map a partial function.  A
    function that returns \<open>(T, error)\<close> has an \<open>outcome\<close>: \<open>Ok\<close>, \<open>Err\<close> or \<open>Panic\<close>, where an index out of
    range panics.  A loop that may not end is \<open>None\<close> of an \<open>option\<close>.
  \<^item> Integers keep their width where it can matter (\<open>int32\<close>, \<open>int16\<close>, \<open>int8\<close>, \<open>uint8\<close> of \<open>Prelude\<close>,
    words for the pixels of \<open>Terrain\<close>); \<open>to_int64\<close> is the conversion of a \<open>float64\<close> on amd64.
  \<^item> A \<open>float64\<close> is a real number and its arithmetic is exact; a conversion to \<open>float32\<close> is rounded to
    nearest even (\<open>f32\<close>).  Texts of numbers may be infinite or not a number (\<open>float_text\<close>).
  \<^item> The order of a Go map's keys, random numbers, the clock, fresh identifiers and the contents of a
    pooled workspace are parameters; statements hold for all of them.
  \<^item> The database.  Tables are lists of rows, and each SQL statement is written out on them; a query's
    result is a \<open>cursor\<close> that may fail at the query, at a row or at its end, and every statement may
    fail.  What PostGIS computes (distances, the rows near a geometry, stored geometries) is a
    parameter.  COPY text is decoded by \<open>parse_copy\<close>, the specification the encoders are proved
    against.
  \<^item> Libraries that are not part of the repository (bcrypt, JWT, the JSON, PNG and PBF decoders, the
    HTTP client) are parameters.  What is used of them is named: \<open>bcrypt_ok\<close>, \<open>jwt_ok\<close>, \<open>postgis_ok\<close>,
    \<open>answers_groups\<close>, \<open>fair_rows\<close>, \<open>honest\<close>, \<open>selects\<close>, \<open>image_ok\<close>, \<open>join_ok\<close>; \<open>Example_Server\<close> and the
    witnesses give instances.
  \<^item> Concurrency.  The workers of \<open>Cover\<close> are a step relation (\<open>crew_step\<close>), and the theorem on them
    quantifies over its runs.  Requests are served one after another (\<open>serve_all\<close>).

  \<^bold>\<open>Interfaces\<close>

  Each contract is a locale, interpreted on the code's own operations where they are defined.

  \<^item> \<open>min_queue\<close>: the heap of \<open>State_Queue\<close> is a queue of items.
  \<^item> \<open>pseudometric\<close>: the haversine distance.
  \<^item> \<open>edge_pricing\<close> and \<open>valid_model\<close>: costs that never undercut length, for any valid profile.
  \<^item> \<open>disjoint_sets\<close>: the union-find forest keeps a partition.
  \<^item> \<open>copy_format\<close>: an encoder whose COPY text reads back, for nodes, edges, heights and levels.
  \<^item> \<open>transaction\<close>: all or nothing, for every operation that writes and for every command.
  \<^item> \<open>ending\<close>: a step relation each of whose steps lowers a number, for the workers of \<open>Cover\<close>.

  \<^bold>\<open>What is shown\<close>

  \<^item> Routing.  A search returns, and what it returns is a route that keeps to the profile and the
    budget, with its true cost; without the heuristic no free route is cheaper, with it none by more
    than a stated slack; pooled memory does not leak between searches.  Alternatives, shapes,
    snapping, components and the heap do what they promise.
  \<^item> Safety.  Levels, costs, profiles and reports are in range, monotone where that is meant, and add up.
  \<^item> Data.  The ingest cuts ways at junctions, builds exactly the edges they call for, writes them so
    that they read back, and what the router then loads is a well-formed graph fit for its heuristic.
    Levels, heights, gradients and crash scores reach the tables as computed, crash records replace
    those of their source.
  \<^item> Service.  Planned routes are rides, refusals are true, the handler always answers; accounts, tokens,
    saved routes and hazards keep their promises over whole sessions, and over a restart.
  \<^item> Commands.  They stop at the first error and leave behind what they committed, and close their pool.

  \<^bold>\<open>Bounds\<close>

  The search's loop carries its own limit (four million expansions by default) and terminates because
  every step settles a state; no fuel is used.  Graphs are those whose states fit in an \<open>int32\<close>
  (\<open>fits\<close>: edges times buckets, at most 16); the database index is proved for up to \<open>2^31\<close> edges.
  \<open>draw_pairs\<close> and \<open>chain\<close> are partial functions: the first really can go on for ever
  (\<open>draw_pairs_endless\<close>), the second is shown to end.

  \<^bold>\<open>Not modelled\<close>

  \<^item> Logging, metrics and uptime, the text of usage and of log lines, the exact columns of what the
    commands print (their numbers are the commands' results), and the timings of the benchmark.
  \<^item> The HTTP layer below the handlers: the multiplexer, body limits, JSON decoding and encoding.  A
    request names its endpoint and carries its decoded body.
  \<^item> The listener, signals and time limits beyond the order in which they act; the driver's pool.
  \<^item> NaN and infinities in \<open>float64\<close> arithmetic and its rounding; case folding and white space beyond ASCII.
  \<^item> Races: handlers run one at a time, and the hazard index's atomic pointer is a field.
\<close>

text \<open>
  C1.  Between two different nodes the search always returns, and never panics: either an error, or a path that leaves the start, arrives at the goal, is contiguous, uses only allowed edges, and whose cost and length are the sums over its edges and turns.
\<close>

theorem search_returns_a_route:
  assumes ok: "search_ok g opt" and ne: "start \<noteq> goal"
  shows "(\<exists>x. Search g pooled start goal opt = Some (Err x)) \<or>
    (\<exists>p. Search g pooled start goal opt = Some (Ok p) \<and>
      route g opt (nat start) (nat goal) (pEdges p) \<and>
      pCost p = path_cost g opt (pEdges p) \<and> pLengthM p = path_length g (pEdges p) \<and>
      pExpansions p \<le> expansion_limit opt)"
  using Search_returns [OF ok, of start goal pooled] ne found_path_route [OF ok] by blast

theorem search_returns_a_route_witness:
  "search_ok demo (demo_options (NewModel Cautious) False) \<and> (0::int) \<noteq> 2 \<and>
    ((\<exists>x. Search demo None 0 2 (demo_options (NewModel Cautious) False) = Some (Err x)) \<or>
     (\<exists>p. Search demo None 0 2 (demo_options (NewModel Cautious) False) = Some (Ok p) \<and>
        route demo (demo_options (NewModel Cautious) False) 0 2 (pEdges p)))"
  using search_returns_a_route [OF demo_ok, of 0 2 None "NewModel Cautious" False] demo_ok by auto

text \<open>
  C2.  With the heuristic off, the path that is found costs no more than any route of allowed edges within the rider's comfort, for every budget and however the budget's buckets merge states; such a route can be missed only if the expansion limit is below the number of states.
\<close>

theorem search_is_optimal:
  assumes ok: "search_ok g opt" and start: "start < NumNodes g" and ne: "start \<noteq> goal"
    and plain: "NoHeuristic opt" and floor: "cost_floor g opt"
    and rival: "free_route g opt start goal r"
  shows "(\<exists>p. Search g pooled (int start) (int goal) opt = Some (Ok p) \<and> pCost p \<le> path_cost g opt r) \<or>
    (Search g pooled (int start) (int goal) opt = Some (Err ErrUnroutable) \<and>
      expansion_limit opt < int (NumEdges g) * fst (budgetBuckets opt))"
  using Search_rival [OF ok start ne rival eps_consistent_plain [OF ok plain floor rival]] by simp

theorem search_is_optimal_witness:
  "free_route demo (demo_options (NewModel Cautious) True) 0 2 [0, 2] \<and>
   (\<exists>p. Search demo None 0 2 (demo_options (NewModel Cautious) True) = Some (Ok p) \<and>
      pCost p \<le> path_cost demo (demo_options (NewModel Cautious) True) [0, 2])"
proof -
  have "NoHeuristic (demo_options (NewModel Cautious) True)" by (simp add: demo_options_def)
  then show ?thesis
    using search_is_optimal [where pooled = None, OF demo_ok _ _ _ demo_cautious_floor demo_quiet_route]
      demo_limit demo_quiet_route by auto
qed

text \<open>
  C3.  The metres over the rider's comfort on a found route exceed the budget by at most the float32 rounding of the running total: budget / 2^24 for each over-threshold edge but the last; the total that is reported is within the same error of the true one.
\<close>

theorem search_respects_the_budget:
  assumes ok: "search_ok g opt" and ne: "start \<noteq> goal" and budget: "2 powr (- 126) \<le> BudgetM opt"
    and found: "Search g pooled start goal opt = Some (Ok p)"
    and k: "k = length (filter (is_over opt g) (pEdges p))"
  shows "(0 < k \<longrightarrow> exposure opt g (pEdges p) \<le> BudgetM opt + real (k - 1) * (BudgetM opt / 2 ^ 24)) \<and>
    (k = 0 \<longrightarrow> exposure opt g (pEdges p) = 0) \<and>
    pBudgetUsedM p \<le> f32 (BudgetM opt) \<and>
    \<bar>pBudgetUsedM p - exposure opt g (pEdges p)\<bar> \<le> real k * (BudgetM opt / 2 ^ 24)"
proof -
  from Search_returns [OF ok, of start goal pooled] ne found
  have start: "nat start < NumNodes g" and fp: "found_path g opt (nat start) (nat goal) p" by auto
  then have r: "reaches g opt (nat start) (rev (pEdges p)) (pCost p) (pBudgetUsedM p)"
    by (simp add: found_path_def)
  have len: "length (filter (is_over opt g) (rev (pEdges p))) = k" using k by (simp add: rev_filter [symmetric])
  then have "filter (is_over opt g) (rev (pEdges p)) \<noteq> [] \<longleftrightarrow> 0 < k" by (metis length_greater_0_conv)
  moreover have "k = 0 \<Longrightarrow> exposure opt g (pEdges p) = 0" using k by (simp add: exposure_def path_length_def)
  ultimately show ?thesis using reaches_exposure [OF ok start budget r] len by simp
qed

theorem search_respects_the_budget_witness:
  "\<exists>p. Search demo None 0 2 (demo_options (NewModel Cautious) True) = Some (Ok p) \<and>
     pBudgetUsedM p \<le> f32 400"
proof -
  let ?o = "demo_options (NewModel Cautious) True"
  have B: "BudgetM ?o = 400" by (simp add: demo_options_def NewModel_def Cautious_def)
  have small: "2 powr (- 126) \<le> BudgetM ?o"
    unfolding B using powr_mono [of "- 126" 0 "2::real"] by simp
  obtain p where p: "Search demo None 0 2 ?o = Some (Ok p)"
    using demo_cautious_found by blast
  then show ?thesis
    using search_respects_the_budget [OF demo_ok _ small p refl] by (auto simp: B)
qed

text \<open>
  C4.  A route that the API answers is a ride through the snapped waypoints: one leg for each pair, each a connected route of edges the profile allows (or nothing between equal nodes) that keeps to the stress budget, and the reported distance and cost are the rounded sums over the legs, the distance never above the cost.
\<close>

theorem planned_routes_are_rides:
  assumes srv: "server_ok srv wd" and reply: "handleRoutePlan srv wd body = Some (Ok (st, resp))"
  shows "st = 200 \<and> (\<exists>g req p snaps ps. accepted srv wd body g req p snaps \<and> profile_ok p \<and>
    length snaps = length (Waypoints req) \<and> length ps = length snaps - 1 \<and>
    (\<forall>k<length ps. is_leg g (plan_model srv p) (snaps ! k) (snaps ! Suc k) (ps ! k)) \<and>
    EdgeCount resp = int (length (concat (map pEdges ps))) \<and> 0 < EdgeCount resp \<and>
    rDistanceM resp = round1 (sum_list (map pLengthM ps)) \<and> Cost resp = round1 (sum_list (map pCost ps)) \<and>
    (sum_list (map pCost ps) < 10 ^ 17 \<longrightarrow> rDistanceM resp \<le> Cost resp) \<and>
    length (rAlternativesList resp) \<le> 2)"
proof -
  obtain g req p snaps where a: "accepted srv wd body g req p snaps" "map_ok g" "profile_ok p"
    and e: "rest_ends wd g (plan_model srv p) req snaps (Ok (st, resp))"
    using handler_cases [OF srv, of body] reply by auto
  obtain ps base pts offs ws alts where ps: "legs_ok g (plan_options (plan_model srv p)) snaps ps"
    "lEdges (legs_of ps) \<noteq> []" and st: "st = 200" "length alts \<le> 2" and resp:
    "resp = plan_response g (plan_model srv p) req snaps (legs_of ps) base pts offs ws alts (w_elapsed wd)"
    using e by (auto simp: rest_ends_def)
  have legs: "\<forall>k<length ps. is_leg g (plan_model srv p) (snaps ! k) (snaps ! Suc k) (ps ! k)"
    using legs_ok_nth [OF ps(1)] leg_ok_is_leg [OF a(2)] a(3) by simp
  then have "\<forall>q\<in>set ps. 0 \<le> pLengthM q \<and> pLengthM q \<le> pCost q"
    by (auto simp: in_set_conv_nth is_leg_def Let_def)
  then have "0 \<le> sum_list (map pLengthM ps)" "sum_list (map pLengthM ps) \<le> sum_list (map pCost ps)"
    by (auto intro!: sum_list_nonneg sum_list_mono)
  then show ?thesis
    using a legs st ps legs_ok_nth [OF ps(1)] snap_all_length round1_mono
    by (intro conjI exI [of _ g] exI [of _ req] exI [of _ p] exI [of _ snaps] exI [of _ ps])
      (auto simp: resp plan_response_def legs_of_def accepted_def)
qed

theorem planned_routes_are_rides_witness:
  "\<exists>resp (ps :: path list). handleRoutePlan demo_server (demo_world [0, 2]) (Inr demo_request) = Some (Ok (200, resp)) \<and>
     rDistanceM resp = round1 (sum_list (map pLengthM ps)) \<and> 0 < EdgeCount resp"
proof -
  obtain resp where r: "handleRoutePlan demo_server (demo_world [0, 2]) (Inr demo_request) = Some (Ok (200, resp))"
    using demo_planned by blast
  from planned_routes_are_rides [OF demo_server_ok r] obtain ps :: "path list" where
    "rDistanceM resp = round1 (sum_list (map pLengthM ps))" "0 < EdgeCount resp" by (elim conjE exE) simp
  then show ?thesis using r by (intro exI [of _ resp] exI [of _ ps]) simp
qed



text \<open>
  C6.  The rows of a built graph, nodes in the order of their ids and edges sorted by their source, load without error into a well-formed graph with the built nodes and edges; and with edges of at most L metres it is no shorter than the straight line but for 31 mm and the float32 rounding, as the router's heuristic needs.
\<close>

theorem ingested_graphs_route:
  assumes "b = Build res nodes" and "Edges b \<noteq> []" and "length (Nodes b) < 2147483648"
    and "mset es = mset (Edges b)" and "sorted (map eFromNode es)" and "list_all2 stores rs es"
    and "\<forall>e\<in>set es. eLengthM e \<le> L" and "1 \<le> L"
  shows "\<exists>g. graph_Load (Some (int (length (Nodes b))))
      (Some \<lparr>rows = map Some (map stored_node (Nodes b)), rows_err = False\<rparr>)
      (Some (int (length rs))) (Some \<lparr>rows = map Some rs, rows_err = False\<rparr>) = Ok g \<and>
    wf_graph g \<and> built_and_loaded b es g \<and> straight g (31 / 1000 + (L + 1) / 2 ^ 24)"
proof -
  have ok: "built_ok nodes b" using Build_ok [of nodes res] by (simp add: assms(1))
  show ?thesis
    using ingested_load [OF ok assms(2-6)] loaded_straight [OF ok assms(4) _ assms(7,8)] graph_Load_wf by blast
qed

theorem ingested_graphs_route_witness:
  "\<exists>g e. Edges (Build demo_scan demo_locs) = [e] \<and> wf_graph g \<and> DBID g = [eID e]"
proof -
  obtain e where e: "Edges (Build demo_scan demo_locs) = [e]" "eLengthM e = pi * EarthRadiusM"
    "length (Nodes (Build demo_scan demo_locs)) = 2" using demo_built by blast
  have one: "1 \<le> pi * EarthRadiusM"
    using mult_mono [of 1 pi 1 EarthRadiusM] pi_ge_two by (simp add: EarthRadiusM_def)
  have "\<exists>g. wf_graph g \<and> built_and_loaded (Build demo_scan demo_locs) [e] g"
    using ingested_graphs_route [OF refl, of demo_scan demo_locs "[e]" "[stored_edge e]" "pi * EarthRadiusM"] e one
      stored_edge_stores by auto
  then show ?thesis using e by (auto simp: built_and_loaded_def)
qed

text \<open>
  C7.  When the API refuses a trip because no route keeps to the profile, then on a map of up to a million edges some leg really has no route of allowed edges within the rider's comfort: such a route is never missed.
\<close>

theorem refusals_are_true:
  assumes srv: "server_ok srv wd" and reply: "handleRoutePlan srv wd body = Some (Err f)"
    and refusal: "Details (failure_body f) ''hint'' \<noteq> None"
  shows "\<exists>g req p snaps k. accepted srv wd body g req p snaps \<and> Suc k < length snaps \<and>
    (NumEdges g \<le> 1000000 \<longrightarrow> NodeID (snaps ! k) \<noteq> NodeID (snaps ! Suc k) \<and>
      (\<nexists>r. free_route g (plan_options (plan_model srv p)) (nat (NodeID (snaps ! k)))
         (nat (NodeID (snaps ! Suc k))) r))"
proof -
  obtain g req p snaps where a: "accepted srv wd body g req p snaps" "map_ok g" "profile_ok p"
    and e: "rest_ends wd g (plan_model srv p) req snaps (Err f)"
    using handler_cases [OF srv, of body] reply refusal by (auto simp: plain_failure_def)
  then obtain k where "Suc k < length snaps" "leg_refused (w_pool wd) g (plan_options (plan_model srv p))
      ErrUnroutable (snaps ! k) (snaps ! Suc k)"
    using refusal by (auto simp: rest_ends_def)
  then show ?thesis using a refused_no_route [OF a(2), of "plan_model srv p" "w_pool wd" "snaps ! k" "snaps ! Suc k"]
    by (intro exI [of _ g] exI [of _ req] exI [of _ p] exI [of _ snaps] exI [of _ k]) simp
qed

theorem refusals_are_true_witness:
  "\<exists>f g req p snaps. handleRoutePlan demo_server (demo_world [2, 0]) (Inr demo_request) = Some (Err f) \<and>
     accepted demo_server (demo_world [2, 0]) (Inr demo_request) g req p snaps"
  using demo_way_back refusals_are_true [OF demo_server_ok] by meson

text \<open>
  C8.  With the straight-line heuristic and its float32 cache, on a map whose edges are no shorter than the straight line less a slack and whose nodes lie within D metres of the goal, the path that is found costs at most slack + D / 2^23 per edge more than any route of allowed edges within the rider's comfort.
\<close>

theorem guided_search_is_nearly_optimal:
  assumes ok: "search_ok g opt" and start: "start < NumNodes g" and ne: "start \<noteq> goal"
    and floor: "cost_floor g opt" and map: "straight g slack"
    and near: "\<forall>n<NumNodes g. goal_dist g goal n \<le> D" and D: "1 \<le> D"
    and rival: "free_route g opt start goal r"
  shows "(\<exists>p. Search g pooled (int start) (int goal) opt = Some (Ok p) \<and>
      pCost p \<le> path_cost g opt r + real (length r) * (slack + D / 2 ^ 23)) \<or>
    (Search g pooled (int start) (int goal) opt = Some (Err ErrUnroutable) \<and>
      expansion_limit opt < int (NumEdges g) * fst (budgetBuckets opt))"
  by (rule Search_rival [OF ok start ne rival
      eps_consistent_guided [OF floor map near D search_ok_facts(1) [OF ok] rival]])

theorem guided_search_is_nearly_optimal_witness:
  "\<exists>p. Search demo None 0 2 (demo_options (NewModel Cautious) False) = Some (Ok p) \<and>
     pCost p \<le> path_cost demo (demo_options (NewModel Cautious) False) [0, 2] +
       real (length [0, 2 :: nat]) * (pi * EarthRadiusM + pi * EarthRadiusM / 2 ^ 23)"
proof -
  have "1 \<le> pi * EarthRadiusM"
    using mult_mono [of 1 pi 1 EarthRadiusM] pi_ge_two by (simp add: EarthRadiusM_def)
  moreover have "\<forall>n<NumNodes demo. goal_dist demo 2 n \<le> pi * EarthRadiusM" by (simp add: demo_reach)
  ultimately show ?thesis
    using guided_search_is_nearly_optimal [where pooled = None and D = "pi * EarthRadiusM",
        OF demo_ok _ _ demo_cautious_floor demo_straight _ _ demo_quiet_route] demo_limit
    by auto
qed

text \<open>
  C9.  The token a registration or a login answers, shown in a later request, identifies exactly its user for 24 hours and nobody before or after, whatever requests are served in between.
\<close>

theorem tokens_identify_their_user:
  assumes jwt: "jwt_ok (e_sign v) (e_parse v')"
    and session: "handleRegister v b api = ((hs, Some (Ok (st, Session t expires user))), api') \<or>
      handleLogin v lb api = ((hs, Some (Ok (st, Session t expires user))), api')"
    and token: "t \<noteq> []" "\<forall>c\<in>set t. \<not> is_space c" "uID user \<noteq> []"
    and shown: "rqAuthorization rq = ''Bearer '' @ t"
  shows "expires = e_now v + 24 * 3600 \<and> caller v' rq (serve_all reqs api') =
    (if e_now v \<le> e_now v' \<and> e_now v' < expires then Some (uID user) else None)"
proof -
  obtain sg where sg: "aSigner api' = Some sg"
    "Issue (e_sign v) (e_now v) sg (uID user) (uEmail user) = Ok (t, expires)"
    using session_token [OF session] by blast
  have "aSigner (serve_all reqs api') = Some sg" using same_server_all [of api' reqs] sg(1) by (simp add: same_server_def)
  then have "caller v' rq (serve_all reqs api') =
      (case Verify (e_parse v') (e_now v') sg t of Ok c \<Rightarrow> Some (Subject c) | _ \<Rightarrow> None)"
    using bearerToken_Bearer [OF token(1,2)] shown by (simp add: caller_def)
  moreover have "expires = e_now v + TokenTTL" using sg(2) by (auto simp: Issue_def Let_def split: option.splits)
  ultimately show ?thesis using Verify_Issue [OF jwt sg(2) token(3), of "e_now v'"] by (simp add: TokenTTL_def)
qed

theorem tokens_identify_their_user_witness:
  "\<exists>hs api'. handleRegister (demo_env 0) demo_signup demo_api =
       ((hs, Some (Ok (201, Session demo_token 86400 demo_rider))), api') \<and>
     caller (demo_env 86399) (demo_call GetMe (''Bearer '' @ demo_token)) (serve_all [] api') = Some ''u1'' \<and>
     caller (demo_env 86400) (demo_call GetMe (''Bearer '' @ demo_token)) (serve_all [] api') = None"
proof -
  obtain api' where r: "handleRegister (demo_env 0) demo_signup demo_api =
      (([], Some (Ok (201, Session demo_token 86400 demo_rider))), api')" using demo_session by blast
  have "jwt_ok (e_sign (demo_env 0)) (e_parse (demo_env now))" "uID demo_rider \<noteq> []" for now
    by (simp_all add: demo_env_def demo_jwt demo_rider_def)
  note * = tokens_identify_their_user [OF this(1) disjI1 [OF r] demo_token_plain this(2),
      of "demo_call GetMe (''Bearer '' @ demo_token)" _ "[]"]
  have now: "e_now (demo_env n) = n" for n by (simp add: demo_env_def)
  have shown: "rqAuthorization (demo_call GetMe (''Bearer '' @ demo_token)) = ''Bearer '' @ demo_token"
    by (simp add: demo_call_def)
  have "caller (demo_env n) (demo_call GetMe (''Bearer '' @ demo_token)) (serve_all [] api') =
      (if 0 \<le> n \<and> n < 86400 then Some (uID demo_rider) else None)" for n
    using conjunct2 [OF * [OF shown, of n]] unfolding now .
  from this [of 86399] this [of 86400]
  have "caller (demo_env 86399) (demo_call GetMe (''Bearer '' @ demo_token)) (serve_all [] api') = Some ''u1''"
    "caller (demo_env 86400) (demo_call GetMe (''Bearer '' @ demo_token)) (serve_all [] api') = None"
    by (simp_all del: serve_all.simps add: demo_rider_def)
  then show ?thesis using r by blast
qed

text \<open>
  C10.  Whatever requests the server serves, the saved routes of a rider whose token none of them carries are untouched, and no answer shows a saved route except to the holder of a valid token of the rider it belongs to.
\<close>

theorem saved_routes_are_private:
  assumes fair: "\<forall>(v, rq)\<in>set reqs. fair_rows v"
  shows "(\<forall>u. (\<forall>(v, rq)\<in>set reqs. caller v rq api \<noteq> Some u) \<longrightarrow>
      routes_of u (serve_all reqs api) = routes_of u api) \<and>
    (\<forall>v rq now hs st x api'. (v, rq) \<in> set reqs \<longrightarrow> Server_Handler v rq now = ((hs, Some (Ok (st, x))), api') \<longrightarrow>
      no_routes x \<or> (\<exists>u. caller v rq now = Some u \<and> own_only (routes_of u api') x))"
proof (intro conjI allI impI)
  fix u assume "\<forall>(v, rq)\<in>set reqs. caller v rq api \<noteq> Some u"
  then show "routes_of u (serve_all reqs api) = routes_of u api" using fair by (intro session_keeps) auto
next
  fix v rq now hs st x api'
  assume "(v, rq) \<in> set reqs" and s: "Server_Handler v rq now = ((hs, Some (Ok (st, x))), api')"
  then have "fair_rows v" using fair by auto
  from server_discreet [OF this, of rq now] s
  show "no_routes x \<or> (\<exists>u. caller v rq now = Some u \<and> own_only (routes_of u api') x)" by (simp add: discreet_def)
qed

theorem saved_routes_are_private_witness:
  "routes_of ''u1'' (serve_all [(demo_env 0, demo_call (DeleteRoute ''r1'') [])] demo_api) = [demo_saved]"
proof -
  have "caller (demo_env 0) (demo_call (DeleteRoute ''r1'') []) demo_api \<noteq> Some ''u1''"
    by (simp add: caller_def demo_api_def demo_call_def bearerToken_def)
  moreover have "\<forall>(v, rq)\<in>set [(demo_env 0, demo_call (DeleteRoute ''r1'') [])]. fair_rows v" by (simp add: demo_fair)
  ultimately have "routes_of ''u1'' (serve_all [(demo_env 0, demo_call (DeleteRoute ''r1'') [])] demo_api) =
      routes_of ''u1'' demo_api"
    using saved_routes_are_private [of "[(demo_env 0, demo_call (DeleteRoute ''r1'') [])]" demo_api] by simp
  then show ?thesis by (simp add: rows_of_def demo_api_def demo_saved_def)
qed

text \<open>
  C11.  However the workers' steps interleave, no run of Cover goes on for ever, and it can only stop in a return or with all eight workers gone while keys are left; fewer than eight failing tiles always end in a return, success means that every tile of the box was fetched and stored, and an error is the context's or that of a tile; but where every tile fails and there are more than eight, the producer waits for ever.
\<close>

theorem covering_ends:
  assumes start: "Cover w minLat minLon maxLat maxLon t = Inr c0" and run: "(crew_step w)\<^sup>*\<^sup>* c0 c"
    and keys: "keys = tile_keys (tlZoom t) minLat minLon maxLat maxLon"
    and bad: "bad = {k \<in> set keys. fst (fetchTile w k t) \<noteq> None}"
  shows "\<not> (\<exists>steps. steps 0 = c \<and> (\<forall>i. crew_step w (steps i) (steps (Suc i)))) \<and>
    ((\<forall>c'. \<not> crew_step w c c') \<longrightarrow> returned c \<noteq> None \<or> stuck c) \<and>
    ((\<forall>c'. \<not> crew_step w c c') \<longrightarrow> card bad < 8 \<longrightarrow> returned c \<noteq> None) \<and>
    (returned c = Some None \<longrightarrow> (\<forall>k\<in>set keys. fst (fetchTile w k t) = None \<and>
      tlTiles (shared c) k = tlTiles (snd (fetchTile w k t)) k)) \<and>
    (\<forall>e. returned c = Some (Some e) \<longrightarrow> e = Cancelled \<or> (\<exists>k\<in>set keys. fst (fetchTile w k t) = Some e)) \<and>
    (bad = set keys \<longrightarrow> 8 < length keys \<longrightarrow> \<not> src_cancel w \<longrightarrow> returned c = None)"
proof -
  have run: "(crew_step w)\<^sup>*\<^sup>* (cover_start keys t) c"
    using run start unfolding keys by (auto simp: Cover_def split: if_splits)
  have d: "distinct keys" unfolding keys by (rule tile_keys_distinct)
  have "\<not> stuck c" if "card bad < 8" using few_failures [OF run d] that bad by (simp add: workers_def)
  moreover have "returned c = None" if "bad = set keys" "8 < length keys" "\<not> src_cancel w"
    using that bad by (intro all_failures [OF run d]) (auto simp: workers_def)
  ultimately show ?thesis
    using crew.no_endless_run final_cases [OF crew_ok_run [OF run]] returned_truth [OF run d] by blast
qed

theorem covering_ends_witness:
  "\<exists>c. (crew_step \<lparr>src_request = \<lambda>_. True, src_get = \<lambda>_. Some (404, None), src_write = \<lambda>_. True,
       src_png = \<lambda>_. None, src_mkdir = True, src_cancel = False\<rparr>)\<^sup>*\<^sup>* (cover_start [(4096, 4096)] (Tiles_New Map.empty)) c \<and>
     returned c \<noteq> None"
proof -
  let ?w = "\<lparr>src_request = \<lambda>_. True, src_get = \<lambda>_. Some (404, None), src_write = \<lambda>_. True,
       src_png = \<lambda>_. None, src_mkdir = True, src_cancel = False\<rparr>" and ?t = "Tiles_New Map.empty"
  have k: "tile_keys (tlZoom ?t) 0 0 0 0 = [(4096, 4096)]"
    by (simp add: tile_keys_def tileXY_def floor_int_def to_int64_def trunc_def Tiles_New_def Zoom_def)
  then have start: "Cover ?w 0 0 0 0 ?t = Inr (cover_start [(4096, 4096)] ?t)" by (simp add: Cover_def)
  obtain c where c: "(crew_step ?w)\<^sup>*\<^sup>* (cover_start [(4096, 4096)] ?t) c" "\<forall>c'. \<not> crew_step ?w c c'"
    using crew.reaches_final [of ?w "cover_start [(4096, 4096)] ?t"] by (auto simp: crew.final_def)
  have f: "fst (fetchTile ?w k ?t) = None" for k by (simp add: fetchTile_def Tiles_New_def)
  then have bad: "{} = {k \<in> set [(4096, 4096)]. fst (fetchTile ?w k ?t) \<noteq> None}" by simp
  note all = covering_ends [OF start c(1) k [symmetric] bad]
  then have "returned c \<noteq> None" using c(2) by simp
  then show ?thesis using c(1) by blast
qed

text \<open>
  C12.  After score-edges the table loads as the scored graph, whose levels are those of the edges' own facts, although they travel as text through a temporary table; the distribution it prints is that of this graph, without unscored edges; running it again changes no row; and any failure but that of the final ANALYZE leaves the table as it was.
\<close>

theorem score_edges_reach_the_router:
  assumes run: "scoreEdges nc nq ec select a now tab = (res, tab')"
    and db: "selects select" "ids_fit (map er_id tab)"
  shows "((\<forall>rep. res \<noteq> Ok rep) \<and> res \<noteq> Err (LevelsFailed LevelsAnalyzing) \<longrightarrow> tab' = tab) \<and>
    ((\<exists>rep. res = Ok rep) \<or> res = Err (LevelsFailed LevelsAnalyzing) \<longrightarrow>
      (\<exists>g. graph_Load nc nq ec (all_rows (edges_query tab)) = Ok g \<and>
        graph_Load nc nq ec (all_rows (edges_query tab')) = Ok (ScoreGraph g) \<and> wf_graph (ScoreGraph g) \<and>
        (\<forall>e<NumEdges g. LTS (ScoreGraph g) ! e = ClassifyLTS (FactsFor g e)) \<and>
        (\<forall>rep. res = Ok rep \<longrightarrow> rep = (map (\<lambda>i. (i, length (of_level (ScoreGraph g) i),
            path_length g (of_level (ScoreGraph g) i) / 1000,
            if path_length g [0..<NumEdges g] = 0 then None
            else Some (100 * path_length g (of_level (ScoreGraph g) i) / path_length g [0..<NumEdges g]))) [1..<5], None)) \<and>
        (\<forall>select' a' now'. selects select' \<longrightarrow> snd (scoreEdges nc nq ec select' a' now' tab') = tab')))"
  using run db(1)
proof (cases rule: scoreEdges_cases)
  case not_loaded
  then show ?thesis by auto
next
  case (scored g r)
  note wf = graph_Load_wf [OF scored(1)]
  note new = persisted_levels [OF scored(1) db(2) scored(2)]
  show ?thesis
  proof (cases "r = Ok () \<or> r = Err LevelsAnalyzing")
    case True
    note load = persisted_load [OF scored(1) db(2) scored(2) True]
    have again: "snd (scoreEdges nc nq ec select' a' now' tab') = tab'" if s: "selects select'" for select' a' now'
      by (rule scored_again [OF scored(1) db(2) load _ s]) (use new True in simp)
    have "path_length (ScoreGraph g) es = path_length g es" for es by (rule path_length_scored [OF wf])
    then show ?thesis
      using True scored load again ScoreGraph_wf [OF wf] ScoreGraph_LTS [OF wf] ScoreGraph_DBID [OF wf]
        level_report_scored [of "ScoreGraph g"] scored_levels_range [OF wf]
      by auto
  next
    case False
    then show ?thesis using scored(3) new by (cases r) auto
  qed
qed

theorem score_edges_reach_the_router_witness:
  "let tab = [\<lparr>er_id = 0, er_from = 0, er_to = 1, er_length = 100, er_highway = ''primary'', er_infra = ''none'',
         er_speed = Some 45, er_lanes = None, er_lit = None, er_lts = Some 4, er_crash = None, er_grade = None,
         er_surface = ''asphalt'', er_bstart = 0, er_bend = 0, re_updated = 0\<rparr>];
       a = \<lparr>pa_begin = True, pa_temp = True, pa_copy = True, pa_update = True, pa_commit = True, pa_analyze = True\<rparr>
   in \<exists>rep tab' g. scoreEdges (Some 2) (Some demo_nodes) (Some 1) all_rows a 7 tab = (Ok rep, tab') \<and>
     graph_Load (Some 2) (Some demo_nodes) (Some 1) (all_rows (edges_query tab')) = Ok g \<and> wf_graph g"
proof -
  let ?tab = "[\<lparr>er_id = 0, er_from = 0, er_to = 1, er_length = 100, er_highway = ''primary'', er_infra = ''none'',
         er_speed = Some 45, er_lanes = None, er_lit = None, er_lts = Some 4, er_crash = None, er_grade = None,
         er_surface = ''asphalt'', er_bstart = 0, er_bend = 0, re_updated = 0\<rparr>] :: routing_edge list"
    and ?a = "\<lparr>pa_begin = True, pa_temp = True, pa_copy = True, pa_update = True, pa_commit = True, pa_analyze = True\<rparr>"
  have rows: "all_rows (edges_query ?tab) = Some demo_edges"
    by (simp add: all_rows_def edges_query_def demo_edges_def edge_row.defs)
  obtain g where g: "graph_Load (Some 2) (Some demo_nodes) (Some 1) (Some demo_edges) = Ok g" "DBID g = [0]"
    using demo_load by blast
  note wf = graph_Load_wf [OF g(1)]
  have "wf_arrays (ScoreGraph g)" using ScoreGraph_wf [OF wf] by (rule wf_facts)
  moreover have "ids_fit (DBID (ScoreGraph g))" using g(2) ScoreGraph_DBID [OF wf] by (simp add: ids_fit_def)
  moreover have "\<forall>l\<in>set (LTS (ScoreGraph g)). l < 32768" using ScoreGraph_small [OF wf] by fastforce
  ultimately have "copy_levels (levels_text (ScoreGraph g)) = Some (levels (ScoreGraph g))" by (rule levels_arrive)
  then obtain rep tab' where run: "scoreEdges (Some 2) (Some demo_nodes) (Some 1) all_rows ?a 7 ?tab = (Ok rep, tab')"
    using g(1) unfolding scoreEdges_def rows by (simp add: PersistLTS_def Let_def)
  have "selects all_rows" "ids_fit (map er_id ?tab)" by (auto simp: selects_def all_rows_def ids_fit_def)
  from score_edges_reach_the_router [OF run this] run show ?thesis unfolding Let_def by blast
qed

text \<open>
  C13.  The built graph has dense ids, one node per OSM id, and exactly the edges the segments of the ways call for in their order: none for a loop, for a clipped or zero-length segment, otherwise one per direction with the segment's shape; its length is the shape's, which is at least the straight line's.
\<close>

theorem the_built_graph_is_the_map:
  "built_ok nodes (Build res nodes) \<and>
   map (edge_core (Build res nodes)) (Edges (Build res nodes)) =
     concat (map (\<lambda>(w, s). segment_edges nodes w s) (all_segments res)) \<and>
   list_all (\<lambda>e. DistanceM (nLoc (node_at (Build res nodes) (eFromNode e))) (nLoc (node_at (Build res nodes) (eToNode e)))
      \<le> eLengthM e) (Edges (Build res nodes))"
  using Build_ok [of nodes res] built_ok_edges [of nodes "Build res nodes"] edge_not_shorter
  by (auto simp: list_all_iff)

text \<open>
  C14.  Alternatives returns the error of the first search, or the first search's route followed by at most n more; every one is a route with its true, unpenalised cost, each further one costs at most 1.6 times the first and shares at most 0.7 of its length with any route before it.
\<close>

theorem alternatives_contract:
  assumes ok: "search_ok g opt" and ne: "start \<noteq> goal"
  shows "(\<exists>x. Alternatives g pool start goal opt n = Some (Err x) \<and>
      Search g (pool maxAttempts) start goal opt = Some (Err x)) \<or>
    (\<exists>primary more. Alternatives g pool start goal opt n = Some (Ok (primary # more)) \<and>
      Search g (pool maxAttempts) start goal opt = Some (Ok primary) \<and> int (length more) \<le> max 0 n \<and>
      (\<forall>r\<in>set (primary # more). offered g opt (nat start) (nat goal) r) \<and>
      acceptable g primary (primary # more))"
  using Alternatives_returns [OF ok ne, of pool n] by blast

theorem alternatives_contract_witness:
  "search_ok demo (demo_options (NewModel Cautious) True) \<and>
   Alternatives demo (\<lambda>_. None) 0 2 (demo_options (NewModel Cautious) True) 2 \<noteq> None \<and>
   Alternatives demo (\<lambda>_. None) 0 2 (demo_options (NewModel Cautious) True) 2 \<noteq> Some Panic"
  using alternatives_contract [OF demo_ok, of 0 2 "\<lambda>_. None" "NewModel Cautious" True 2] demo_ok by auto



text \<open>
  C16.  The result of a search does not depend on the contents of the pooled workspace it is given, although one of its arrays is handed out without a reset.
\<close>

theorem search_ignores_the_pool:
  assumes "search_ok g opt"
  shows "Search g (Some w) start goal opt = Search g None start goal opt"
  by (rule Search_pool [OF assms])

theorem search_ignores_the_pool_witness:
  "let w = \<lparr>dist = [Some 1, Some 2, Some 3], usedM = replicate 20 7, prev = [1, 2, 0],
       settled = replicate 20 True, hcache = [5, 5, 5], queue = [\<lparr>state = 1, priority = 0\<rparr>]\<rparr>
   in Search demo (Some w) 0 2 (demo_options (NewModel Cautious) True) =
      Search demo None 0 2 (demo_options (NewModel Cautious) True)"
  using search_ignores_the_pool [OF demo_ok] by (simp add: Let_def)



text \<open>
  C18.  Storing fetched records replaces those of their source and nothing else: each identifier keeps its first record, records of other sources stay, identifiers stay unique and no match refers to a record that is gone; every record stored has an identifier, a severity from 0 to 4 and a position within range or not a number; and a failure changes nothing.
\<close>

theorem stored_crashes_are_the_import:
  assumes fetched: "crash_Fetch (parseRow unmarshal parse_time) built reply = Ok records"
    and db: "crash_db_ok db" "distinct (map serial [0..<length records])"
      "\<forall>n<length records. serial n \<notin> cw_id ` set (cdCrashes db)"
    and stored: "crash_Store a serial records db = (res, db')"
  shows "crash_db_ok db' \<and> (res \<noteq> Ok () \<longrightarrow> db' = db) \<and>
    (res = Ok () \<longrightarrow> (\<forall>i. record_of i db' = find (\<lambda>r. crSourceID r = i) records) \<and>
      filter (\<lambda>c. cw_source c \<noteq> source_name) (cdCrashes db') = filter (\<lambda>c. cw_source c \<noteq> source_name) (cdCrashes db)) \<and>
    (\<forall>r\<in>set records. position_ok 90 (crLat r) \<and> position_ok 180 (crLon r) \<and> crSourceID r \<noteq> [] \<and> crSeverity r \<le> 4)"
proof -
  have "crash_db_ok db'" using crash_Store_ok [OF db, of a] stored by simp
  moreover have "res \<noteq> Ok () \<longrightarrow> db' = db"
    using stored by (cases a serial records db rule: crash_Store_cases) auto
  moreover have "\<forall>r\<in>set records. position_ok 90 (crLat r) \<and> position_ok 180 (crLon r) \<and> crSourceID r \<noteq> [] \<and> crSeverity r \<le> 4"
    using fetched parseRow_Some
    by (auto simp: crash_Fetch_def usable_rows_filter set_map_filter split: option.splits if_splits)
  ultimately show ?thesis using crash_Store_records [of a serial records db _ db'] stored by blast
qed

theorem stored_crashes_are_the_import_witness:
  "\<exists>records db'. crash_Fetch (parseRow (\<lambda>_. Some \<lparr>soCrisCrashID = ''17'', soCaseID = [], soLatitude = Some ''\"nan\"'',
         soLongitude = Some ''\"nan\"'', soTimestamp = [], soDeathCnt = None, soSusSeriousInjry = None,
         soNonIncapInjry = None, soPossInjry = None\<rparr>) (\<lambda>_ _. Some 0)) True (Some (200, Some [[]])) = Ok records \<and>
     crash_Store \<lparr>sa_begin = True, sa_clear = True, sa_stage = True, sa_copy = True, sa_insert = True, sa_commit = True\<rparr>
       int records \<lparr>cdCrashes = [], cdMatches = [], cdEdges = []\<rparr> = (Ok (), db') \<and>
     map_option crLat (record_of ''17'' db') = Some NaN"
proof -
  let ?row = "\<lparr>soCrisCrashID = ''17'', soCaseID = [], soLatitude = Some ''\"nan\"'', soLongitude = Some ''\"nan\"'',
         soTimestamp = [], soDeathCnt = None, soSusSeriousInjry = None, soNonIncapInjry = None, soPossInjry = None\<rparr>"
  let ?r = "\<lparr>crSourceID = ''17'', crLat = NaN, crLon = NaN, crOccurred = 0, crSeverity = 0, crRaw = []\<rparr>"
  have nan: "flexFloat (Some ''\"nan\"'') = NaN" by code_simp
  have zero: "flexInt None = 0" by (simp add: flexInt_def flexFloat_def to_int64_def trunc_def)
  have "TrimSpace ''17'' = ''17''" by code_simp
  then have "parseRow (\<lambda>_. Some ?row) (\<lambda>_ _. Some 0) [] = Some ?r"
    by (simp add: parseRow_def nan unusable_def crash_time_def severityFrom_def zero Let_def)
  then have f: "crash_Fetch (parseRow (\<lambda>_. Some ?row) (\<lambda>_ _. Some 0)) True (Some (200, Some [[]])) = Ok [?r]"
    by (simp add: crash_Fetch_def)
  let ?db = "\<lparr>cdCrashes = [], cdMatches = [], cdEdges = []\<rparr> :: crash_db"
  let ?a = "\<lparr>sa_begin = True, sa_clear = True, sa_stage = True, sa_copy = True, sa_insert = True, sa_commit = True\<rparr>"
  obtain db' where s: "crash_Store ?a int [?r] ?db = (Ok (), db')" by (simp add: crash_Store_def Let_def)
  have "crash_db_ok ?db" "distinct (map int [0..<length [?r]])" "\<forall>n<length [?r]. int n \<notin> cw_id ` set (cdCrashes ?db)"
    by (simp_all add: crash_db_ok_def)
  from stored_crashes_are_the_import [OF f this s] f s show ?thesis by auto
qed

text \<open>
  C19.  Matching either changes nothing or gives every edge the saturated sum of what each cyclist's crash near it contributes, a number in [0, 1] that is 0 without such a crash and that further crashes never lower.
\<close>

theorem crash_scores_are_pressures:
  assumes cs: "crashes_ok (cdCrashes db)" "join_ok near" "\<forall>e\<in>set (cdEdges db). 0 \<le> se_score e"
    and matched: "MatchToEdges a near now db = (res, db')"
  shows "(res \<noteq> Ok () \<and> res \<noteq> Err MatchAnalyzing \<longrightarrow> db' = db) \<and>
    (res = Ok () \<or> res = Err MatchAnalyzing \<longrightarrow>
      map se_id (cdEdges db') = map se_id (cdEdges db) \<and>
      map se_score (cdEdges db') = map (crash_score now near (cdCrashes db)) (cdEdges db)) \<and>
    (\<forall>e. 0 \<le> crash_score now near (cdCrashes db) e \<and> crash_score now near (cdCrashes db) e \<le> 1 \<and>
      (\<not> is_matched (join_matches near (cdCrashes db)) e \<longrightarrow> crash_score now near (cdCrashes db) e = 0) \<and>
      (\<forall>cs'. crashes_ok cs' \<longrightarrow> mset (cdCrashes db) \<subseteq># mset cs' \<longrightarrow>
        crash_score now near (cdCrashes db) e \<le> crash_score now near cs' e))"
proof -
  have "(res \<noteq> Ok () \<and> res \<noteq> Err MatchAnalyzing \<longrightarrow> db' = db) \<and>
    (res = Ok () \<or> res = Err MatchAnalyzing \<longrightarrow> map se_id (cdEdges db') = map se_id (cdEdges db) \<and>
      map se_score (cdEdges db') = map (crash_score now near (cdCrashes db)) (cdEdges db))"
    using matched
  proof (cases a near now db rule: MatchToEdges_cases)
    case (failed e)
    then show ?thesis using matched by auto
  next
    case (matched r)
    then show ?thesis using \<open>MatchToEdges a near now db = (res, db')\<close> cs rescored_score [OF cs(1,2)] by auto
  qed
  then show ?thesis using crash_score_range [OF cs(1,2)] unmatched_zero [OF cs(1,2)] crash_score_mono [OF cs(1) _ cs(2)]
    by blast
qed

theorem crash_scores_are_pressures_witness:
  "\<exists>db'. MatchToEdges \<lparr>ma_begin = True, ma_clear = True, ma_join = True, ma_pressure = True, ma_reset = True,
         ma_commit = True, ma_analyze = False\<rparr> (\<lambda>c. [(5, 3)]) 0
       \<lparr>cdCrashes = [\<lparr>cw_id = 1, cw_source = source_name, cw_record = \<lparr>crSourceID = ''17'', crLat = Fin 30, crLon = Fin 97,
           crOccurred = 0, crSeverity = 4, crRaw = []\<rparr>, cw_cyclist = True\<rparr>], cdMatches = [],
         cdEdges = [\<lparr>se_id = 6, se_length = 80, se_infra = ''none'', se_score = 1\<rparr>]\<rparr> = (Err MatchAnalyzing, db') \<and>
     map se_score (cdEdges db') = [0]"
proof -
  let ?a = "\<lparr>ma_begin = True, ma_clear = True, ma_join = True, ma_pressure = True, ma_reset = True,
         ma_commit = True, ma_analyze = False\<rparr>" and ?near = "\<lambda>c. [(5, 3)]"
  let ?cs = "[\<lparr>cw_id = 1, cw_source = source_name, cw_record = \<lparr>crSourceID = ''17'', crLat = Fin 30, crLon = Fin 97,
           crOccurred = 0, crSeverity = 4, crRaw = []\<rparr>, cw_cyclist = True\<rparr>]"
  let ?e = "\<lparr>se_id = 6, se_length = 80, se_infra = ''none'', se_score = 1\<rparr>"
  let ?db = "\<lparr>cdCrashes = ?cs, cdMatches = [], cdEdges = [?e]\<rparr>"
  obtain db' where m: "MatchToEdges ?a ?near 0 ?db = (Err MatchAnalyzing, db')"
    by (simp add: MatchToEdges_def Let_def)
  have ok: "crashes_ok (cdCrashes ?db)" "join_ok ?near" "\<forall>e\<in>set (cdEdges ?db). 0 \<le> se_score e"
    by (simp_all add: crashes_ok_def join_ok_def)
  have no: "\<not> is_matched (join_matches ?near (cdCrashes ?db)) ?e"
    by (simp add: is_matched_def join_matches_def insert_new_def)
  note all = crash_scores_are_pressures [OF ok m]
  have zero: "crash_score 0 ?near ?cs ?e = 0"     using conjunct1 [OF conjunct2 [OF conjunct2 [OF spec [OF conjunct2 [OF conjunct2 [OF all]], of ?e]]]] no
    unfolding crash_db.select_convs by (rule mp)
  have "map se_score (cdEdges db') = map (crash_score 0 ?near (cdCrashes ?db)) (cdEdges ?db)"
    by (rule conjunct2 [OF mp [OF conjunct1 [OF conjunct2 [OF all]] disjI2 [OF refl]]])
  then have "map se_score (cdEdges db') = [0]" unfolding crash_db.select_convs list.map zero .
  with m show ?thesis by (intro exI conjI)
qed



text \<open>
  C21.  A process that gets as far as serving loaded a well-formed graph and, before its first request, routes around the hazards in the table with the same scores as a running server; the tokens of an earlier process with the same settings identify the same riders; and however it ends, the pool it opened is closed once.
\<close>

theorem the_service_restarts:
  assumes run: "run_service getenv w v reqs e = (r, Some api, evs)" and db: "answers_groups (e_scores v)"
    and small: "\<And>g. load_graph w = Ok g \<Longrightarrow> length (DBID g) \<le> 2147483648"
  shows "(\<exists>g s. load_graph w = Ok g \<and> wf_graph g \<and> aGraph api = Some g \<and> length s = NumEdges g \<and>
      (reqs = [] \<longrightarrow> aDb api = su_db w \<and> sHazards (plan_server api) = Some s) \<and>
      (\<forall>k<NumEdges g. s ! k = (if IndexOfDBID g (DBID g ! k) = Some k
        then f32 (saturate (total_weight (matched (e_near v) (e_now v) (dbHazards (su_db w))) (DBID g ! k))) else 0))) \<and>
    (\<forall>w' v' reqs' e' r' api' evs'. run_service getenv w' v' reqs' e' = (r', Some api', evs') \<longrightarrow>
      (\<forall>x rq. caller x rq api' = caller x rq api)) \<and>
    evs = [Created pool_settings, Closed] \<and>
    (\<forall>getenv w v reqs e. closed_life (snd (snd (run_service getenv w v reqs e))))"
proof -
  obtain cfg api0 where 0: "Load getenv = Inr cfg" "prepare w v cfg = Ok api0" "api = serve_all reqs api0"
    using run by (rule served_from)
  obtain g s where g: "load_graph w = Ok g" "wf_graph g" "length s = NumEdges g"
    "api0 = (NewServer cfg True (su_db w) (Some g))\<lparr>aIndex := Some (Some s)\<rparr>"
    "\<forall>k<NumEdges g. s ! k = (if IndexOfDBID g (DBID g ! k) = Some k
        then f32 (saturate (total_weight (matched (e_near v) (e_now v) (dbHazards (su_db w))) (DBID g ! k))) else 0)"
    using prepare_Ok [OF 0(2) db small] by blast
  have "aGraph api = Some g" using same_server_all [of api0 reqs] 0(3) g(4) by (simp add: same_server_def NewServer_def)
  moreover have "reqs = [] \<longrightarrow> aDb api = su_db w \<and> sHazards (plan_server api) = Some s"
    using 0(3) g(4) by (simp add: NewServer_def plan_server_def hazard_scores_def Snapshot_def)
  moreover have "caller x rq api' = caller x rq api"
    if "run_service getenv w' v' reqs' e' = (r', Some api', evs')" for w' v' reqs' e' r' api' evs' x rq
    using that by (rule served_from) (use restart_callers [OF _ 0(2)] 0 in simp)
  moreover have "evs = [Created pool_settings, Closed]"
    using run by (auto simp: run_service_def Open_def split: sum.splits outcome.splits if_splits)
  ultimately show ?thesis using g run_service_life by blast
qed

theorem the_service_restarts_witness:
  "let w = \<lparr>su_pool = \<lparr>po_parse = \<lambda>_. True, po_create = True, po_ping = True, po_postgis = True\<rparr>, su_nodes = Some 2,
         su_node_rows = Some demo_nodes, su_edges = Some 1, su_edge_rows = Some demo_edges,
         su_db = \<lparr>dbAccounts = [], dbRoutes = [], dbHazards = []\<rparr>\<rparr>
   in \<exists>api s. run_service (\<lambda>_. []) w (demo_env 0) [] (Signalled True) =
       (Ok (), Some api, [Created pool_settings, Closed]) \<and> sHazards (plan_server api) = Some s"
proof -
  let ?w = "\<lparr>su_pool = \<lparr>po_parse = \<lambda>_. True, po_create = True, po_ping = True, po_postgis = True\<rparr>, su_nodes = Some 2,
         su_node_rows = Some demo_nodes, su_edges = Some 1, su_edge_rows = Some demo_edges,
         su_db = \<lparr>dbAccounts = [], dbRoutes = [], dbHazards = []\<rparr>\<rparr>"
  obtain g where g: "graph_Load (Some 2) (Some demo_nodes) (Some 1) (Some demo_edges) = Ok g" "DBID g = [0]"
    using demo_load by blast
  have load: "load_graph ?w = Ok g" using g(1) by (simp add: load_graph_def)
  then have small: "length (DBID h) \<le> 2147483648" if "load_graph ?w = Ok h" for h using that g(2) by simp
  have ids: "ids_ok g" by (rule loaded_ids_ok [OF g(1)]) (simp add: g(2))
  obtain cfg where cfg: "Load (\<lambda>_. []) = Inr cfg" by (simp add: Load_def env_def parseLevel_def Let_def)
  obtain api where api: "prepare ?w (demo_env 0) cfg = Ok api"
    using load Refresh_answers [OF ids demo_answers, of 0 "e_near (demo_env 0)" 0 "[]" "NewIndex (NumEdges g)"]
    by (auto simp: prepare_def CheckPostGIS_def load_hazards_def NewServer_def demo_env_def)
  then have run: "run_service (\<lambda>_. []) ?w (demo_env 0) [] (Signalled True) =
      (Ok (), Some api, [Created pool_settings, Closed])"
    using cfg by (simp add: run_service_def Open_def finish_def)
  show ?thesis using the_service_restarts [OF run demo_answers small] run unfolding Let_def by blast
qed

text \<open>
  C22.  A command that fails before its first commit leaves the tables as they were; one that fails later leaves what it committed: the new graph, the new crash records with their old or new scores, or the new heights; and every command closes the pool it opened, once.
\<close>

theorem commands_fail_cleanly:
  shows "(perform p cfg (\<lambda>s. Some (ingestOSM found ways nodes a nc et s)) s1 = Some (Err e, t1, evs) \<longrightarrow>
      (\<not> late_error e \<longrightarrow> t1 = s1) \<and> (late_error e \<longrightarrow> (\<exists>scan locs. ScanWays ways = Ok scan \<and> ScanNodes nodes scan = Ok locs \<and>
        t1 = (nodes_text (Nodes (Build scan locs)), edges_text (Edges (Build scan locs)))))) \<and>
    (perform p cfg (\<lambda>s. Some (ingestCrashes parse served years sa serial ma near now s)) s2 = Some (Err e, t2, evs) \<longrightarrow>
      (\<not> late_error e \<longrightarrow> t2 = s2) \<and> (late_error e \<longrightarrow> (\<exists>records mid. crash_Store sa serial records s2 = (Ok (), mid) \<and>
        (t2 = mid \<or> e = CrashFailed MatchAnalyzing \<and> t2 = snd (MatchToEdges ma near now mid))))) \<and>
    (perform p cfg (\<lambda>s. Some (ingestElevation cover ga answered s)) s3 = Some (Err e, t3, evs) \<longrightarrow>
      (\<not> late_error e \<longrightarrow> t3 = s3) \<and> (late_error e \<longrightarrow> (\<exists>t mid. applyNodes ga t s3 = (Ok (), mid) \<and> g_nodes t3 = g_nodes mid))) \<and>
    (perform p cfg (\<lambda>s. Some (scoreEdges nc' nq ec select pa now s)) s4 = Some (Err e, t4, evs) \<longrightarrow>
      \<not> late_error e \<longrightarrow> t4 = s4) \<and>
    (perform p cfg body s5 = Some (r, t5, evs') \<longrightarrow> closed_life evs')"
proof (intro conjI impI)
  assume "perform p cfg (\<lambda>s. Some (ingestOSM found ways nodes a nc et s)) s1 = Some (Err e, t1, evs)" "\<not> late_error e"
  then show "t1 = s1" unfolding perform_def by (rule osm_ingest.withDB_failed)
next
  assume "perform p cfg (\<lambda>s. Some (ingestOSM found ways nodes a nc et s)) s1 = Some (Err e, t1, evs)" "late_error e"
  then have "ingestOSM found ways nodes a nc et s1 = (Err e, t1)" and late: "late_error e" by (rule perform_late, simp)
  from ingestOSM_run [OF this(1)] late show "\<exists>scan locs. ScanWays ways = Ok scan \<and> ScanNodes nodes scan = Ok locs \<and>
      t1 = (nodes_text (Nodes (Build scan locs)), edges_text (Edges (Build scan locs)))"
    by auto
next
  assume "perform p cfg (\<lambda>s. Some (ingestCrashes parse served years sa serial ma near now s)) s2 = Some (Err e, t2, evs)"
    "\<not> late_error e"
  then show "t2 = s2" unfolding perform_def by (rule crash_ingest.withDB_failed)
next
  assume "perform p cfg (\<lambda>s. Some (ingestCrashes parse served years sa serial ma near now s)) s2 = Some (Err e, t2, evs)"
    "late_error e"
  then have "ingestCrashes parse served years sa serial ma near now s2 = (Err e, t2)" "late_error e"
    by (rule perform_late, simp)
  then show "\<exists>records mid. crash_Store sa serial records s2 = (Ok (), mid) \<and>
      (t2 = mid \<or> e = CrashFailed MatchAnalyzing \<and> t2 = snd (MatchToEdges ma near now mid))"
    by (rule ingestCrashes_late)
next
  assume "perform p cfg (\<lambda>s. Some (ingestElevation cover ga answered s)) s3 = Some (Err e, t3, evs)" "\<not> late_error e"
  then show "t3 = s3" unfolding perform_def by (rule elevation_ingest.withDB_failed)
next
  assume "perform p cfg (\<lambda>s. Some (ingestElevation cover ga answered s)) s3 = Some (Err e, t3, evs)" "late_error e"
  then have "ingestElevation cover ga answered s3 = (Err e, t3)" "late_error e" by (rule perform_late, simp)
  then show "\<exists>t mid. applyNodes ga t s3 = (Ok (), mid) \<and> g_nodes t3 = g_nodes mid"
    by (rule ingestElevation_late)
next
  assume "perform p cfg (\<lambda>s. Some (scoreEdges nc' nq ec select pa now s)) s4 = Some (Err e, t4, evs)" "\<not> late_error e"
  then show "t4 = s4" unfolding perform_def by (rule scoring.withDB_failed)
next
  assume "perform p cfg body s5 = Some (r, t5, evs')"
  then show "closed_life evs'" by (rule perform_life)
qed

theorem commands_fail_cleanly_witness:
  "let p = \<lparr>po_parse = \<lambda>_. True, po_create = True, po_ping = True, po_postgis = True\<rparr>;
       cfg = \<lparr>Addr = [], DatabaseURL = ''db'', Env = [], LogLevel = LevelInfo, JWTSecret = [], ShutdownTimeout = 15\<rparr>;
       a = \<lparr>a_begin = True, a_truncate = True, a_copy_nodes = \<lambda>_. None, a_copy_edges = \<lambda>_. None, a_commit = True, a_analyze = True\<rparr>
   in \<exists>t evs. perform p cfg (\<lambda>s. Some (ingestOSM False None None a None None s)) (''n'', ''e'') = Some (Err NoExtract, t, evs) \<and>
     t = (''n'', ''e'')"
proof -
  let ?p = "\<lparr>po_parse = \<lambda>_. True, po_create = True, po_ping = True, po_postgis = True\<rparr>"
    and ?cfg = "\<lparr>Addr = [], DatabaseURL = ''db'', Env = [], LogLevel = LevelInfo, JWTSecret = [], ShutdownTimeout = 15\<rparr>"
    and ?a = "\<lparr>a_begin = True, a_truncate = True, a_copy_nodes = \<lambda>_. None, a_copy_edges = \<lambda>_. None, a_commit = True, a_analyze = True\<rparr>"
  obtain t evs where run: "perform ?p ?cfg (\<lambda>s. Some (ingestOSM False None None ?a None None s)) (''n'', ''e'') =
      Some (Err NoExtract, t, evs)"
    by (simp add: perform_def withDB_def Open_def ingestOSM_def)
  have "t = (''n'', ''e'')" using conjunct1 [OF commands_fail_cleanly, rule_format, OF run] by simp
  with run show ?thesis unfolding Let_def by blast
qed

text \<open>
  C23.  What the ingest sends in the COPY format decodes to the fields of its nodes and edges, one row each, whatever tabs, newlines or backslashes their names hold; absent values decode to NULL, and a number reads back as the value it was rounded to.
\<close>

theorem copied_rows_read_back:
  "parse_copy (nodes_text ns) = map node_fields ns \<and> parse_copy (edges_text es) = map edge_fields es \<and>
   (\<bar>v\<bar> < 10 ^ 300 \<longrightarrow> ParseFloat (FormatFloat v prec) = Some (Fin (rounded prec v)) \<and>
      \<bar>rounded prec v - v\<bar> \<le> 1 / (2 * 10 ^ prec))"
  using copy_round_trip ParseFloat_FormatFloat rounded_error by blast

theorem copied_rows_read_back_witness:
  "ParseFloat (FormatFloat (- 977431 / 10000) coordPrecision) = Some (Fin (rounded coordPrecision (- 977431 / 10000)))"
  using copied_rows_read_back [of "[]" "[]" "- 977431 / 10000" coordPrecision] by simp

text \<open>
  C24.  The runs a route is drawn in join up from the first point of its line to the last, none is empty, neighbours differ in stress or facility, every edge that draws anything lies in a run of its own stress and facility, and the runs' lengths add up to those of the edges from the first drawn one on, to 0.05 m a run.
\<close>

theorem segments_tile_the_line:
  assumes offs: "sorted offs" "length offs = length edges + 1" and ne: "edges \<noteq> []"
    and small: "\<forall>r\<in>set (raw_segments g edges offs). 0 \<le> segLengthM r \<and> segLengthM r < 10 ^ 17"
  shows "(buildSegments g edges offs = [] \<longrightarrow> hd offs = last offs) \<and>
    (buildSegments g edges offs \<noteq> [] \<longrightarrow> segStart (hd (buildSegments g edges offs)) = hd offs \<and>
       segEnd (last (buildSegments g edges offs)) = last offs) \<and>
    successively (\<lambda>a b. segEnd a = segStart b \<and> (segLTS a, segInfra a) \<noteq> (segLTS b, segInfra b))
      (buildSegments g edges offs) \<and>
    (\<forall>r\<in>set (buildSegments g edges offs). segStart r < segEnd r) \<and>
    (\<forall>i<length edges. offs ! i < offs ! Suc i \<longrightarrow> (\<exists>r\<in>set (buildSegments g edges offs).
       segStart r \<le> offs ! i \<and> offs ! Suc i \<le> segEnd r \<and> segLTS r = LTS g ! (edges ! i) \<and>
       segInfra r = infra_String (Infra g ! (edges ! i)))) \<and>
    \<bar>sum_list (map segLengthM (buildSegments g edges offs)) - drawn_length g (edge_spans edges offs)\<bar>
      \<le> real (length (buildSegments g edges offs)) / 20"
proof -
  let ?raw = "raw_segments g edges offs"
  have b: "buildSegments g edges offs = map (\<lambda>s. s\<lparr>segLengthM := round1 (segLengthM s)\<rparr>) ?raw"
    using offs(2) ne by (simp add: buildSegments_def)
  note t = raw_segments_tiled [OF offs, of g]
  note r = rounded_segments [OF t, where f = round1, folded b]
  have "sum_list (map segLengthM ?raw) = drawn_length g (edge_spans edges offs)" using t by (simp add: tiled_def)
  then have "\<bar>sum_list (map segLengthM (buildSegments g edges offs)) - drawn_length g (edge_spans edges offs)\<bar>
      \<le> real (length (buildSegments g edges offs)) / 20"
    using rounded_sum [of "map segLengthM ?raw"] small by (simp add: b o_def)
  moreover have "successively (\<lambda>a b. segEnd a = segStart b \<and> (segLTS a, segInfra a) \<noteq> (segLTS b, segInfra b))
      (buildSegments g edges offs)"
    using r(2) by (rule successively_mono) (auto simp: joins_def same_run_def)
  moreover have "\<forall>i<length edges. offs ! i < offs ! Suc i \<longrightarrow> (\<exists>r\<in>set (buildSegments g edges offs).
       segStart r \<le> offs ! i \<and> offs ! Suc i \<le> segEnd r \<and> segLTS r = LTS g ! (edges ! i) \<and>
       segInfra r = infra_String (Infra g ! (edges ! i)))"
    using r(4) [OF edge_spans_nth [OF offs(2)]] by (fastforce simp: drawn_in_def)
  ultimately show ?thesis using r(1,3) by blast
qed

theorem segments_tile_the_line_witness:
  "\<exists>r\<in>set (buildSegments demo [0, 1, 2] [0, 3, 3, 5]). segStart r \<le> 3 \<and> 5 \<le> segEnd r \<and> segLTS r = 1"
proof -
  have "\<forall>r\<in>set (raw_segments demo [0, 1, 2] [0, 3, 3, 5]). 0 \<le> segLengthM r \<and> segLengthM r < 10 ^ 17"
    by (simp add: raw_segments_def edge_spans_def seg_step_def demo_def Let_def)
  moreover have "sorted [0, 3, 3, 5::int]" "length [0, 3, 3, 5::int] = length [0, 1, 2::nat] + 1" "[0, 1, 2::nat] \<noteq> []"
    by simp_all
  ultimately have "\<forall>i<length [0, 1, 2::nat].
      [0, 3, 3, 5] ! i < [0, 3, 3, 5::int] ! Suc i \<longrightarrow>
      (\<exists>r\<in>set (buildSegments demo [0, 1, 2] [0, 3, 3, 5]). segStart r \<le> [0, 3, 3, 5] ! i \<and>
         [0, 3, 3, 5] ! Suc i \<le> segEnd r \<and> segLTS r = LTS demo ! ([0, 1, 2] ! i) \<and>
         segInfra r = infra_String (Infra demo ! ([0, 1, 2] ! i)))"
    using segments_tile_the_line [of "[0, 3, 3, 5]" "[0, 1, 2]" demo] by blast
  from spec [OF this, of 2] have "\<exists>r\<in>set (buildSegments demo [0, 1, 2] [0, 3, 3, 5]).
      segStart r \<le> 3 \<and> 5 \<le> segEnd r \<and> segLTS r = LTS demo ! 2"
    by (simp add: numeral_2_eq_2) blast
  then show ?thesis by (simp add: demo_def)
qed

text \<open>
  C25.  After a registration the rider logs in with that password and no other, however the address is capitalised, everybody else's login answers as it did before, no two accounts of the table share an address, and a second registration of the address changes nothing.
\<close>

theorem registered_accounts_log_in:
  assumes tab: "accounts_ok tab"
    and reg: "Register generate fault newid now email password name tab = (Ok u, tab')"
    and lib: "bcrypt_ok generate matches" "plain_password password" "plain_password attempt"
  shows "accounts_ok tab' \<and> (\<forall>email'. NormaliseEmail email' = NormaliseEmail email \<longrightarrow>
      Authenticate matches False email' attempt tab' =
        (if attempt = password then Ok u else Err ErrInvalidCredentials) \<and>
      snd (Register generate f' i' t' email' p' n' tab') = tab') \<and>
    (\<forall>email'. NormaliseEmail email' \<noteq> NormaliseEmail email \<longrightarrow>
      Authenticate matches f' email' attempt tab' = Authenticate matches f' email' attempt tab)"
proof -
  have "accounts_ok tab'" using Register_ok [OF tab, of generate fault newid now email password name] reg by simp
  then show ?thesis
    using Authenticate_registered [OF reg lib] Authenticate_others [OF reg] Register_again [OF reg] by blast
qed

theorem registered_accounts_log_in_witness:
  "Authenticate demo_matches False '' Rider@Example.org'' ''correct horse''
     (snd (Register demo_generate False ''u1'' 0 ''rider@example.org'' ''correct horse'' [] [])) = Ok demo_rider"
proof -
  have "plain_password ''correct horse''" "accounts_ok []" by (simp_all add: plain_password_def accounts_ok_def)
  from registered_accounts_log_in [OF this(2) demo_register demo_bcrypt this(1,1)]
  show ?thesis by (simp add: demo_text demo_register)
qed

text \<open>
  C26.  A stored route is read back by its owner with its name, profile and numbers as stored and its points to seven decimals, is unknown to everybody else, who cannot delete it either, and is gone once its owner deletes it.
\<close>

theorem saved_routes_come_back:
  assumes made: "Create postgis fault newid now u i tab = (Ok r, tab')"
    and lib: "postgis_ok postgis coords" and fresh: "\<forall>r\<in>set tab. sv_id r \<noteq> newid"
    and pts: "inWaypoints i \<noteq> []" "inGeometry i \<noteq> []" "\<forall>p\<in>set (inWaypoints i @ inGeometry i). small_point p"
  shows "(\<exists>r'. Get coords False u newid tab' = Ok r' \<and> rtID r' = newid \<and> rtName r' = inName i \<and>
      rtProfile r' = inProfile i \<and> rtDistanceM r' = inDistanceM i \<and> rtDurationS r' = Some (inDurationS i) \<and>
      rtSafetyScore r' = Some (f32 (inSafetyScore i)) \<and> rtCreatedAt r' = now \<and>
      rtWaypoints r' = map point7 (inWaypoints i) \<and> rtGeometry r' = map point7 (inGeometry i)) \<and>
    (\<forall>w. w \<noteq> u \<longrightarrow> Get coords False w newid tab' = Err ErrNotFound \<and>
      Delete False w newid tab' = (Some ErrNotFound, tab')) \<and>
    Delete False u newid tab' = (None, tab) \<and> Get coords False u newid tab = Err ErrNotFound"
proof -
  obtain row where row: "tab' = tab @ [row]" "sv_id row = newid" "sv_user row = u"
    using made by (cases postgis fault newid now u i tab rule: Create_cases) auto
  have "Delete False u newid tab' = (None, tab)"
    using row fresh by (auto simp: Delete_def Let_def filter_id_conv)
  moreover have "\<forall>w. w \<noteq> u \<longrightarrow> Get coords False w newid tab' = Err ErrNotFound \<and>
      Delete False w newid tab' = (Some ErrNotFound, tab')"
    using row fresh by (intro allI impI Get_foreign) auto
  moreover have "Get coords False u newid tab = Err ErrNotFound"
    using Get_foreign [of tab newid u coords] fresh by auto
  ultimately show ?thesis using Create_Get [OF made lib fresh pts] by auto
qed

theorem saved_routes_come_back_witness:
  "\<exists>r tab r'. Create Some False ''r1'' 7 ''u1'' \<lparr>inName = ''Home'', inWaypoints = [\<lparr>Lat = 30, Lon = - 97\<rparr>],
       inGeometry = [\<lparr>Lat = 30, Lon = - 97\<rparr>], inDistanceM = 200, inDurationS = 48, inSafetyScore = 100,
       inProfile = Cautious\<rparr> [] = (Ok r, tab) \<and>
     Get demo_coords False ''u1'' ''r1'' tab = Ok r' \<and> rtName r' = ''Home'' \<and>
     Get demo_coords False ''u2'' ''r1'' tab = Err ErrNotFound"
proof -
  let ?i = "\<lparr>inName = ''Home'', inWaypoints = [\<lparr>Lat = 30, Lon = - 97\<rparr>],
       inGeometry = [\<lparr>Lat = 30, Lon = - 97\<rparr>], inDistanceM = 200, inDurationS = 48, inSafetyScore = 100,
       inProfile = Cautious\<rparr>"
  obtain r tab where r: "Create Some False ''r1'' 7 ''u1'' ?i [] = (Ok r, tab)"
    by (simp add: Create_def Let_def)
  have "\<forall>r\<in>set []. sv_id r \<noteq> ''r1''" "inWaypoints ?i \<noteq> []" "inGeometry ?i \<noteq> []"
    "\<forall>p\<in>set (inWaypoints ?i @ inGeometry ?i). small_point p" by (simp_all add: small_point_def)
  from saved_routes_come_back [OF r demo_postgis this] r show ?thesis by auto
qed



text \<open>
  C28.  A graph that loads is well formed: its arrays agree, the out-edges of a node are exactly the edges that leave it, each once, and its junction stress is the worst of the edges that meet there.
\<close>

theorem loaded_graphs_are_well_formed:
  assumes "graph_Load nc nq ec eq = Ok g"
  shows "wf_graph g \<and>
    (\<forall>n<NumNodes g. set (out_list g n) = {e. e < NumEdges g \<and> From g ! e = n} \<and> distinct (out_list g n)) \<and>
    node_worst g (NumEdges g) (NodeMaxLTS g)"
  using graph_Load_wf [OF assms] graph_Load_junctions [OF assms] set_out_list distinct_out_list
  by (auto simp: wf_graph_def)

theorem loaded_graphs_are_well_formed_witness:
  "\<exists>g. graph_Load (Some 2) (Some demo_nodes) (Some 1) (Some demo_edges) = Ok g \<and> wf_graph g \<and>
     NodeMaxLTS g = [4, 4]"
proof -
  obtain g where g: "graph_Load (Some 2) (Some demo_nodes) (Some 1) (Some demo_edges) = Ok g"
    "NodeMaxLTS g = [4, 4]" using demo_load by blast
  then show ?thesis using loaded_graphs_are_well_formed [OF g(1)] by blast
qed

text \<open>
  C29.  In a loaded graph of at most 2^31 edges an id that is found leads to an edge with that id; and where the ids are distinct and not negative, looking up the id of an edge gives that edge.
\<close>

theorem database_ids_round_trip:
  assumes load: "graph_Load nc nq ec eq = Ok g" and len: "length (DBID g) \<le> 2147483648"
  shows "(IndexOfDBID g i = Some e \<longrightarrow> e < length (DBID g) \<and> DBID g ! e = i) \<and>
    (distinct (DBID g) \<and> e < length (DBID g) \<and> 0 \<le> DBID g ! e \<longrightarrow> IndexOfDBID g (DBID g ! e) = Some e)"
proof -
  obtain h where h: "buildDBIndex h = Ok g" "dbIndex h = []" "DBID h = DBID g"
    using graph_Load_index [OF load] by blast
  have small: "length (DBID h) \<le> 2147483648" using len h(3) by simp
  show ?thesis
    using IndexOfDBID_sound [OF h(1,2) _ small] IndexOfDBID_inverse [OF h(1) _ _ _ small] h(3) by auto
qed

theorem database_ids_round_trip_witness:
  "\<exists>g. graph_Load (Some 2) (Some demo_nodes) (Some 1) (Some demo_edges) = Ok g \<and> IndexOfDBID g 0 = Some 0"
proof -
  obtain g where g: "graph_Load (Some 2) (Some demo_nodes) (Some 1) (Some demo_edges) = Ok g"
    "DBID g = [0]" using demo_load by blast
  then show ?thesis using database_ids_round_trip [OF g(1), of 0 0] by simp
qed

text \<open>
  C30.  The mask of the largest component marks exactly the nodes of one weakly connected component, and none has more nodes.
\<close>

theorem largest_component_mask:
  assumes "wf_graph g" and "0 < NumNodes g"
  shows "\<exists>marks. LargestComponent g = Some marks \<and> length marks = NumNodes g \<and>
    {x. x < NumNodes g \<and> marks ! x} \<in> components g (\<lambda>_. True) \<and>
    (\<forall>C\<in>components g (\<lambda>_. True). card C \<le> card {x. x < NumNodes g \<and> marks ! x})"
  by (rule LargestComponent_ok [OF wf_graph_arrays [OF assms(1)] assms(2)])

theorem largest_component_mask_witness:
  "\<exists>marks. LargestComponent demo = Some marks \<and> length marks = 3"
  using largest_component_mask [OF demo_wf] by auto



text \<open>
  C32.  Where each edge of a path has a shape that starts where the one before ended, assembling succeeds, and slicing the line between an edge's offset and the next, the end point included, gives back that edge's shape.
\<close>

theorem assembled_shapes_slice_back:
  assumes "map shapes ids = map Some ss" and "chained ss" and "length (concat ss) < 2147483648"
  shows "\<exists>pts offs. assemble ids shapes = Ok (pts, offs) \<and> length offs = length ids + 1 \<and>
    (\<forall>i<length ids. Path_Geometry.slice pts (offs ! i) (offs ! (i + 1) + 1) = ss ! i)"
  by (rule assemble_slices [OF assms])

theorem assembled_shapes_slice_back_witness:
  "let a = \<lparr>Lat = 30, Lon = - 97\<rparr>; b = \<lparr>Lat = 31, Lon = - 97\<rparr>; c = \<lparr>Lat = 31, Lon = - 98\<rparr>
   in \<exists>pts offs. assemble [5, 9] [5 \<mapsto> [a, b], 9 \<mapsto> [b, c]] = Ok (pts, offs) \<and>
        Path_Geometry.slice pts (offs ! 1) (offs ! 2 + 1) = [b, c]"
proof -
  let ?a = "\<lparr>Lat = 30, Lon = - 97\<rparr>" and ?b = "\<lparr>Lat = 31, Lon = - 97\<rparr>" and ?c = "\<lparr>Lat = 31, Lon = - 98\<rparr>"
  let ?m = "[5 \<mapsto> [?a, ?b], 9 \<mapsto> [?b, ?c]] :: int \<Rightarrow> LatLon list option"
  have "map ?m [5, 9] = map Some [[?a, ?b], [?b, ?c]]" "chained [[?a, ?b], [?b, ?c]]"
    "length (concat [[?a, ?b], [?b, ?c]]) < 2147483648" by simp_all
  from assembled_shapes_slice_back [OF this] obtain pts offs where
    "assemble [5, 9] ?m = Ok (pts, offs)" "Path_Geometry.slice pts (offs ! 1) (offs ! (1 + 1) + 1) = [?b, ?c]"
    by (auto simp: less_Suc_eq)
  then show ?thesis by (auto simp: Let_def numeral_2_eq_2)
qed

text \<open>
  C33.  The binary heap is a queue of items: pushing adds one item, popping a non-empty queue takes away an item whose priority no other undercuts, and both keep the heap order.
\<close>

theorem the_queue_yields_the_least:
  assumes "heap q"
  shows "heap (push q x) \<and> mset (push q x) = add_mset x (mset q) \<and>
    (q \<noteq> [] \<longrightarrow> (case pop q of (least, rest) \<Rightarrow> heap rest \<and> mset q = add_mset least (mset rest) \<and>
      (\<forall>y\<in>set q. priority least \<le> priority y)))"
proof (cases "pop q")
  case (Pair least rest)
  have "heap rest \<and> mset q = add_mset least (mset rest)" if "q \<noteq> []"
    using that sq.deq_inv [OF assms _ Pair] sq.deq_items [OF assms _ Pair] by simp
  moreover have "priority least \<le> priority y" if "q \<noteq> []" "y \<in> set q" for y
    using that sq.deq_min [OF assms _ Pair, of y] by simp
  ultimately show ?thesis using Pair sq.enq_inv [OF assms] sq.enq_items [OF assms] by simp
qed

theorem the_queue_yields_the_least_witness:
  "heap (push [] \<lparr>state = 3, priority = 2\<rparr>)"
  using the_queue_yields_the_least [OF heap_Nil] by blast



text \<open>
  C35.  For a profile that passes validation, whatever the order in which the weights are checked, no edge costs less than its length and a turn costs between nothing and 300 weighted metres.
\<close>

theorem effective_metres:
  assumes "mset ws = mset (profile_weights (mProfile m))" and "Validate ws (mProfile m) = None"
    and "0 \<le> LengthM g ! e"
  shows "1 \<le> Multiplier m g e \<and> LengthM g ! e \<le> Model_EdgeCost m g e \<and>
    0 \<le> Model_TurnCost m g i out \<and> Model_TurnCost m g i out \<le> WeightTurn (mProfile m) * 300"
proof -
  have "profile_ok (mProfile m)" using assms(1,2) Validate_iff by blast
  then show ?thesis using assms(3) by (simp add: Multiplier_ge_1 Model_EdgeCost_ge_length Model_TurnCost_range)
qed

theorem effective_metres_witness:
  "Validate (profile_weights Cautious) Cautious = None \<and> 150 \<le> Model_EdgeCost (NewModel Cautious) demo 1"
proof -
  have v: "Validate (profile_weights Cautious) Cautious = None"
    by (simp add: Validate_iff [OF refl] builtin_ok)
  then show ?thesis
    using effective_metres [of "profile_weights Cautious" "NewModel Cautious" demo 1]
    by (simp add: NewModel_def demo_def)
qed

text \<open>
  C36.  Every edge gets a level from 1 to 4; a protected track is always level 1; and off service roads more speed and more lanes never lower the level.
\<close>

theorem lts_classification:
  "1 \<le> ClassifyLTS f \<and> ClassifyLTS f \<le> 4 \<and>
   (ef_Infra f = InfraProtectedTrack \<longrightarrow> ClassifyLTS f = LTS1) \<and>
   (ef_Highway f \<noteq> HwyService \<and> EffectiveSpeed f \<le> s \<and> EffectiveLanes f \<le> l \<longrightarrow>
      ClassifyLTS f \<le> ClassifyLTS (f\<lparr>ef_SpeedMPH := s, ef_Lanes := l\<rparr>))"
  using ClassifyLTS_range ClassifyLTS_mono by (simp add: ClassifyLTS_def)

theorem lts_classification_witness:
  "let f = \<lparr>ef_Infra = InfraPaintedLane, ef_Highway = HwyTertiary, ef_Surface = SurfacePaved,
       ef_SpeedMPH = - 1, ef_Lanes = - 1\<rparr>
   in ClassifyLTS f \<le> ClassifyLTS (f\<lparr>ef_SpeedMPH := 45, ef_Lanes := 4\<rparr>) \<and>
      ClassifyLTS (f\<lparr>ef_Infra := InfraProtectedTrack\<rparr>) = LTS1"
proof -
  let ?f = "\<lparr>ef_Infra = InfraPaintedLane, ef_Highway = HwyTertiary, ef_Surface = SurfacePaved,
    ef_SpeedMPH = - 1, ef_Lanes = - 1\<rparr>"
  have "EffectiveSpeed ?f \<le> 45" "EffectiveLanes ?f \<le> 4"
    by (simp_all add: EffectiveSpeed_def EffectiveLanes_def SpeedUnknown_def LanesUnknown_def)
  then show ?thesis
    using lts_classification [of ?f 45 4] lts_classification [of "?f\<lparr>ef_Infra := InfraProtectedTrack\<rparr>" 0 0]
    by (simp add: Let_def)
qed


text \<open>
  C38.  A whole number of miles per hour from 1 to 100 reads back as itself with or without a space before the unit, a bare number is converted from km/h, whatever is read lies between 0 and 100; but a tag that is only a unit makes the parser panic.
\<close>

theorem speed_tags_read_as_tagged:
  "(parseMaxSpeedMPH v = Ok (Some k) \<longrightarrow> 0 \<le> k \<and> k \<le> 100) \<and>
   (0 < n \<and> n \<le> 100 \<longrightarrow>
      parseMaxSpeedMPH (FormatInt n @ '' mph'') = Ok (Some n) \<and>
      parseMaxSpeedMPH (FormatInt n @ ''mph'') = Ok (Some n) \<and>
      parseMaxSpeedMPH (FormatInt n) = Ok (Some (math_Round (of_int n * 621371 / 1000000)))) \<and>
   (u \<in> set speed_units \<longrightarrow> parseMaxSpeedMPH u = Panic)"
  using parseMaxSpeedMPH_range bare_unit_panics parse_whole_speed [of n "[]"]
    parse_whole_speed [of n "''mph''"] parse_whole_speed [of n "'' mph''"] by auto

theorem speed_tags_read_as_tagged_witness:
  "parseMaxSpeedMPH (FormatInt 35 @ '' mph'') = Ok (Some 35) \<and> parseMaxSpeedMPH ''mph'' = Panic"
  using speed_tags_read_as_tagged [of "[]" 0 35 "''mph''"] by (simp add: speed_units_def)

text \<open>
  C39.  On a road the facility that is recorded is the one some cycleway tag names, and no cycleway tag names a better one; without any facility it is none.
\<close>

theorem the_best_facility_wins:
  assumes "tags ''highway'' \<notin> {''cycleway'', ''path'', ''track'', ''footway'', ''pedestrian'', ''bridleway''}"
  shows "(\<forall>k\<in>set cycleway_keys. tags k \<noteq> [] \<longrightarrow>
      infra_rank (classifyCyclewayValue (tags k) k tags) \<le> infra_rank (ClassifyInfra tags)) \<and>
    (ClassifyInfra tags = NoFacility \<or>
      (\<exists>k\<in>set cycleway_keys. tags k \<noteq> [] \<and> ClassifyInfra tags = classifyCyclewayValue (tags k) k tags))"
proof -
  have "ClassifyInfra tags = fold (best_step tags) cycleway_keys NoFacility"
    using assms by (simp add: ClassifyInfra_def)
  then show ?thesis
    using best_step_from [of tags cycleway_keys NoFacility] infra_rank_fold [of tags cycleway_keys NoFacility]
      fold_rank_ge [of "infra_rank NoFacility" "\<lambda>k. if tags k = [] then 0 else infra_rank (classifyCyclewayValue (tags k) k tags)" cycleway_keys]
    by auto
qed

theorem the_best_facility_wins_witness:
  "infra_rank (classifyCyclewayValue ''track'' ''cycleway:right'' street_tags) \<le> infra_rank (ClassifyInfra street_tags) \<and>
   infra_rank (classifyCyclewayValue ''track'' ''cycleway:right'' street_tags) = 4"
proof -
  have road: "street_tags ''highway'' \<notin> {''cycleway'', ''path'', ''track'', ''footway'', ''pedestrian'', ''bridleway''}"
    by (simp add: street_tags_def)
  have "''cycleway:right'' \<in> set cycleway_keys" "street_tags ''cycleway:right'' = ''track''"
    by (simp_all add: cycleway_keys_def street_tags_def)
  then have "infra_rank (classifyCyclewayValue ''track'' ''cycleway:right'' street_tags) \<le> infra_rank (ClassifyInfra street_tags)"
    using the_best_facility_wins [where tags = street_tags, OF road] by force
  moreover have "classifyCyclewayValue ''track'' ''cycleway:right'' street_tags = ProtectedTrack" by code_simp
  ultimately show ?thesis by (simp add: infra_rank_def)
qed

text \<open>
  C40.  A terrain tile of 256 by 256 pixels decodes to 65536 heights, each exactly R * 256 + G + B / 256 - 32768 although every operation is rounded to float32, by the fast path and by the generic one alike; a tile of another size is refused.
\<close>

theorem terrarium_tiles_decode_exactly:
  assumes "png data = Some img" and "image_ok img"
  shows "(bounds_of img \<noteq> (256, 256) \<longrightarrow>
      decodeTerrarium png data = Err (BadTileSize (fst (bounds_of img)) (snd (bounds_of img)))) \<and>
    (bounds_of img = (256, 256) \<longrightarrow> (\<exists>hs. decodeTerrarium png data = Ok hs \<and> length hs = 65536 \<and>
      (\<forall>x<256. \<forall>y<256. \<forall>r g b. channels img x y = (r, g, b) \<longrightarrow>
        hs ! (y * 256 + x) = of_int (r * 256 + g) + of_int b / 256 - 32768 \<and>
        - 32768 \<le> hs ! (y * 256 + x) \<and> hs ! (y * 256 + x) < 32768)))"
proof (cases "bounds_of img = (256, 256)")
  case True
  then obtain hs where hs: "decodeTerrarium png data = Ok hs"
    using assms(1) by (simp add: decodeTerrarium_def tileSize_def)
  have "hs ! (y * 256 + x) = exact_height r g b \<and> height_ok (exact_height r g b)"
    if "x < 256" "y < 256" "channels img x y = (r, g, b)" for x y r g b
    using decode_nth [OF hs assms(1) that(1,2)] pixel_height_exact [OF assms(2) that(3)]
      channels_range [OF assms(2) that(3)] exact_height_ok [of r g b] by simp
  then show ?thesis using True hs decode_length [OF hs] by (simp add: tileSize_def exact_height_def height_ok_def)
qed (use assms in \<open>auto simp: decodeTerrarium_def tileSize_def split: prod.split\<close>)

theorem terrarium_tiles_decode_exactly_witness:
  "\<exists>hs. decodeTerrarium (\<lambda>_. Some (NRGBA 256 256 1024 (\<lambda>i. if i mod 4 = 0 then 128 else 1))) [] = Ok hs \<and>
     hs ! (0 * 256 + 0) = 1 + 1 / 256"
proof -
  let ?img = "NRGBA 256 256 1024 (\<lambda>i. if i mod 4 = 0 then 128 else 1)"
  have "image_ok ?img" "bounds_of ?img = (256, 256)" by (simp_all add: image_ok_def)
  then obtain hs where hs: "decodeTerrarium (\<lambda>_. Some ?img) [] = Ok hs"
    and at: "\<forall>x<256. \<forall>y<256. \<forall>r g b. channels ?img x y = (r, g, b) \<longrightarrow>
        hs ! (y * 256 + x) = of_int (r * 256 + g) + of_int b / 256 - 32768"
    using terrarium_tiles_decode_exactly [of "\<lambda>_. Some ?img" "[]" ?img] by blast
  have "channels ?img 0 0 = (128, 1, 1)" by simp
  from at [rule_format, OF _ _ this] hs show ?thesis by auto
qed

end
